(* ===== verification/Prelude.thy ===== *)
theory Prelude
  imports Main "HOL-Library.Word"
begin

text \<open>
  Shared vocabulary of the development: the C integer types as words of their width, the
  outcome type of an operation that can bring the emulator down, the two idioms the C code
  repeats everywhere (sign extension by a pair of shifts, little-endian byte loops), and the
  interface of a byte store with the multi-byte lemmas derived from it once.

  The collections: \<open>masks\<close> turns a test of the form \<open>x & constant\<close> into a test of one bit,
  \<open>sx_rules\<close> describes the bits of sign-extended immediates, and \<open>frame\<close> collects, per
  operation, the parts of the machine it leaves alone.
\<close>

unbundle bit_operations_syntax

named_theorems masks \<open>C bit tests as single bits\<close>
named_theorems sx_rules \<open>bits of sign-extended values\<close>
named_theorems frame \<open>parts of the machine an operation leaves alone\<close>

section \<open>C integer types\<close>

type_synonym u8 = "8 word"
type_synonym u16 = "16 word"
type_synonym u32 = "32 word"
type_synonym u64 = "64 word"

section \<open>Outcomes\<close>

text \<open>
  What can happen to the process instead of a normal return: a thread locks a mutex it
  already holds (\<open>Deadlock\<close>), a handler table entry that was never filled is called
  (\<open>NullCall\<close>), an array of the host is indexed outside its bounds (\<open>OutOfBounds\<close>), an
  integer is divided by 0 (\<open>DivByZero\<close>), a loop never ends (\<open>Diverges\<close>), or an access to the
  block \<open>memory\<close> leaves it (\<open>Overrun off n\<close>: the \<open>n\<close> bytes from \<open>memory[off]\<close> on).
\<close>

datatype fault = Deadlock | NullCall | OutOfBounds | DivByZero | Diverges | Overrun u64 nat

type_synonym 'a res = "fault + 'a"

fun rbind :: "'a res \<Rightarrow> ('a \<Rightarrow> 'b res) \<Rightarrow> 'b res" where
  "rbind (Inl e) f = Inl e"
| "rbind (Inr x) f = f x"

lemma rbind_Inr_iff: "rbind r f = Inr y \<longleftrightarrow> (\<exists>x. r = Inr x \<and> f x = Inr y)"
  by (cases r) auto

lemma rbind_Inl_iff: "rbind r f = Inl e \<longleftrightarrow> r = Inl e \<or> (\<exists>x. r = Inr x \<and> f x = Inl e)"
  by (cases r) auto

lemma rbind_assoc: "rbind (rbind r f) g = rbind r (\<lambda>x. rbind (f x) g)"
  by (cases r) auto

text \<open>\<open>for (i = 0; i < n; i++) body(i)\<close>\<close>

fun for_loop :: "(nat \<Rightarrow> 's \<Rightarrow> 's res) \<Rightarrow> nat \<Rightarrow> 's \<Rightarrow> 's res" where
  "for_loop body 0 s = Inr s"
| "for_loop body (Suc n) s = rbind (for_loop body n s) (body n)"

lemma for_loop_inv:
  "for_loop body n s = Inr s' \<Longrightarrow> P 0 s \<Longrightarrow>
   (\<And>i t t'. i < n \<Longrightarrow> P i t \<Longrightarrow> body i t = Inr t' \<Longrightarrow> P (Suc i) t') \<Longrightarrow> P n s'"
proof (induction n arbitrary: s')
  case (Suc n)
  then obtain t where "for_loop body n s = Inr t" "body n t = Inr s'" by (auto simp: rbind_Inr_iff)
  moreover from this Suc have "P n t" by simp
  ultimately show ?case using Suc.prems by blast
qed simp

lemma for_loop_ok:
  assumes "\<And>i t. i < n \<Longrightarrow> P t \<Longrightarrow> \<exists>t'. body i t = Inr t' \<and> P t'" and "P s"
  shows "\<exists>s'. for_loop body n s = Inr s' \<and> P s'"
  using assms(1)
proof (induction n)
  case 0
  with assms(2) show ?case by simp
next
  case (Suc n)
  then obtain t where "for_loop body n s = Inr t" "P t" by force
  moreover from Suc.prems [of n] \<open>P t\<close> obtain t' where "body n t = Inr t'" "P t'" by blast
  ultimately show ?case by simp
qed

lemma for_loop_fails:
  "for_loop body k s = Inr t \<Longrightarrow> body k t = Inl e \<Longrightarrow> k < n \<Longrightarrow> for_loop body n s = Inl e"
proof (induction n)
  case (Suc n)
  then show ?case by (cases "k = n") auto
qed simp

text \<open>A predicate on states that a fallible operation keeps whenever it returns.\<close>

definition keeps :: "('s \<Rightarrow> 's res) \<Rightarrow> ('s \<Rightarrow> bool) \<Rightarrow> bool" where
  "keeps f P \<longleftrightarrow> (\<forall>s s'. P s \<longrightarrow> f s = Inr s' \<longrightarrow> P s')"

lemma keepsI: "(\<And>s s'. P s \<Longrightarrow> f s = Inr s' \<Longrightarrow> P s') \<Longrightarrow> keeps f P"
  by (simp add: keeps_def)

lemma keepsD: "keeps f P \<Longrightarrow> P s \<Longrightarrow> f s = Inr s' \<Longrightarrow> P s'"
  by (simp add: keeps_def)

lemma keeps_rbind: "keeps f P \<Longrightarrow> keeps g P \<Longrightarrow> keeps (\<lambda>s. rbind (f s) g) P"
  unfolding keeps_def rbind_Inr_iff by blast

text \<open>
  \<open>sat P G r\<close>: if the operation returned, its result satisfies \<open>P\<close>; if it brought the emulator
  down, the fault is one that \<open>G\<close> admits.
\<close>

definition sat :: "('a \<Rightarrow> bool) \<Rightarrow> (fault \<Rightarrow> bool) \<Rightarrow> 'a res \<Rightarrow> bool" where
  "sat P G r \<longleftrightarrow> (case r of Inl e \<Rightarrow> G e | Inr x \<Rightarrow> P x)"

lemma sat_simps [simp]: "sat P G (Inr x) = P x" "sat P G (Inl e) = G e"
  by (simp_all add: sat_def)

lemma sat_rbind: "sat Q G r \<Longrightarrow> (\<And>x. Q x \<Longrightarrow> sat P G (f x)) \<Longrightarrow> sat P G (rbind r f)"
  by (cases r) auto

lemma sat_rbind_pair:
  "sat (\<lambda>(v, s). Q s) G r \<Longrightarrow> (\<And>v s. Q s \<Longrightarrow> sat P G (f v s)) \<Longrightarrow> sat P G (rbind r (\<lambda>(v, s). f v s))"
  by (cases r) auto

lemma sat_if: "(b \<Longrightarrow> sat P G r) \<Longrightarrow> (\<not> b \<Longrightarrow> sat P G r') \<Longrightarrow> sat P G (if b then r else r')"
  by simp

lemma sat_imp: "sat P G r \<Longrightarrow> (\<And>x. P x \<Longrightarrow> Q x) \<Longrightarrow> sat Q G r"
  by (cases r) auto

lemma sat_pair_imp: "sat P G (rbind r (\<lambda>(v, s). Inr s)) \<Longrightarrow> sat (\<lambda>(v, s). P s) G r"
  by (cases r) auto

lemma sat_Inr_iff: "sat P (\<lambda>_. True) r \<longleftrightarrow> (\<forall>x. r = Inr x \<longrightarrow> P x)"
  by (cases r) auto

lemma satD: "sat P G r \<Longrightarrow> r = Inr x \<Longrightarrow> P x"
  by simp

section \<open>Words\<close>

text \<open>
  \<open>(int64_t)(((int32_t)x << k) >> k)\<close>: the low \<open>32 - k\<close> bits of \<open>x\<close>, sign-extended to
  64 bits. Every immediate of the instruction set is built with it.
\<close>

definition sx :: "nat \<Rightarrow> u32 \<Rightarrow> u64" where
  "sx k x = scast (signed_drop_bit k (push_bit k x))"

text \<open>\<open>(int64_t)(int32_t)x\<close> of a 64-bit register value.\<close>

definition sext32 :: "u64 \<Rightarrow> u64" where
  "sext32 x = scast (ucast x :: u32)"

lemma bit_sx [sx_rules]:
  "k < 32 \<Longrightarrow> bit (sx k x) n \<longleftrightarrow> n < 64 \<and> bit x (min n (31 - k))"
  by (cases "k = 0") (auto simp: sx_def bit_simps min_def not_le)

lemma bit_sext32 [sx_rules]:
  "bit (sext32 x) n \<longleftrightarrow> n < 64 \<and> bit x (min n 31)"
  by (auto simp: sext32_def bit_simps min_def)

lemma bit_and_numeral_64:
  "bit (x AND numeral m :: u64) n \<longleftrightarrow> bit x n \<and> bit (numeral m :: u64) n"
  by (simp add: bit_simps)

lemma tst_bit: "(x :: 'a::len word) AND 2 ^ n \<noteq> 0 \<longleftrightarrow> bit x n"
  by (simp add: and_exp_eq_0_iff_not_bit)

text \<open>The single-bit masks the code tests, so that \<open>simp add: masks\<close> reads them as bits.\<close>

lemma mask_bits [masks]:
  fixes x :: "'a::len word"
  shows "x AND 1 = 0 \<longleftrightarrow> \<not> bit x 0"
    and "x AND 2 = 0 \<longleftrightarrow> \<not> bit x 1"
    and "x AND 4 = 0 \<longleftrightarrow> \<not> bit x 2"
    and "x AND 8 = 0 \<longleftrightarrow> \<not> bit x 3"
    and "x AND 16 = 0 \<longleftrightarrow> \<not> bit x 4"
    and "x AND 32 = 0 \<longleftrightarrow> \<not> bit x 5"
    and "x AND 64 = 0 \<longleftrightarrow> \<not> bit x 6"
    and "x AND 128 = 0 \<longleftrightarrow> \<not> bit x 7"
    and "x AND 256 = 0 \<longleftrightarrow> \<not> bit x 8"
    and "x AND 512 = 0 \<longleftrightarrow> \<not> bit x 9"
    and "x AND 2048 = 0 \<longleftrightarrow> \<not> bit x 11"
  using and_exp_eq_0_iff_not_bit [of x 0] and_exp_eq_0_iff_not_bit [of x 1]
    and_exp_eq_0_iff_not_bit [of x 2] and_exp_eq_0_iff_not_bit [of x 3]
    and_exp_eq_0_iff_not_bit [of x 4] and_exp_eq_0_iff_not_bit [of x 5]
    and_exp_eq_0_iff_not_bit [of x 6] and_exp_eq_0_iff_not_bit [of x 7]
    and_exp_eq_0_iff_not_bit [of x 8] and_exp_eq_0_iff_not_bit [of x 9]
    and_exp_eq_0_iff_not_bit [of x 11]
  by simp_all

lemma ucast_and_0xFF: "(ucast (x AND 0xFF) :: u8) = ucast (x :: 'a::len word)"
proof -
  have "(0xFF :: 'a word) = mask 8" by (simp add: mask_eq_exp_minus_1)
  then show ?thesis by (simp only: \<open>0xFF = mask 8\<close>) (rule bit_word_eqI, auto simp: bit_simps dest: bit_imp_le_length)
qed

lemma unat_ucast_16_64: "unat (ucast (x :: u16) :: u64) = unat x"
  by (simp add: unsigned_ucast_eq take_bit_nat_eq_self order_less_le_trans [OF unsigned_less])

lemma bit_32_u8: "bit (0x20 :: u8) n \<longleftrightarrow> n = 5"
  using bit_exp_iff [of 5 n, where 'a = "8 word"] by auto

text \<open>
  Setting and clearing one bit of a 64-bit register with an \<open>unsigned int\<close> mask: the
  complement of the mask is zero-extended, so clearing also clears bits 32 to 63.
\<close>

lemma bit_set_u32:
  "k < 32 \<Longrightarrow> bit ((v :: u64) OR ucast (2 ^ k :: u32)) n \<longleftrightarrow> n = k \<or> bit v n"
  by (auto simp: bit_simps)

lemma bit_clear_u32:
  "k < 32 \<Longrightarrow> bit ((v :: u64) AND ucast (NOT (2 ^ k) :: u32)) n \<longleftrightarrow> bit v n \<and> n < 32 \<and> n \<noteq> k"
  by (auto simp: bit_simps)

section \<open>Selection loops\<close>

text \<open>
  A loop over candidate numbers that keeps the best score so far and the number it belongs
  to, with 0 for none: \<open>if (ok(i) && score(i) > best) { best = score(i); winner = i; }\<close>.
\<close>

definition best_step :: "(nat \<Rightarrow> bool) \<Rightarrow> (nat \<Rightarrow> u32) \<Rightarrow> nat \<Rightarrow> u32 \<times> u32 \<Rightarrow> u32 \<times> u32" where
  "best_step ok score i mw = (if ok i \<and> fst mw < score i then (score i, of_nat i) else mw)"

definition is_best :: "(nat \<Rightarrow> bool) \<Rightarrow> (nat \<Rightarrow> u32) \<Rightarrow> nat set \<Rightarrow> u32 \<Rightarrow> u32 \<times> u32 \<Rightarrow> bool" where
  "is_best ok score I t mw \<longleftrightarrow>
     (if snd mw = 0 then fst mw = t \<and> (\<forall>i\<in>I. ok i \<longrightarrow> score i \<le> t)
      else unat (snd mw) \<in> I \<and> ok (unat (snd mw)) \<and> score (unat (snd mw)) = fst mw \<and> t < fst mw \<and>
        (\<forall>i\<in>I. ok i \<longrightarrow> score i < fst mw \<or> score i = fst mw \<and> unat (snd mw) \<le> i))"

lemma is_best_step:
  assumes "is_best ok score {a..<n} t mw" and "0 < a" "a \<le> n" "n < 2 ^ 32"
  shows "is_best ok score {a..<Suc n} t (best_step ok score n mw)"
proof -
  have u: "unat (of_nat n :: u32) = n"
    using assms(4) by (simp add: unsigned_of_nat take_bit_nat_eq_self)
  moreover from this have "(of_nat n :: u32) \<noteq> 0"
    using assms(2,3) by (metis not_less unsigned_0)
  ultimately have n: "unat (of_nat n :: u32) = n" "(of_nat n :: u32) \<noteq> 0" by blast+
  have "{a..<Suc n} = insert n {a..<n}" using assms(3) by auto
  with assms(1) n show ?thesis
    unfolding is_best_def best_step_def by (auto split: if_splits)
qed

lemma fold_best:
  assumes "0 < a" "n < 2 ^ 32"
  shows "is_best ok score {a..<n} t (fold (best_step ok score) [a..<n] (t, 0))"
  using assms(2)
proof (induction n)
  case 0
  then show ?case by (simp add: is_best_def)
next
  case (Suc n)
  then have IH: "is_best ok score {a..<n} t (fold (best_step ok score) [a..<n] (t, 0))" by simp
  show ?case
  proof (cases "a \<le> n")
    case True
    with is_best_step [OF IH assms(1) True] Suc.prems show ?thesis by simp
  next
    case False
    then show ?thesis by (simp add: is_best_def)
  qed
qed

section \<open>Byte stores\<close>

text \<open>
  \<open>value |= (uint64_t)mem[a + i] << (8 * i)\<close> for \<open>i = 0, 1, \<dots>, n - 1\<close>, and the matching
  loop \<open>mem[a + i] = (value >> 8 * i) & 0xFF\<close>. \<open>memcpy\<close> between memory and a 64-bit
  variable on the little-endian host moves the same bytes.
\<close>

fun le_load :: "(u64 \<Rightarrow> u8) \<Rightarrow> u64 \<Rightarrow> nat \<Rightarrow> u64" where
  "le_load rd a 0 = 0"
| "le_load rd a (Suc n) = le_load rd a n OR push_bit (8 * n) (ucast (rd (a + of_nat n)))"

lemma le_load_2: "le_load rd a 2 = ucast (rd a) OR push_bit 8 (ucast (rd (a + 1)))"
  by (simp add: numeral_2_eq_2)

lemma le_load_8: "le_load rd a 8 = ucast (rd a) OR push_bit 8 (ucast (rd (a + 1))) OR push_bit 16 (ucast (rd (a + 2))) OR
   push_bit 24 (ucast (rd (a + 3))) OR push_bit 32 (ucast (rd (a + 4))) OR push_bit 40 (ucast (rd (a + 5))) OR
   push_bit 48 (ucast (rd (a + 6))) OR push_bit 56 (ucast (rd (a + 7)))"
  by (simp add: eval_nat_numeral or.assoc)

lemma le_load_4: "le_load rd a 4 = ucast (rd a) OR push_bit 8 (ucast (rd (a + 1))) OR push_bit 16 (ucast (rd (a + 2))) OR
   push_bit 24 (ucast (rd (a + 3)))"
  by (simp add: eval_nat_numeral or.assoc)

fun le_store :: "(u64 \<Rightarrow> u8 \<Rightarrow> 's \<Rightarrow> 's) \<Rightarrow> u64 \<Rightarrow> u64 \<Rightarrow> nat \<Rightarrow> 's \<Rightarrow> 's" where
  "le_store wr a v 0 s = s"
| "le_store wr a v (Suc n) s = wr (a + of_nat n) (ucast (drop_bit (8 * n) v)) (le_store wr a v n s)"

lemma bit_le_load:
  "n \<le> 8 \<Longrightarrow> bit (le_load rd a n) i \<longleftrightarrow> i < 8 * n \<and> bit (rd (a + of_nat (i div 8))) (i mod 8)"
proof (induction n)
  case 0
  then show ?case by simp
next
  case (Suc n)
  then have IH: "bit (le_load rd a n) i \<longleftrightarrow> i < 8 * n \<and> bit (rd (a + of_nat (i div 8))) (i mod 8)"
    by simp
  have "bit (push_bit (8 * n) (ucast (rd (a + of_nat n)) :: u64)) i \<longleftrightarrow>
      8 * n \<le> i \<and> i < 8 * Suc n \<and> bit (rd (a + of_nat (i div 8))) (i mod 8)"
  proof (cases "8 * n \<le> i \<and> i < 8 * Suc n")
    case True
    then have "i div 8 = n" by (simp add: div_nat_eqI)
    moreover from this have "i mod 8 = i - 8 * n" by (simp add: modulo_nat_def)
    moreover have "i < 64"
      by (rule less_le_trans [OF conjunct2 [OF True]]) (use Suc.prems in simp)
    moreover from this have "i - 8 * n < 64" by linarith
    ultimately show ?thesis using True by (simp add: bit_simps)
  next
    case False
    then show ?thesis by (auto simp: bit_simps dest: bit_imp_le_length)
  qed
  with IH show ?case by (auto simp: bit_simps)
qed

text \<open>Loading depends on the loaded bytes only.\<close>

lemma le_load_cong:
  "(\<And>i. i < n \<Longrightarrow> rd (a + of_nat i) = rd' (a + of_nat i)) \<Longrightarrow> le_load rd a n = le_load rd' a n"
  by (induction n) auto

lemma of_nat_neq_64: "i < n \<Longrightarrow> n < 2 ^ 64 \<Longrightarrow> (of_nat i :: u64) \<noteq> of_nat n"
  by (simp add: of_nat_inverse word_of_nat_eq_iff take_bit_nat_eq_self)

text \<open>
  The interface of a byte store: reading a byte after one was written. Host memory, the
  disk image and the block cache all provide it.
\<close>

locale byte_store =
  fixes get :: "'s \<Rightarrow> u64 \<Rightarrow> u8"
    and put :: "u64 \<Rightarrow> u8 \<Rightarrow> 's \<Rightarrow> 's"
  assumes get_put: "get (put a v s) b = (if b = a then v else get s b)"
begin

lemma get_le_store_outside:
  "(\<And>i. i < n \<Longrightarrow> b \<noteq> a + of_nat i) \<Longrightarrow> get (le_store put a v n s) b = get s b"
  by (induction n) (auto simp: get_put)

lemma get_le_store_inside:
  "i < n \<Longrightarrow> n \<le> 8 \<Longrightarrow> get (le_store put a v n s) (a + of_nat i) = ucast (drop_bit (8 * i) v)"
proof (induction n)
  case 0
  then show ?case by simp
next
  case (Suc n)
  show ?case
  proof (cases "i = n")
    case True
    then show ?thesis by (simp add: get_put)
  next
    case False
    with Suc.prems have "i < n" by simp
    moreover from this have "(of_nat i :: u64) \<noteq> of_nat n"
      using Suc.prems by (intro of_nat_neq_64) auto
    ultimately show ?thesis using Suc by (simp add: get_put)
  qed
qed

theorem load_after_store:
  assumes "n \<le> 8"
  shows "le_load (get (le_store put a v n s)) a n = take_bit (8 * n) v"
proof (rule bit_word_eqI)
  fix i :: nat
  assume "i < LENGTH(64)"
  show "bit (le_load (get (le_store put a v n s)) a n) i \<longleftrightarrow> bit (take_bit (8 * n) v) i"
  proof (cases "i < 8 * n")
    case True
    then have "i div 8 < n" by auto
    with True assms show ?thesis
      by (simp add: bit_le_load get_le_store_inside bit_simps mult.commute)
  next
    case False
    with assms show ?thesis by (simp add: bit_le_load bit_simps)
  qed
qed

theorem load_after_disjoint_store:
  assumes "\<And>i j. i < n \<Longrightarrow> j < m \<Longrightarrow> b + of_nat j \<noteq> a + of_nat i"
  shows "le_load (get (le_store put a v n s)) b m = le_load (get s) b m"
proof (rule le_load_cong)
  fix j assume "j < m"
  with assms show "get (le_store put a v n s) (b + of_nat j) = get s (b + of_nat j)"
    by (intro get_le_store_outside) blast
qed

end

end
