(* ===== verification/Machine.thy ===== *)
theory Machine
  imports Prelude
begin

text \<open>
  The data model: the structures of \<open>cpu.h\<close>, \<open>clint.h\<close>, \<open>plic.h\<close>, \<open>uart.h\<close>,
  \<open>virtio_blk.h\<close> and \<open>bus.h\<close> as records, the constants of \<open>common.h\<close>, and the machine,
  which holds every global variable of the emulator. Pointers between the structures
  (\<open>cpu->mem\<close>, \<open>&cpu[0].clint\<close>, the opaque pointers of the bus) all lead to one of these
  globals, so they are modelled by the machine field they point to: an operation that goes
  through two pointers to the same object updates the same field.
  Arrays are functions from their index. Fields that no code reads or writes are left out.
\<close>

section \<open>Constants of common.h\<close>

abbreviation (input) MEMORY_BASE :: u64 where "MEMORY_BASE \<equiv> 0x80000000"
abbreviation (input) MEMORY_SIZE :: u64 where "MEMORY_SIZE \<equiv> 0x40000000"
abbreviation (input) CLINT_BASE_ADDR :: u64 where "CLINT_BASE_ADDR \<equiv> 0x02000000"
abbreviation (input) CLINT_SIZE :: u64 where "CLINT_SIZE \<equiv> 0x10000"
abbreviation (input) PLIC_BASE :: u64 where "PLIC_BASE \<equiv> 0x0c000000"
abbreviation (input) PLIC_SIZE :: u64 where "PLIC_SIZE \<equiv> 0x4000000"
abbreviation (input) UART_BASE :: u64 where "UART_BASE \<equiv> 0x10000000"
abbreviation (input) UART_SIZE :: u64 where "UART_SIZE \<equiv> 0x100"
abbreviation (input) VIRTIO_MMIO_BASE :: u64 where "VIRTIO_MMIO_BASE \<equiv> 0x10001000"
abbreviation (input) VIRTIO_MMIO_SIZE :: u64 where "VIRTIO_MMIO_SIZE \<equiv> 0x1000"

abbreviation (input) MAX_MMIO_REGIONS :: nat where "MAX_MMIO_REGIONS \<equiv> 8"
abbreviation (input) MAX_CORES :: nat where "MAX_CORES \<equiv> 4"
abbreviation (input) TLB_SIZE :: nat where "TLB_SIZE \<equiv> 64"
abbreviation (input) MAX_IRQS :: int where "MAX_IRQS \<equiv> 1023"
abbreviation (input) UART_IRQ_NUM :: int where "UART_IRQ_NUM \<equiv> 10"
abbreviation (input) VIRTIO_IRQ :: int where "VIRTIO_IRQ \<equiv> 1"
abbreviation (input) UART_TX_BUF_SIZE :: u32 where "UART_TX_BUF_SIZE \<equiv> 1024"
abbreviation (input) UART_RX_BUF_SIZE :: u32 where "UART_RX_BUF_SIZE \<equiv> 1024"
abbreviation (input) DISK_LATENCY_CYCLES :: u64 where "DISK_LATENCY_CYCLES \<equiv> 1000"
abbreviation (input) BSIZE :: u64 where "BSIZE \<equiv> 1024"

abbreviation (input) CSR_SSTATUS :: u32 where "CSR_SSTATUS \<equiv> 0x100"
abbreviation (input) CSR_SIE :: u32 where "CSR_SIE \<equiv> 0x104"
abbreviation (input) CSR_STVEC :: u32 where "CSR_STVEC \<equiv> 0x105"
abbreviation (input) CSR_SEPC :: u32 where "CSR_SEPC \<equiv> 0x141"
abbreviation (input) CSR_SCAUSE :: u32 where "CSR_SCAUSE \<equiv> 0x142"
abbreviation (input) CSR_STVAL :: u32 where "CSR_STVAL \<equiv> 0x143"
abbreviation (input) CSR_SIP :: u32 where "CSR_SIP \<equiv> 0x144"
abbreviation (input) CSR_STIMECMP :: u32 where "CSR_STIMECMP \<equiv> 0x14D"
abbreviation (input) CSR_SATP :: u32 where "CSR_SATP \<equiv> 0x180"
abbreviation (input) CSR_MSTATUS :: u32 where "CSR_MSTATUS \<equiv> 0x300"
abbreviation (input) CSR_MIDELEG :: u32 where "CSR_MIDELEG \<equiv> 0x303"
abbreviation (input) CSR_MIE :: u32 where "CSR_MIE \<equiv> 0x304"
abbreviation (input) CSR_MTVEC :: u32 where "CSR_MTVEC \<equiv> 0x305"
abbreviation (input) CSR_MCOUNTERN :: u32 where "CSR_MCOUNTERN \<equiv> 0x306"
abbreviation (input) CSR_MENVCFG :: u32 where "CSR_MENVCFG \<equiv> 0x30A"
abbreviation (input) CSR_MEPC :: u32 where "CSR_MEPC \<equiv> 0x341"
abbreviation (input) CSR_MCAUSE :: u32 where "CSR_MCAUSE \<equiv> 0x342"
abbreviation (input) CSR_MTVAL :: u32 where "CSR_MTVAL \<equiv> 0x343"
abbreviation (input) CSR_MIP :: u32 where "CSR_MIP \<equiv> 0x344"
abbreviation (input) CSR_TIME :: u32 where "CSR_TIME \<equiv> 0xC01"

text \<open>
  The masks keep their C types: \<open>SSTATUS_*\<close> are \<open>int\<close>, so their complement sign-extends
  to 64 bits, while \<open>MSTATUS_*\<close> and \<open>MIP_*\<close> are \<open>unsigned int\<close>, so their complement
  zero-extends and clears the upper half of the register it is applied to.
\<close>

abbreviation (input) SSTATUS_SIE :: u64 where "SSTATUS_SIE \<equiv> 0x2"
abbreviation (input) SSTATUS_SPIE :: u64 where "SSTATUS_SPIE \<equiv> 0x20"
abbreviation (input) SSTATUS_SPP :: u64 where "SSTATUS_SPP \<equiv> 0x100"
abbreviation (input) SIE_SSIE :: u64 where "SIE_SSIE \<equiv> 0x2"
abbreviation (input) SIE_STIE :: u64 where "SIE_STIE \<equiv> 0x20"
abbreviation (input) SIE_SEIE :: u64 where "SIE_SEIE \<equiv> 0x200"
abbreviation (input) MSTATUS_MIE :: u32 where "MSTATUS_MIE \<equiv> 0x8"
abbreviation (input) MSTATUS_MPIE :: u32 where "MSTATUS_MPIE \<equiv> 0x80"
abbreviation (input) MSTATUS_MPP_MASK :: u32 where "MSTATUS_MPP_MASK \<equiv> 0x1800"
abbreviation (input) MIP_MSIP :: u32 where "MIP_MSIP \<equiv> 0x8"
abbreviation (input) MIP_MTIP :: u32 where "MIP_MTIP \<equiv> 0x80"
abbreviation (input) MIP_MEIP :: u32 where "MIP_MEIP \<equiv> 0x800"
abbreviation (input) MIP_STIP :: u32 where "MIP_STIP \<equiv> 0x20"

abbreviation (input) PTE_V :: u64 where "PTE_V \<equiv> 0x1"
abbreviation (input) PTE_R :: u64 where "PTE_R \<equiv> 0x2"
abbreviation (input) PTE_W :: u64 where "PTE_W \<equiv> 0x4"
abbreviation (input) PTE_X :: u64 where "PTE_X \<equiv> 0x8"
abbreviation (input) PTE_U :: u64 where "PTE_U \<equiv> 0x10"
abbreviation (input) PTE_A :: u64 where "PTE_A \<equiv> 0x40"
abbreviation (input) PTE_D :: u64 where "PTE_D \<equiv> 0x80"

text \<open>The access types of \<open>common.h\<close> (an anonymous enum) and the fault codes derived from them.\<close>

datatype acc = ACC_FETCH | ACC_LOAD | ACC_STORE

fun acc_code :: "acc \<Rightarrow> u8" where
  "acc_code ACC_FETCH = 0"
| "acc_code ACC_LOAD = 1"
| "acc_code ACC_STORE = 2"

section \<open>cpu.h\<close>

record TLBEntry =
  e_tag :: u64
  e_ppn :: u64
  e_flags :: u8
  e_valid :: bool
  e_global :: bool
  e_asid :: u8
  e_last_used :: u64

record TLB =
  entries :: "nat \<Rightarrow> TLBEntry"
  next_replace :: int

record CLINT =
  mtime :: u64
  mtimecmp :: u64
  stimecmp :: u64
  msip :: u32
  timer_interrupt_pending :: bool
  software_interrupt_pending :: bool

record mem_fault_t =
  f_valid :: u8
  f_acc_type :: u8
  f_cause :: u8
  f_vaddr :: u64

text \<open>
  The function pointers and the opaque pointer of a bus region always come as one of five
  triples (\<open>main.c\<close>): \<open>ram_read\<close>/\<open>ram_write\<close>, \<open>mmio_read\<close>/\<open>mmio_write\<close>,
  \<open>plic_read\<close>/\<open>plic_write\<close>, \<open>virtio_mmio_read\<close>/\<open>virtio_mmio_write\<close> and
  \<open>clint_read\<close>/\<open>clint_write\<close>.
\<close>

datatype device = Dev_RAM | Dev_UART | Dev_PLIC | Dev_VIRTIO | Dev_CLINT

record MMIORegion =
  r_base :: u64
  r_size :: u64
  r_dev :: device

text \<open>\<open>regions[0 .. region_count - 1]\<close>.\<close>

record Bus =
  regions :: "MMIORegion list"

record CPU_State =
  pc :: u64
  gpr :: "u8 \<Rightarrow> u64"
  fgpr :: "u8 \<Rightarrow> u64"
  csr :: "u32 \<Rightarrow> u64"
  irq_pending :: "int \<Rightarrow> int"
  privilege :: int
  halted :: bool
  running :: bool
  cycle_count :: u64
  inst_count :: u64
  mip :: u64
  mie :: u64
  satp :: u64
  asid :: u16
  mxr :: int
  sum :: int
  tlb :: TLB
  iTLB :: TLB
  dTLB :: TLB
  tlb_cnt :: u64
  cpu_bus :: Bus
  clint :: CLINT
  mem_fault :: mem_fault_t

section \<open>plic.h\<close>

record PLICState =
  priority :: "nat \<Rightarrow> u32"
  enable :: "nat \<Rightarrow> nat \<Rightarrow> u32"
  threshold :: "nat \<Rightarrow> u32"
  p_irq_pending :: "nat \<Rightarrow> bool"
  pending :: "nat \<Rightarrow> u32"
  claimed :: "nat \<Rightarrow> nat \<Rightarrow> u32"
  current_irq :: "nat \<Rightarrow> u32"

section \<open>uart.h\<close>

text \<open>
  The mutex \<open>lock\<close> is the flag \<open>u_locked\<close>. \<open>irq_cb\<close> and \<open>plic\<close> are pointers that the
  code only compares with \<open>NULL\<close> before it calls \<open>cpu_irq_raise_cb\<close> or \<open>plic_set_irq\<close>:
  the flags say whether they are set.
\<close>

record UARTDevice =
  u_rbr :: u8
  u_thr :: u8
  u_ier :: u8
  u_fcr :: u8
  u_iir :: u8
  u_lcr :: u8
  u_mcr :: u8
  u_lsr :: u8
  u_msr :: u8
  u_scr :: u8
  u_dll :: u8
  u_dlm :: u8
  u_fifo_enable :: u8
  u_dma_mode :: u8
  u_rx_trigger_level :: u8
  u_baud_rate :: u32
  u_ctrl :: u32
  u_irq_status :: u32
  u_tx_buf :: "u32 \<Rightarrow> u8"
  u_tx_head :: u32
  u_tx_tail :: u32
  u_tx_count :: u32
  u_rx_buf :: "u32 \<Rightarrow> u8"
  u_rx_head :: u32
  u_rx_tail :: u32
  u_rx_count :: u32
  u_locked :: bool
  u_irq_cb :: bool
  u_irq_num :: int
  u_irq_pending :: int
  u_plic :: bool
  u_bit_time_ps :: u64
  u_tx_in_progress :: bool
  u_tx_bit_pos :: int
  u_tx_next_bit_time :: u64

section \<open>virtio_blk.h\<close>

text \<open>\<open>d_disk_len\<close> is the number of bytes \<open>malloc\<close>ed for the image.\<close>

record virtio_blk_device =
  d_disk_size_sectors :: u64
  d_disk_data :: "u64 \<Rightarrow> u8"
  d_disk_len :: nat
  d_queue_num :: u16
  d_desc_addr :: u64
  d_avail_ring :: u64
  d_used_ring :: u64
  d_last_used_idx :: u16
  d_queue_ready :: u32
  d_status :: u32
  d_interrupt_status :: u32

record disk_operation =
  op_head :: u16
  op_start :: u64
  op_completion :: u64
  op_type :: u32
  op_sector :: u64

record BlockCache =
  bc_blockno :: u64
  bc_data :: "u64 \<Rightarrow> u8"
  bc_valid :: bool

section \<open>The machine\<close>

text \<open>
  Where the C standard leaves a value open, the model takes the host's answer as a parameter,
  fixed for the whole run: the value of \<open>1 << 44\<close> and \<open>1u << 63\<close> on 32-bit operands, and
  what \<open>bus_read\<close> yields when control reaches its end without a \<open>return\<close>.
\<close>

record host_answers =
  h_shl44 :: u32
  h_shl63u :: u32
  h_noret :: "u64 \<Rightarrow> nat \<Rightarrow> u64"

record machine =
  cpus :: "nat \<Rightarrow> CPU_State"
  memory :: "u64 \<Rightarrow> u8"
  gbus :: Bus
  g_plic :: PLICState
  g_uart :: UARTDevice
  dev :: virtio_blk_device
  pending_ops :: "disk_operation list"
  bc :: BlockCache
  prev_avail :: u16
  next_cpu :: int
  console :: "u8 list"
  host :: host_answers

text \<open>Every global object starts zeroed (static storage, \<open>calloc\<close>, \<open>memset\<close>).\<close>

definition zero_entry :: TLBEntry where
  "zero_entry = \<lparr>e_tag = 0, e_ppn = 0, e_flags = 0, e_valid = False, e_global = False,
     e_asid = 0, e_last_used = 0\<rparr>"

definition zero_tlb :: TLB where
  "zero_tlb = \<lparr>entries = (\<lambda>_. zero_entry), next_replace = 0\<rparr>"

definition zero_clint :: CLINT where
  "zero_clint = \<lparr>mtime = 0, mtimecmp = 0, stimecmp = 0, msip = 0,
     timer_interrupt_pending = False, software_interrupt_pending = False\<rparr>"

definition zero_cpu :: CPU_State where
  "zero_cpu = \<lparr>pc = 0, gpr = (\<lambda>_. 0), fgpr = (\<lambda>_. 0), csr = (\<lambda>_. 0), irq_pending = (\<lambda>_. 0),
     privilege = 0, halted = False, running = False, cycle_count = 0, inst_count = 0,
     mip = 0, mie = 0, satp = 0, asid = 0, mxr = 0, sum = 0, tlb = zero_tlb, iTLB = zero_tlb,
     dTLB = zero_tlb, tlb_cnt = 0, cpu_bus = \<lparr>regions = []\<rparr>, clint = zero_clint,
     mem_fault = \<lparr>f_valid = 0, f_acc_type = 0, f_cause = 0, f_vaddr = 0\<rparr>\<rparr>"

definition zero_plic :: PLICState where
  "zero_plic = \<lparr>priority = (\<lambda>_. 0), enable = (\<lambda>_ _. 0), threshold = (\<lambda>_. 0),
     p_irq_pending = (\<lambda>_. False), pending = (\<lambda>_. 0), claimed = (\<lambda>_ _. 0),
     current_irq = (\<lambda>_. 0)\<rparr>"

definition zero_uart :: UARTDevice where
  "zero_uart = \<lparr>u_rbr = 0, u_thr = 0, u_ier = 0, u_fcr = 0, u_iir = 0, u_lcr = 0, u_mcr = 0,
     u_lsr = 0, u_msr = 0, u_scr = 0, u_dll = 0, u_dlm = 0, u_fifo_enable = 0, u_dma_mode = 0,
     u_rx_trigger_level = 0, u_baud_rate = 0, u_ctrl = 0, u_irq_status = 0,
     u_tx_buf = (\<lambda>_. 0), u_tx_head = 0, u_tx_tail = 0, u_tx_count = 0,
     u_rx_buf = (\<lambda>_. 0), u_rx_head = 0, u_rx_tail = 0, u_rx_count = 0,
     u_locked = False, u_irq_cb = False, u_irq_num = 0, u_irq_pending = 0, u_plic = False,
     u_bit_time_ps = 0, u_tx_in_progress = False, u_tx_bit_pos = 0, u_tx_next_bit_time = 0\<rparr>"

definition zero_dev :: virtio_blk_device where
  "zero_dev = \<lparr>d_disk_size_sectors = 0, d_disk_data = (\<lambda>_. 0), d_disk_len = 0, d_queue_num = 0,
     d_desc_addr = 0, d_avail_ring = 0, d_used_ring = 0, d_last_used_idx = 0, d_queue_ready = 0,
     d_status = 0, d_interrupt_status = 0\<rparr>"

definition zero_machine :: "host_answers \<Rightarrow> machine" where
  "zero_machine h = \<lparr>cpus = (\<lambda>_. zero_cpu), memory = (\<lambda>_. 0), gbus = \<lparr>regions = []\<rparr>,
     g_plic = zero_plic, g_uart = zero_uart, dev = zero_dev, pending_ops = [],
     bc = \<lparr>bc_blockno = 0, bc_data = (\<lambda>_. 0), bc_valid = False\<rparr>, prev_avail = 0,
     next_cpu = 0, console = [], host = h\<rparr>"

text \<open>The zeroed machine on one particular host, for concrete runs.\<close>

definition blank :: machine where
  "blank = zero_machine \<lparr>h_shl44 = 0, h_shl63u = 0, h_noret = (\<lambda>_ _. 0)\<rparr>"

lemmas zero_defs = blank_def zero_machine_def zero_cpu_def zero_plic_def zero_uart_def zero_dev_def
  zero_clint_def zero_tlb_def zero_entry_def

definition upd_cpu :: "nat \<Rightarrow> (CPU_State \<Rightarrow> CPU_State) \<Rightarrow> machine \<Rightarrow> machine" where
  "upd_cpu h f m = m\<lparr>cpus := (cpus m)(h := f (cpus m h))\<rparr>"

lemma upd_cpu_simps [simp]:
  "cpus (upd_cpu h f m) = (cpus m)(h := f (cpus m h))"
  "memory (upd_cpu h f m) = memory m"
  "gbus (upd_cpu h f m) = gbus m"
  "g_plic (upd_cpu h f m) = g_plic m"
  "g_uart (upd_cpu h f m) = g_uart m"
  "dev (upd_cpu h f m) = dev m"
  "pending_ops (upd_cpu h f m) = pending_ops m"
  "bc (upd_cpu h f m) = bc m"
  "prev_avail (upd_cpu h f m) = prev_avail m"
  "next_cpu (upd_cpu h f m) = next_cpu m"
  "console (upd_cpu h f m) = console m"
  "host (upd_cpu h f m) = host m"
  by (simp_all add: upd_cpu_def)

lemma upd_cpu_id [simp]: "upd_cpu h (\<lambda>c. c) m = m"
  by (simp add: upd_cpu_def)

lemma upd_cpu_upd_cpu [simp]: "upd_cpu h f (upd_cpu h g m) = upd_cpu h (\<lambda>c. f (g c)) m"
  by (simp add: upd_cpu_def)

text \<open>
  The parts of a hart that no device touches: registers, program counter, privilege, address
  translation and counters. One equation \<open>core c' = core c\<close> frames them all.
\<close>

definition core :: "CPU_State \<Rightarrow> (u64 \<times> (u8 \<Rightarrow> u64) \<times> (u8 \<Rightarrow> u64) \<times> int) \<times> (bool \<times> u64 \<times> u64) \<times>
    (u64 \<times> u64 \<times> u64 \<times> u16 \<times> int \<times> int) \<times> (TLB \<times> TLB \<times> TLB \<times> u64) \<times> Bus \<times> mem_fault_t" where
  "core c = ((pc c, gpr c, fgpr c, privilege c), (running c, cycle_count c, inst_count c),
     (mip c, mie c, satp c, asid c, mxr c, sum c), (tlb c, iTLB c, dTLB c, tlb_cnt c), cpu_bus c, mem_fault c)"

lemma core_simps [simp]:
  "core (c\<lparr>csr := x\<rparr>) = core c" "core (c\<lparr>halted := b\<rparr>) = core c" "core (c\<lparr>irq_pending := q\<rparr>) = core c"
  "core (c\<lparr>clint := l\<rparr>) = core c"
  by (simp_all add: core_def)

lemma coreD:
  assumes "core c = core c'"
  shows "pc c = pc c'" "gpr c = gpr c'" "fgpr c = fgpr c'" "privilege c = privilege c'"
    "running c = running c'" "cycle_count c = cycle_count c'" "inst_count c = inst_count c'"
    "satp c = satp c'" "asid c = asid c'" "mxr c = mxr c'" "sum c = sum c'" "tlb c = tlb c'"
    "tlb_cnt c = tlb_cnt c'" "cpu_bus c = cpu_bus c'" "mem_fault c = mem_fault c'"
  using assms by (simp_all add: core_def)

text \<open>The parts of the machine that the consoles and the interrupt controllers do not touch.\<close>

definition rest :: "machine \<Rightarrow> (u64 \<Rightarrow> u8) \<times> Bus \<times> virtio_blk_device \<times> disk_operation list \<times> BlockCache \<times> u16 \<times> host_answers" where
  "rest m = (memory m, gbus m, dev m, pending_ops m, bc m, prev_avail m, host m)"

lemma restD:
  assumes "rest m = rest m'"
  shows "memory m = memory m'" "gbus m = gbus m'" "dev m = dev m'" "pending_ops m = pending_ops m'"
    "bc m = bc m'" "prev_avail m = prev_avail m'" "host m = host m'"
  using assms by (simp_all add: rest_def)

lemma rest_simps [simp]:
  "rest (upd_cpu h f m) = rest m" "rest (m\<lparr>g_plic := p\<rparr>) = rest m" "rest (m\<lparr>g_uart := u\<rparr>) = rest m"
  "rest (m\<lparr>console := cs\<rparr>) = rest m" "rest (m\<lparr>next_cpu := i\<rparr>) = rest m"
  by (simp_all add: rest_def)

section \<open>CSR access\<close>

definition read_csr :: "CPU_State \<Rightarrow> u32 \<Rightarrow> u64" where
  "read_csr c i = csr c (i AND 0xfff)"

definition write_csr :: "u32 \<Rightarrow> u64 \<Rightarrow> CPU_State \<Rightarrow> CPU_State" where
  "write_csr i v c = c\<lparr>csr := (csr c)(i AND 0xfff := v)\<rparr>"

text \<open>
  The register-file interface: a write is read back under the same number, and leaves the
  other numbers alone. Numbers are taken modulo 4096.
\<close>

locale reg_file =
  fixes rd :: "'c \<Rightarrow> u32 \<Rightarrow> u64"
    and wr :: "u32 \<Rightarrow> u64 \<Rightarrow> 'c \<Rightarrow> 'c"
  assumes rd_wr: "rd (wr i v c) j = (if i AND 0xfff = j AND 0xfff then v else rd c j)"
begin

lemma rd_wr_same: "rd (wr i v c) i = v"
  by (simp add: rd_wr)

lemma rd_wr_other: "i AND 0xfff \<noteq> j AND 0xfff \<Longrightarrow> rd (wr i v c) j = rd c j"
  by (simp add: rd_wr)

lemma rd_wr_wr: "rd (wr i v (wr i w c)) j = rd (wr i v c) j"
  by (simp add: rd_wr)

lemma rd_wr_swap:
  "i AND 0xfff \<noteq> k AND 0xfff \<Longrightarrow> rd (wr i v (wr k w c)) j = rd (wr k w (wr i v c)) j"
  by (auto simp: rd_wr)

end

interpretation csrs: reg_file read_csr write_csr
  by unfold_locales (simp add: read_csr_def write_csr_def)

lemma write_csr_simps [simp]:
  "pc (write_csr i v c) = pc c" "gpr (write_csr i v c) = gpr c"
  "privilege (write_csr i v c) = privilege c" "tlb (write_csr i v c) = tlb c"
  "halted (write_csr i v c) = halted c" "running (write_csr i v c) = running c"
  "cpu_bus (write_csr i v c) = cpu_bus c" "clint (write_csr i v c) = clint c"
  by (simp_all add: write_csr_def)

end
