(* ===== verification/Ram.thy ===== *)
theory Ram
  imports Machine
begin

text \<open>
  Guest memory (\<open>memory.c\<close>, the inline functions of \<open>memory.h\<close>): the address folding and
  bounds checks of \<open>memory_read\<close> and \<open>memory_write\<close>, the RAM device behind the bus, and
  loading a flat binary. The heap block \<open>memory\<close> has \<open>MEMORY_SIZE\<close> bytes; its bytes are
  indexed by offset.
\<close>

definition poke :: "u64 \<Rightarrow> u8 \<Rightarrow> machine \<Rightarrow> machine" where
  "poke a v m = m\<lparr>memory := (memory m)(a := v)\<rparr>"

lemma poke_simps [simp]:
  "memory (poke a v m) = (memory m)(a := v)"
  "cpus (poke a v m) = cpus m" "gbus (poke a v m) = gbus m" "g_plic (poke a v m) = g_plic m"
  "g_uart (poke a v m) = g_uart m" "dev (poke a v m) = dev m" "pending_ops (poke a v m) = pending_ops m"
  "bc (poke a v m) = bc m" "prev_avail (poke a v m) = prev_avail m"
  "next_cpu (poke a v m) = next_cpu m" "console (poke a v m) = console m" "host (poke a v m) = host m"
  by (simp_all add: poke_def)

interpretation host_mem: byte_store memory poke
  by unfold_locales simp

lemma le_store_poke_frame [frame]:
  "cpus (le_store poke a v n m) = cpus m" "gbus (le_store poke a v n m) = gbus m"
  "g_plic (le_store poke a v n m) = g_plic m" "g_uart (le_store poke a v n m) = g_uart m"
  "dev (le_store poke a v n m) = dev m" "pending_ops (le_store poke a v n m) = pending_ops m"
  "bc (le_store poke a v n m) = bc m" "prev_avail (le_store poke a v n m) = prev_avail m"
  "console (le_store poke a v n m) = console m" "host (le_store poke a v n m) = host m"
  by (induction n) simp_all

section \<open>memory.h\<close>

definition physical_address :: "u64 \<Rightarrow> u64" where
  "physical_address va = va - MEMORY_BASE"

definition is_valid_address :: "u64 \<Rightarrow> bool" where
  "is_valid_address a \<longleftrightarrow> MEMORY_BASE \<le> a \<and> a < MEMORY_BASE + MEMORY_SIZE"

section \<open>Accesses to the block\<close>

text \<open>An access of \<open>n\<close> bytes at \<open>a\<close> lies inside the memory block.\<close>

definition in_ram :: "u64 \<Rightarrow> nat \<Rightarrow> bool" where
  "in_ram a n \<longleftrightarrow> unat a + n \<le> unat MEMORY_SIZE"

text \<open>
  \<open>n\<close> bytes are read from or written to \<open>memory[off]\<close>: in C nothing stops an access that
  leaves the block, here it is a fault.
\<close>

definition block_load :: "u64 \<Rightarrow> nat \<Rightarrow> machine \<Rightarrow> (u64 \<times> machine) res" where
  "block_load off n m = (if in_ram off n then Inr (le_load (memory m) off n, m) else Inl (Overrun off n))"

definition block_store :: "u64 \<Rightarrow> u64 \<Rightarrow> nat \<Rightarrow> machine \<Rightarrow> machine res" where
  "block_store off v n m = (if in_ram off n then Inr (le_store poke off v n m) else Inl (Overrun off n))"

section \<open>memory.c\<close>

definition init_memory :: "machine \<Rightarrow> machine" where
  "init_memory m = m\<lparr>memory := (\<lambda>_. 0)\<rparr>"

definition memory_read_offset :: "u64 \<Rightarrow> u64" where
  "memory_read_offset address =
     (if MEMORY_BASE \<le> address then address - MEMORY_BASE
      else if 0x10001000 \<le> address then address - 0x10001000
      else if CLINT_BASE_ADDR \<le> address then address - CLINT_BASE_ADDR
      else if PLIC_BASE \<le> address then address - PLIC_BASE
      else 0)"

definition memory_read :: "u64 \<Rightarrow> nat \<Rightarrow> machine \<Rightarrow> u64 \<times> machine" where
  "memory_read address sz m =
     (let offset = memory_read_offset address in
      if MEMORY_SIZE < offset + of_nat sz
      then (0, upd_cpu 0 (\<lambda>c. c\<lparr>halted := True\<rparr>) m)
      else (le_load (memory m) offset sz, m))"

definition memory_write_offset :: "u64 \<Rightarrow> u64" where
  "memory_write_offset address =
     (if MEMORY_BASE \<le> address then address - MEMORY_BASE
      else if 0x10001000 \<le> address then address - 0x10001000
      else 0)"

definition memory_write :: "u64 \<Rightarrow> u64 \<Rightarrow> nat \<Rightarrow> machine \<Rightarrow> machine" where
  "memory_write address value sz m =
     (let phys_addr = memory_write_offset address in
      if MEMORY_SIZE < phys_addr + of_nat sz then m
      else le_store poke phys_addr value sz m)"

definition ram_read :: "u64 \<Rightarrow> nat \<Rightarrow> machine \<Rightarrow> u64" where
  "ram_read offset sz m =
     (if MEMORY_SIZE < offset + of_nat sz then 0
      else if MEMORY_SIZE \<le> offset then 0
      else le_load (memory m) offset sz)"

definition ram_write :: "u64 \<Rightarrow> u64 \<Rightarrow> nat \<Rightarrow> machine \<Rightarrow> machine res" where
  "ram_write offset value sz m =
     (if MEMORY_SIZE < offset + of_nat sz then Inr m
      else block_store offset value sz m)"

text \<open>
  \<open>fread(&memory[at], 1, n, file)\<close>: the bytes of the file go to consecutive offsets.
\<close>

fun put_bytes :: "u64 \<Rightarrow> u8 list \<Rightarrow> machine \<Rightarrow> machine" where
  "put_bytes at [] m = m"
| "put_bytes at (b # bs) m = put_bytes (at + 1) bs (poke at b m)"

text \<open>
  \<open>memory_load_binary\<close>: \<open>None\<close> stands for a file that cannot be opened. The sum
  \<open>phys_addr + file_size\<close> wraps, so a load address below \<open>MEMORY_BASE\<close> can pass the check
  and index \<open>memory\<close> before its start.
\<close>

definition memory_load_binary :: "u8 list option \<Rightarrow> u64 \<Rightarrow> machine \<Rightarrow> machine res" where
  "memory_load_binary file load_address m =
     (case file of None \<Rightarrow> Inr m
      | Some bs \<Rightarrow>
         (let phys_addr = physical_address load_address in
          if MEMORY_SIZE < phys_addr + of_nat (length bs) then Inr m
          else if MEMORY_SIZE < phys_addr \<and> bs \<noteq> [] then Inl OutOfBounds
          else Inr (put_bytes phys_addr bs m)))"

section \<open>Lemmas\<close>

lemma in_ram_guard:
  assumes "n \<le> 8" and "in_ram a n" and "0 < n"
  shows "\<not> MEMORY_SIZE < a + of_nat n" and "\<not> MEMORY_SIZE \<le> a"
proof -
  have "unat (a + of_nat n) = unat a + n"
    using assms by (simp add: in_ram_def unat_word_ariths unsigned_of_nat take_bit_eq_mod)
  then show "\<not> MEMORY_SIZE < a + of_nat n"
    using assms by (simp add: in_ram_def word_less_nat_alt not_less)
  show "\<not> MEMORY_SIZE \<le> a"
    using assms by (simp add: in_ram_def word_le_nat_alt not_le)
qed

lemma ram_read_in_ram:
  "0 < n \<Longrightarrow> n \<le> 8 \<Longrightarrow> in_ram a n \<Longrightarrow> ram_read a n m = le_load (memory m) a n"
  using in_ram_guard [of n a] by (simp add: ram_read_def)

lemma ram_write_in_ram:
  "0 < n \<Longrightarrow> n \<le> 8 \<Longrightarrow> in_ram a n \<Longrightarrow> ram_write a v n m = Inr (le_store poke a v n m)"
  using in_ram_guard [of n a] by (simp add: ram_write_def block_store_def)

lemma block_load_Inr: "block_load a n m = Inr (v, m') \<Longrightarrow> m' = m"
  by (simp add: block_load_def split: if_splits)

lemma block_store_frame:
  assumes "block_store a v n m = Inr m'"
  shows "cpus m' = cpus m" "g_uart m' = g_uart m" "g_plic m' = g_plic m" "dev m' = dev m"
  using assms by (auto simp: block_store_def frame split: if_splits)

lemma ram_write_frame:
  assumes "ram_write a v n m = Inr m'"
  shows "cpus m' = cpus m" "g_uart m' = g_uart m" "g_plic m' = g_plic m" "dev m' = dev m"
  using assms by (auto simp: ram_write_def block_store_frame split: if_splits)

text \<open>A check of the form \<open>a + n - 1 < last\<close> fails to stop an access only when the sum wraps around.\<close>

lemma wrapped_check:
  assumes "MEMORY_BASE \<le> a" "a + of_nat n - 1 < MEMORY_BASE + MEMORY_SIZE" "n \<le> 8" "\<not> in_ram (a - MEMORY_BASE) n"
  shows "2 ^ 64 < unat a + n"
proof (rule ccontr)
  assume "\<not> 2 ^ 64 < unat a + n"
  then have s: "unat a + n \<le> 2 ^ 64" by simp
  have b: "unat (a - MEMORY_BASE) = unat a - unat MEMORY_BASE" "unat MEMORY_BASE \<le> unat a"
    using assms(1) by (simp_all add: unat_sub word_le_nat_alt)
  with assms(4) have o: "unat MEMORY_BASE + unat MEMORY_SIZE < unat a + n" by (simp add: in_ram_def)
  show False
  proof (cases n)
    case 0
    have "unat (a - 1) = unat a - 1" using b(2) by (simp add: unat_sub word_le_nat_alt)
    with 0 o assms(2) show False by (simp add: word_less_nat_alt)
  next
    case (Suc k)
    then have e: "a + of_nat n - 1 = a + of_nat k" by simp
    have "unat (a + of_nat k) = unat a + k"
      using s Suc assms(3) by (simp add: unat_word_ariths unsigned_of_nat take_bit_eq_mod)
    with o Suc assms(2) show False unfolding e by (simp add: word_less_nat_alt)
  qed
qed

lemma memory_write_frame [frame]:
  "cpus (memory_write a v n m) = cpus m" "gbus (memory_write a v n m) = gbus m"
  "g_plic (memory_write a v n m) = g_plic m" "g_uart (memory_write a v n m) = g_uart m"
  "dev (memory_write a v n m) = dev m" "pending_ops (memory_write a v n m) = pending_ops m"
  "bc (memory_write a v n m) = bc m" "prev_avail (memory_write a v n m) = prev_avail m"
  "console (memory_write a v n m) = console m" "host (memory_write a v n m) = host m"
  by (simp_all add: memory_write_def Let_def frame)

lemma memory_read_frame [frame]:
  "memory (snd (memory_read a n m)) = memory m" "gbus (snd (memory_read a n m)) = gbus m"
  "g_plic (snd (memory_read a n m)) = g_plic m" "g_uart (snd (memory_read a n m)) = g_uart m"
  "dev (snd (memory_read a n m)) = dev m" "pending_ops (snd (memory_read a n m)) = pending_ops m"
  "bc (snd (memory_read a n m)) = bc m" "prev_avail (snd (memory_read a n m)) = prev_avail m"
  "console (snd (memory_read a n m)) = console m" "host (snd (memory_read a n m)) = host m"
  by (simp_all add: memory_read_def Let_def)

text \<open>Two ranges of offsets that do not overlap, inside the block.\<close>

lemma disjoint_offsets:
  assumes "in_ram a n" and "in_ram b k" and "unat a + n \<le> unat b \<or> unat b + k \<le> unat a"
    and "i < n" and "j < k"
  shows "(b + of_nat j :: u64) \<noteq> a + of_nat i"
proof -
  have "unat (a + of_nat i) = unat a + i" "unat (b + of_nat j) = unat b + j"
    using assms by (simp_all add: in_ram_def unat_word_ariths unsigned_of_nat take_bit_eq_mod)
  with assms(3-5) show ?thesis by auto
qed

lemma put_bytes_frame [frame]:
  "cpus (put_bytes a bs m) = cpus m" "gbus (put_bytes a bs m) = gbus m"
  "g_plic (put_bytes a bs m) = g_plic m" "g_uart (put_bytes a bs m) = g_uart m"
  "dev (put_bytes a bs m) = dev m" "host (put_bytes a bs m) = host m"
  by (induction a bs m rule: put_bytes.induct) simp_all

lemma memory_put_bytes:
  assumes "unat a + length bs < 2 ^ 64"
  shows "memory (put_bytes a bs m) b =
    (if a \<le> b \<and> unat b < unat a + length bs then bs ! (unat b - unat a) else memory m b)"
  using assms
proof (induction a bs m rule: put_bytes.induct)
  case (1 a m)
  then show ?case by (auto simp: word_le_nat_alt)
next
  case (2 a x bs m)
  have a1: "unat (a + 1) = Suc (unat a)"
    using "2.prems" by (simp add: unat_word_ariths)
  with 2 have IH: "memory (put_bytes (a + 1) bs (poke a x m)) b =
    (if a + 1 \<le> b \<and> unat b < unat (a + 1) + length bs then bs ! (unat b - unat (a + 1))
     else memory (poke a x m) b)"
    by simp
  show ?case
  proof (cases "b = a")
    case True
    with a1 IH show ?thesis by (simp add: word_le_nat_alt)
  next
    case False
    then have "unat b \<noteq> unat a" by (simp add: word_unat_eq_iff)
    with False a1 IH show ?thesis
      by (auto simp: word_le_nat_alt nth_Cons' le_less_Suc_eq)
  qed
qed

section \<open>Properties\<close>

text \<open>
  What the RAM device stores it gives back: a read of 1 to 8 bytes inside the block, at
  the offset just written with the same size, returns the value truncated to that size; and a
  read of any other, non-overlapping range is not affected by the write.
\<close>

theorem ram_read_write:
  assumes "0 < n" "n \<le> 8" "in_ram a n"
  shows "\<exists>m'. ram_write a v n m = Inr m' \<and> ram_read a n m' = take_bit (8 * n) v \<and>
    (\<forall>b k. 0 < k \<longrightarrow> k \<le> 8 \<longrightarrow> in_ram b k \<longrightarrow> unat a + n \<le> unat b \<or> unat b + k \<le> unat a \<longrightarrow>
       ram_read b k m' = ram_read b k m)"
proof -
  have "le_load (memory (le_store poke a v n m)) b k = le_load (memory m) b k"
    if "in_ram b k" "unat a + n \<le> unat b \<or> unat b + k \<le> unat a" for b k
    using that assms by (intro host_mem.load_after_disjoint_store disjoint_offsets [of a n b k])
  with assms show ?thesis
    by (simp add: ram_read_in_ram ram_write_in_ram host_mem.load_after_store)
qed

theorem ram_read_write_witness:
  "\<exists>m'. ram_write 16 0x1122334455 4 blank = Inr m' \<and> ram_read 16 4 m' = 0x22334455"
proof -
  have "\<exists>m'. ram_write 16 0x1122334455 4 blank = Inr m' \<and> ram_read 16 4 m' = take_bit (8 * 4) 0x1122334455"
    using ram_read_write [of 4 16 "0x1122334455" blank] by (auto simp: in_ram_def)
  then show ?thesis by (simp add: take_bit_eq_mask mask_eq_exp_minus_1)
qed

lemma offset_guard:
  assumes "\<not> MEMORY_SIZE < off + of_nat n" "n \<le> 8" "i < n" "off \<le> 0xFFFFFFFF80000000"
  shows "unat (off + of_nat i) < unat MEMORY_SIZE"
proof -
  have *: "unat off \<le> 0xFFFFFFFF80000000"
    using assms(4) by (simp add: word_le_nat_alt)
  then have "unat (off + of_nat n) = unat off + n"
    using assms(2) by (simp add: unat_word_ariths unsigned_of_nat take_bit_eq_mod)
  moreover from * have "unat (off + of_nat i) = unat off + i"
    using assms(2,3) by (simp add: unat_word_ariths unsigned_of_nat take_bit_eq_mod)
  ultimately show ?thesis
    using assms(1,3) by (simp add: word_less_nat_alt not_less)
qed

lemma offsets_small:
  "memory_read_offset a \<le> 0xFFFFFFFF80000000" "memory_write_offset a \<le> 0xFFFFFFFF80000000"
proof -
  have "unat a < 2 ^ 64" by (rule order_less_le_trans [OF unsigned_less]) simp
  then have *: "a - 0x80000000 \<le> 0xFFFFFFFF80000000" if "0x80000000 \<le> a"
    using that
    by (simp add: word_le_nat_alt unat_sub_if' linorder_not_le)
  have "a - b \<le> 0xFFFFFFFF80000000" if "\<not> 0x80000000 \<le> a" "b \<le> a" for b :: u64
    using that by (simp add: word_le_nat_alt unat_sub_if')
  with * show "memory_read_offset a \<le> 0xFFFFFFFF80000000" "memory_write_offset a \<le> 0xFFFFFFFF80000000"
    by (simp_all add: memory_read_offset_def memory_write_offset_def)
qed

text \<open>
  C37. \<open>memory_read\<close> and \<open>memory_write\<close> stay inside the memory block for every address and
  every size up to 8, whatever the address folding yields: the read depends only on bytes at
  offsets below \<open>MEMORY_SIZE\<close>, and the write changes only such bytes.
\<close>

theorem memory_access_in_bounds:
  assumes "n \<le> 8"
  shows "(\<forall>m m'. (\<forall>i. unat i < unat MEMORY_SIZE \<longrightarrow> memory m i = memory m' i) \<longrightarrow>
            fst (memory_read a n m) = fst (memory_read a n m')) \<and>
         (\<forall>m i. unat MEMORY_SIZE \<le> unat i \<longrightarrow> memory (memory_write a v n m) i = memory m i)"
proof (intro conjI allI impI)
  fix m m' :: machine
  assume "\<forall>i. unat i < unat MEMORY_SIZE \<longrightarrow> memory m i = memory m' i"
  then show "fst (memory_read a n m) = fst (memory_read a n m')"
    using offset_guard [OF _ assms _ offsets_small(1)]
    by (auto simp: memory_read_def Let_def intro!: le_load_cong)
next
  fix m i
  assume "unat MEMORY_SIZE \<le> unat (i :: u64)"
  then show "memory (memory_write a v n m) i = memory m i"
    using offset_guard [OF _ assms _ offsets_small(2)]
    by (auto simp: memory_write_def Let_def intro!: host_mem.get_le_store_outside)
       (metis leD)
qed

theorem memory_access_in_bounds_witness:
  "memory (memory_write 0xBFFFFFFF 7 8 blank) 0x40000000 = memory blank 0x40000000"
  using memory_access_in_bounds [of 8 "0xBFFFFFFF" 7] by simp

end
