(* ===== verification/Clint.thy ===== *)
theory Clint
  imports Machine
begin

text \<open>
  The core-local interruptor (\<open>clint.c\<close>). Every hart carries a \<open>CLINT\<close>; the operations
  that raise interrupts always write the CSRs of \<open>cpu[0]\<close>, so they take the hart that owns
  the \<open>CLINT\<close> and the whole machine. The \<open>NULL\<close> tests of the code never fire: the callers
  pass the address of a field. Sizes are the \<open>size\<close> argument as a number of bytes.
\<close>

abbreviation (input) MSIP_OFFSET :: u64 where "MSIP_OFFSET \<equiv> 0x0"
abbreviation (input) MTIMECMP_OFFSET :: u64 where "MTIMECMP_OFFSET \<equiv> 0x4000"
abbreviation (input) MTIME_OFFSET :: u64 where "MTIME_OFFSET \<equiv> 0xBFF8"

definition clint_init :: "CLINT \<Rightarrow> CLINT" where
  "clint_init c = zero_clint\<lparr>mtime := 0, mtimecmp := 0, msip := 0,
     timer_interrupt_pending := False, software_interrupt_pending := False\<rparr>"

definition clint_reset :: "CLINT \<Rightarrow> CLINT" where
  "clint_reset c = c\<lparr>mtime := 0, mtimecmp := 0, msip := 0,
     timer_interrupt_pending := False, software_interrupt_pending := False\<rparr>"

definition clint_read :: "CLINT \<Rightarrow> u64 \<Rightarrow> nat \<Rightarrow> u64" where
  "clint_read c addr sz =
     (let offset = addr - CLINT_BASE_ADDR in
      if offset = MSIP_OFFSET then (if sz = 4 then ucast (msip c AND 1) else 0)
      else if offset = MTIMECMP_OFFSET then
        (if sz = 8 then mtimecmp c else if sz = 4 then mtimecmp c AND 0xFFFFFFFF else 0)
      else if offset = MTIME_OFFSET then
        (if sz = 8 then mtime c else if sz = 4 then mtime c AND 0xFFFFFFFF else 0)
      else if offset = MTIMECMP_OFFSET + 4 \<and> sz = 4 then drop_bit 32 (mtimecmp c) AND 0xFFFFFFFF
      else if offset = MTIME_OFFSET + 4 \<and> sz = 4 then drop_bit 32 (mtime c) AND 0xFFFFFFFF
      else 0)"

definition upd_clint :: "nat \<Rightarrow> (CLINT \<Rightarrow> CLINT) \<Rightarrow> machine \<Rightarrow> machine" where
  "upd_clint h f = upd_cpu h (\<lambda>c. c\<lparr>clint := f (clint c)\<rparr>)"

text \<open>
  The timer comparison: with \<open>menvcfg.STCE\<close> the compare value follows the \<open>stimecmp\<close> CSR;
  with \<open>mcounteren.TM\<close> the comparison drives \<open>MIP.STIP\<close>, and \<open>sip\<close> becomes a copy of
  \<open>mip\<close>. The complement of \<open>MIP_STIP\<close> is an \<open>unsigned int\<close>.
\<close>

definition timer_line :: "bool \<Rightarrow> u64 \<Rightarrow> u64" where
  "timer_line due v = (if due then v OR ucast MIP_STIP else v AND ucast (NOT MIP_STIP))"

definition clint_update_interrupts :: "nat \<Rightarrow> machine \<Rightarrow> machine" where
  "clint_update_interrupts h m =
     (let m = (if csr (cpus m 0) CSR_MENVCFG AND push_bit 63 1 \<noteq> 0
               then upd_clint h (\<lambda>c. c\<lparr>stimecmp := csr (cpus m 0) CSR_STIMECMP\<rparr>) m else m) in
      if csr (cpus m 0) CSR_MCOUNTERN AND push_bit 1 1 \<noteq> 0 then
        (let new_stimer_interrupt = stimecmp (clint (cpus m h)) \<le> mtime (clint (cpus m h));
             m = upd_cpu 0 (\<lambda>c. c\<lparr>csr := (csr c)(CSR_MIP :=
                   timer_line new_stimer_interrupt (csr c CSR_MIP))\<rparr>) m
         in upd_cpu 0 (\<lambda>c. c\<lparr>csr := (csr c)(CSR_SIP := csr c CSR_MIP)\<rparr>) m)
      else m)"

definition clint_write :: "nat \<Rightarrow> u64 \<Rightarrow> u64 \<Rightarrow> nat \<Rightarrow> machine \<Rightarrow> machine" where
  "clint_write h addr value sz m =
     (let offset = addr - CLINT_BASE_ADDR in
      if offset = MSIP_OFFSET then
        (if sz = 4
         then clint_update_interrupts h (upd_clint h (\<lambda>c. c\<lparr>msip := ucast (value AND 1)\<rparr>) m)
         else m)
      else if offset = MTIMECMP_OFFSET then
        clint_update_interrupts h (upd_clint h (\<lambda>c.
          if sz = 8 then c\<lparr>mtimecmp := value\<rparr>
          else if sz = 4 then c\<lparr>mtimecmp := (mtimecmp c AND 0xFFFFFFFF00000000) OR (value AND 0xFFFFFFFF)\<rparr>
          else c) m)
      else if offset = MTIME_OFFSET then
        clint_update_interrupts h (upd_clint h (\<lambda>c.
          if sz = 8 then c\<lparr>mtime := value\<rparr>
          else if sz = 4 then c\<lparr>mtime := (mtime c AND 0xFFFFFFFF00000000) OR (value AND 0xFFFFFFFF)\<rparr>
          else c) m)
      else if offset = MTIMECMP_OFFSET + 4 \<and> sz = 4 then
        clint_update_interrupts h (upd_clint h (\<lambda>c.
          c\<lparr>mtimecmp := (mtimecmp c AND 0xFFFFFFFF) OR push_bit 32 (value AND 0xFFFFFFFF)\<rparr>) m)
      else if offset = MTIME_OFFSET + 4 \<and> sz = 4 then
        clint_update_interrupts h (upd_clint h (\<lambda>c.
          c\<lparr>mtime := (mtime c AND 0xFFFFFFFF) OR push_bit 32 (value AND 0xFFFFFFFF)\<rparr>) m)
      else m)"

definition clint_tick :: "nat \<Rightarrow> u64 \<Rightarrow> machine \<Rightarrow> machine" where
  "clint_tick h cycles m =
     (if cycles = 0 then m
      else clint_update_interrupts h (upd_clint h (\<lambda>c. c\<lparr>mtime := mtime c + cycles\<rparr>) m))"

definition clint_get_timer_interrupt :: "CLINT \<Rightarrow> bool" where
  "clint_get_timer_interrupt c = timer_interrupt_pending c"

definition clint_get_software_interrupt :: "CLINT \<Rightarrow> bool" where
  "clint_get_software_interrupt c = software_interrupt_pending c"

section \<open>Lemmas\<close>

lemma upd_clint_simps:
  "cpus (upd_clint h f m) = (cpus m)(h := (cpus m h)\<lparr>clint := f (clint (cpus m h))\<rparr>)"
  by (simp add: upd_clint_def)

lemma upd_clint_cpu [simp]:
  "clint (cpus (upd_clint h f m) k) = (if k = h then f (clint (cpus m h)) else clint (cpus m k))"
  "core (cpus (upd_clint h f m) k) = core (cpus m k)"
  "halted (cpus (upd_clint h f m) k) = halted (cpus m k)"
  by (simp_all add: upd_clint_simps)

lemma csr_upd_clint [simp]: "csr (cpus (upd_clint h f m) k) = csr (cpus m k)"
  by (simp add: upd_clint_simps)

lemma upd_clint_frame [frame]:
  "rest (upd_clint h f m) = rest m" "g_plic (upd_clint h f m) = g_plic m"
  "g_uart (upd_clint h f m) = g_uart m" "next_cpu (upd_clint h f m) = next_cpu m"
  "console (upd_clint h f m) = console m"
  by (simp_all add: upd_clint_def)

lemma clint_update_frame [frame]:
  "rest (clint_update_interrupts h m) = rest m" "g_plic (clint_update_interrupts h m) = g_plic m"
  "g_uart (clint_update_interrupts h m) = g_uart m" "next_cpu (clint_update_interrupts h m) = next_cpu m"
  "console (clint_update_interrupts h m) = console m"
  by (simp_all add: clint_update_interrupts_def Let_def frame)

lemma clint_write_frame [frame]:
  "rest (clint_write h a v n m) = rest m" "g_plic (clint_write h a v n m) = g_plic m"
  "g_uart (clint_write h a v n m) = g_uart m" "next_cpu (clint_write h a v n m) = next_cpu m"
  "console (clint_write h a v n m) = console m"
  by (simp_all add: clint_write_def Let_def frame)

lemma clint_tick_frame [frame]:
  "rest (clint_tick h n m) = rest m" "g_plic (clint_tick h n m) = g_plic m"
  "g_uart (clint_tick h n m) = g_uart m" "next_cpu (clint_tick h n m) = next_cpu m"
  "console (clint_tick h n m) = console m"
  by (simp_all add: clint_tick_def frame)

text \<open>
  An update of the lines changes \<open>stimecmp\<close>, \<open>mip\<close> and \<open>sip\<close> only: registers, program
  counter and privilege of every hart stay.
\<close>

lemma clint_update_cpu_frame [frame]:
  "core (cpus (clint_update_interrupts h m) k) = core (cpus m k)"
  "halted (cpus (clint_update_interrupts h m) k) = halted (cpus m k)"
  by (simp_all add: clint_update_interrupts_def Let_def)

lemma clint_tick_cpu_frame [frame]:
  "core (cpus (clint_tick h n m) k) = core (cpus m k)"
  "halted (cpus (clint_tick h n m) k) = halted (cpus m k)"
  by (simp_all add: clint_tick_def frame)

lemma clint_write_cpu_frame [frame]:
  "core (cpus (clint_write h a v n m) k) = core (cpus m k)"
  "halted (cpus (clint_write h a v n m) k) = halted (cpus m k)"
  by (simp_all add: clint_write_def Let_def frame)

lemma bit_timer_line:
  "bit (timer_line due v) n \<longleftrightarrow> (if n = 5 then due else bit v n \<and> (due \<or> n < 32))"
  using bit_set_u32 [of 5 v n] bit_clear_u32 [of 5 v n] by (auto simp: timer_line_def)

text \<open>The update keeps the registers that are read and written by the guest.\<close>

lemma clint_update_regs [simp]:
  "mtime (clint (cpus (clint_update_interrupts h m) k)) = mtime (clint (cpus m k))"
  "mtimecmp (clint (cpus (clint_update_interrupts h m) k)) = mtimecmp (clint (cpus m k))"
  "msip (clint (cpus (clint_update_interrupts h m) k)) = msip (clint (cpus m k))"
  by (simp_all add: clint_update_interrupts_def Let_def)

lemma clint_update_lines:
  assumes "bit (csr (cpus m 0) CSR_MCOUNTERN) 1"
  shows "csr (cpus (clint_update_interrupts h m) 0) CSR_MIP =
      timer_line (stimecmp (clint (cpus (clint_update_interrupts h m) h)) \<le> mtime (clint (cpus m h)))
        (csr (cpus m 0) CSR_MIP)"
    and "csr (cpus (clint_update_interrupts h m) 0) CSR_SIP =
      csr (cpus (clint_update_interrupts h m) 0) CSR_MIP"
  using assms
  by (auto simp: clint_update_interrupts_def Let_def masks)

lemma split_halves:
  fixes v w :: u64
  shows "((w AND 0xFFFFFFFF00000000) OR (v AND 0xFFFFFFFF)) AND 0xFFFFFFFF
           OR push_bit 32 (drop_bit 32 v AND 0xFFFFFFFF) = v"
proof -
  have eqs: "(0xFFFFFFFF :: u64) = mask 32" "(0xFFFFFFFF00000000 :: u64) = push_bit 32 (mask 32)"
    by (simp_all add: mask_eq_exp_minus_1 push_bit_eq_mult)
  show ?thesis
    unfolding eqs by (rule bit_word_eqI) (auto simp: bit_simps)
qed

section \<open>Properties\<close>

text \<open>
  C36. A clock tick on a hart advances \<open>mtime\<close> of that hart; with \<open>mcounteren.TM\<close> set it
  leaves \<open>MIP.STIP\<close> of \<open>cpu[0]\<close> set exactly when the new time has reached the compare
  value (the \<open>stimecmp\<close> CSR when \<open>menvcfg.STCE\<close> is set), keeps the other low 32 bits of
  \<open>mip\<close>, and makes \<open>sip\<close> a copy of it.
\<close>

theorem clint_tick_timer:
  assumes "0 < n" and "bit (csr (cpus m 0) CSR_MCOUNTERN) 1"
    and "bit (csr (cpus m 0) CSR_MENVCFG) 63"
  shows "mtime (clint (cpus (clint_tick h n m) h)) = mtime (clint (cpus m h)) + n \<and>
    (bit (csr (cpus (clint_tick h n m) 0) CSR_MIP) 5 \<longleftrightarrow>
       csr (cpus m 0) CSR_STIMECMP \<le> mtime (clint (cpus m h)) + n) \<and>
    (\<forall>k < 32. k \<noteq> 5 \<longrightarrow> bit (csr (cpus (clint_tick h n m) 0) CSR_MIP) k =
       bit (csr (cpus m 0) CSR_MIP) k) \<and>
    csr (cpus (clint_tick h n m) 0) CSR_SIP = csr (cpus (clint_tick h n m) 0) CSR_MIP"
proof -
  let ?m = "upd_clint h (\<lambda>c. c\<lparr>mtime := mtime c + n\<rparr>) m"
  from assms(3) have "csr (cpus ?m 0) CSR_MENVCFG AND push_bit 63 1 \<noteq> 0"
    using tst_bit [of "csr (cpus m 0) CSR_MENVCFG" 63] by (simp add: push_bit_eq_mult)
  then have "stimecmp (clint (cpus (clint_update_interrupts h ?m) h)) = csr (cpus m 0) CSR_STIMECMP"
    by (simp add: clint_update_interrupts_def Let_def)
  moreover have "bit (csr (cpus ?m 0) CSR_MCOUNTERN) 1"
    using assms(2) by simp
  moreover from assms(1) have "n \<noteq> 0" by auto
  ultimately show ?thesis
    using clint_update_lines [of ?m h] by (simp add: clint_tick_def bit_timer_line)
qed

definition sstc_machine :: machine where
  "sstc_machine = upd_cpu 0 (\<lambda>c. c\<lparr>csr := (csr c)(CSR_MCOUNTERN := 2,
     CSR_MENVCFG := 0x8000000000000000, CSR_STIMECMP := 4)\<rparr>) blank"

theorem clint_tick_timer_witness:
  "bit (csr (cpus (clint_tick 0 5 sstc_machine) 0) CSR_MIP) 5"
proof -
  have "bit (0x8000000000000000 :: u64) 63" "bit (2 :: u64) 1"
    using bit_exp_iff [of 63 63, where 'a = "64 word"] bit_exp_iff [of 1 1, where 'a = "64 word"]
    by simp_all
  then show ?thesis
    using clint_tick_timer [of 5 sstc_machine 0]
    by (simp add: sstc_machine_def zero_defs)
qed

text \<open>
  The memory-mapped timer registers read back what was written: a 64-bit write to
  \<open>mtime\<close> or \<open>mtimecmp\<close> is returned by a 64-bit read, two 32-bit writes (low half, then
  high half) store the same value as one 64-bit write, and of \<open>msip\<close> exactly bit 0 is kept.
\<close>

theorem clint_registers_roundtrip:
  "reg \<in> {MTIME_OFFSET, MTIMECMP_OFFSET} \<Longrightarrow>
     clint_read (clint (cpus (clint_write h (CLINT_BASE_ADDR + reg) v 8 m) h)) (CLINT_BASE_ADDR + reg) 8 = v \<and>
     clint_read (clint (cpus (clint_write h (CLINT_BASE_ADDR + reg + 4) (drop_bit 32 v) 4
       (clint_write h (CLINT_BASE_ADDR + reg) v 4 m)) h)) (CLINT_BASE_ADDR + reg) 8 = v \<and>
     clint_read (clint (cpus (clint_write h (CLINT_BASE_ADDR + MSIP_OFFSET) v 4 m) h))
       (CLINT_BASE_ADDR + MSIP_OFFSET) 4 = v AND 1"
proof -
  assume "reg \<in> {MTIME_OFFSET, MTIMECMP_OFFSET}"
  moreover have "ucast (ucast (v AND 1) AND 1 :: u32) = v AND 1"
    by (rule bit_word_eqI) (auto simp: bit_simps)
  ultimately show ?thesis
    using split_halves by (auto simp: clint_read_def clint_write_def Let_def)
qed

theorem clint_registers_roundtrip_witness:
  "clint_read (clint (cpus (clint_write 0 (CLINT_BASE_ADDR + MTIMECMP_OFFSET) 77 8 blank) 0))
     (CLINT_BASE_ADDR + MTIMECMP_OFFSET) 8 = 77"
  using clint_registers_roundtrip [of MTIMECMP_OFFSET 0 77 blank] by blast

end
