(* ===== verification/Plic.thy ===== *)
theory Plic
  imports Machine
begin

text \<open>
  The interrupt controller (\<open>plic.c\<close>) and the wake-up functions of \<open>cpu.c\<close> it calls.
  Interrupt numbers and CPU numbers are C \<open>int\<close>s with the code's range tests; the bitmaps are
  arrays of 32-bit words. \<open>plic.h\<close> declares the controller \<open>static\<close>, and only the copy of
  \<open>plic.c\<close> is ever used (the \<open>opaque\<close> argument of the bus is ignored): it is the field
  \<open>g_plic\<close> of the machine.
\<close>

section \<open>cpu.c: waking a halted CPU\<close>

definition cpu_has_interrupts_pending :: "CPU_State \<Rightarrow> bool" where
  "cpu_has_interrupts_pending c \<longleftrightarrow> csr c CSR_MIP AND ucast MIP_MEIP \<noteq> 0"

definition cpu_wakeup :: "CPU_State \<Rightarrow> CPU_State" where
  "cpu_wakeup c = c\<lparr>halted := False\<rparr>"

definition cpu_try_wakeup :: "CPU_State \<Rightarrow> CPU_State" where
  "cpu_try_wakeup c =
     (if halted c \<and> cpu_has_interrupts_pending c then c\<lparr>halted := False\<rparr> else c)"

section \<open>Bitmaps\<close>

text \<open>
  The idiom \<open>word[irq >> 5] & (1 << (irq & 0x1F))\<close> (also written with \<open>/ 32\<close> and \<open>% 32\<close>)
  and the matching set and clear.
\<close>

definition irq_bit :: "(nat \<Rightarrow> u32) \<Rightarrow> int \<Rightarrow> bool" where
  "irq_bit w irq \<longleftrightarrow> w (nat (irq div 32)) AND push_bit (nat (irq mod 32)) 1 \<noteq> 0"

definition set_irq_bit :: "int \<Rightarrow> (nat \<Rightarrow> u32) \<Rightarrow> nat \<Rightarrow> u32" where
  "set_irq_bit irq w =
     w(nat (irq div 32) := w (nat (irq div 32)) OR push_bit (nat (irq mod 32)) 1)"

definition clear_irq_bit :: "int \<Rightarrow> (nat \<Rightarrow> u32) \<Rightarrow> nat \<Rightarrow> u32" where
  "clear_irq_bit irq w =
     w(nat (irq div 32) := w (nat (irq div 32)) AND NOT (push_bit (nat (irq mod 32)) 1))"

section \<open>plic.c\<close>

definition plic_is_valid_irq :: "int \<Rightarrow> bool" where
  "plic_is_valid_irq irq \<longleftrightarrow> 1 \<le> irq \<and> irq < MAX_IRQS"

definition plic_is_valid_cpu :: "int \<Rightarrow> bool" where
  "plic_is_valid_cpu cpu_id \<longleftrightarrow> 0 \<le> cpu_id \<and> cpu_id < int MAX_CORES"

definition plic_is_enabled :: "PLICState \<Rightarrow> int \<Rightarrow> int \<Rightarrow> bool" where
  "plic_is_enabled p irq cpu_id =
     (if irq < 1 \<or> MAX_IRQS \<le> irq then False
      else if cpu_id < 0 \<or> int MAX_CORES \<le> cpu_id then False
      else drop_bit (nat (irq mod 32)) (enable p (nat cpu_id) (nat (irq div 32))) AND 1 = 1)"

text \<open>One iteration of the scan in \<open>plic_update\<close>; the accumulator is \<open>(max_priority, max_irq)\<close>.\<close>

definition plic_update_scan :: "PLICState \<Rightarrow> int \<Rightarrow> nat \<Rightarrow> u32 \<times> u32 \<Rightarrow> u32 \<times> u32" where
  "plic_update_scan p cpu_id irq mw =
     (if \<not> plic_is_enabled p (int irq) cpu_id then mw
      else if \<not> irq_bit (pending p) (int irq) then mw
      else if irq_bit (claimed p (nat cpu_id)) (int irq) then mw
      else if fst mw < priority p irq then (priority p irq, of_nat irq)
      else mw)"

definition plic_update :: "int \<Rightarrow> machine \<Rightarrow> machine" where
  "plic_update cpu_id m =
     (if cpu_id < 0 \<or> int MAX_CORES \<le> cpu_id then m
      else
        (let p = g_plic m; h = nat cpu_id;
             max_irq = snd (fold (plic_update_scan p cpu_id) [1..<nat MAX_IRQS] (threshold p h, 0));
             p = p\<lparr>current_irq := (current_irq p)(h := max_irq),
                   p_irq_pending := (p_irq_pending p)(h := 0 < max_irq)\<rparr>
         in if 0 < max_irq
            then upd_cpu h (\<lambda>c. cpu_try_wakeup
                   (c\<lparr>csr := (csr c)(CSR_MIP := csr c CSR_MIP OR ucast MIP_MEIP)\<rparr>)) (m\<lparr>g_plic := p\<rparr>)
            else upd_cpu h (\<lambda>c. c\<lparr>csr := (csr c)(CSR_MIP := csr c CSR_MIP AND ucast (NOT MIP_MEIP))\<rparr>)
                   (m\<lparr>g_plic := p\<rparr>)))"

definition plic_set_enable :: "int \<Rightarrow> int \<Rightarrow> bool \<Rightarrow> machine \<Rightarrow> machine" where
  "plic_set_enable cpu_id irq enabled m =
     (if \<not> plic_is_valid_irq irq \<or> \<not> plic_is_valid_cpu cpu_id then m
      else
        (let p = g_plic m; h = nat cpu_id;
             w = (if enabled then set_irq_bit irq (enable p h) else clear_irq_bit irq (enable p h))
         in plic_update cpu_id (m\<lparr>g_plic := p\<lparr>enable := (enable p)(h := w)\<rparr>\<rparr>)))"

definition plic_set_enable_range :: "int \<Rightarrow> int \<Rightarrow> int \<Rightarrow> bool \<Rightarrow> machine \<Rightarrow> machine" where
  "plic_set_enable_range cpu_id start_irq end_irq enabled m =
     fold (\<lambda>irq. plic_set_enable cpu_id irq enabled) [start_irq..end_irq] m"

definition plic_get_enable :: "PLICState \<Rightarrow> int \<Rightarrow> int \<Rightarrow> u32" where
  "plic_get_enable p cpu_id word_index =
     (if cpu_id < 0 \<or> int MAX_CORES \<le> cpu_id then 0
      else if word_index < 0 \<or> MAX_IRQS div 32 \<le> word_index then 0
      else enable p (nat cpu_id) (nat word_index))"

definition plic_set_enable_word :: "int \<Rightarrow> int \<Rightarrow> u32 \<Rightarrow> machine \<Rightarrow> machine" where
  "plic_set_enable_word cpu_id word_index value m =
     (if cpu_id < 0 \<or> int MAX_CORES \<le> cpu_id then m
      else if word_index < 0 \<or> MAX_IRQS div 32 \<le> word_index then m
      else plic_update cpu_id (m\<lparr>g_plic := (g_plic m)\<lparr>enable := (enable (g_plic m))(nat cpu_id :=
             (enable (g_plic m) (nat cpu_id))(nat word_index := value))\<rparr>\<rparr>))"

definition plic_set_irq :: "int \<Rightarrow> int \<Rightarrow> machine \<Rightarrow> machine" where
  "plic_set_irq irq level m =
     (if irq < 1 \<or> MAX_IRQS \<le> irq then m
      else
        (let p = g_plic m;
             w = (if level \<noteq> 0 then set_irq_bit irq (pending p) else clear_irq_bit irq (pending p));
             m = m\<lparr>g_plic := p\<lparr>pending := w\<rparr>\<rparr>
         in fold (\<lambda>cpu_id m. if plic_is_enabled (g_plic m) irq cpu_id then plic_update cpu_id m else m)
              [0..0] m))"

definition plic_claim_scan :: "PLICState \<Rightarrow> int \<Rightarrow> nat \<Rightarrow> u32 \<times> u32 \<Rightarrow> u32 \<times> u32" where
  "plic_claim_scan p cpu_id irq mw =
     (if \<not> irq_bit (pending p) (int irq) then mw
      else if irq_bit (claimed p (nat cpu_id)) (int irq) then mw
      else if \<not> plic_is_enabled p (int irq) cpu_id then mw
      else if priority p irq \<le> fst mw then mw
      else (priority p irq, of_nat irq))"

definition plic_claim :: "int \<Rightarrow> machine \<Rightarrow> u32 \<times> machine" where
  "plic_claim cpu_id m =
     (if cpu_id < 0 \<or> int MAX_CORES \<le> cpu_id then (0, m)
      else
        (let p = g_plic m; h = nat cpu_id;
             winning_irq = snd (fold (plic_claim_scan p cpu_id) [1..<nat MAX_IRQS] (threshold p h, 0))
         in if winning_irq \<noteq> 0
            then (winning_irq, plic_update cpu_id (m\<lparr>g_plic :=
                    p\<lparr>claimed := (claimed p)(h := set_irq_bit (uint winning_irq) (claimed p h)),
                      pending := clear_irq_bit (uint winning_irq) (pending p)\<rparr>\<rparr>))
            else (winning_irq, m)))"

definition plic_complete :: "int \<Rightarrow> u32 \<Rightarrow> machine \<Rightarrow> machine" where
  "plic_complete cpu_id irq m =
     (if cpu_id < 0 \<or> int MAX_CORES \<le> cpu_id then m
      else if irq < 1 \<or> 1023 \<le> irq then m
      else
        (let p = g_plic m; h = nat cpu_id;
             m = m\<lparr>g_plic := p\<lparr>claimed := (claimed p)(h := clear_irq_bit (uint irq) (claimed p h)),
                             pending := clear_irq_bit (uint irq) (pending p)\<rparr>\<rparr>;
             m = upd_cpu h (\<lambda>c. c\<lparr>csr := (csr c)(CSR_MIP := csr c CSR_MIP AND ucast (NOT MIP_MEIP))\<rparr>) m
         in plic_update cpu_id m))"

text \<open>The register map. The offset is relative to the base; \<open>size\<close> is ignored by the code.\<close>

definition plic_read :: "u64 \<Rightarrow> machine \<Rightarrow> u64 \<times> machine" where
  "plic_read offset m =
     (if offset \<le> 0xFFF then
        (let irq_index = unat (drop_bit 2 offset) in
         if int irq_index < MAX_IRQS then (ucast (priority (g_plic m) irq_index), m) else (0, m))
      else if 0x1000 \<le> offset \<and> offset \<le> 0x107F then
        (ucast (pending (g_plic m) (unat (drop_bit 2 (offset - 0x1000)))), m)
      else if 0x2000 \<le> offset \<and> offset \<le> 0x2FFF then
        (let target_cpu = unat ((offset - 0x2000) div 0x80);
             word_index = unat (drop_bit 2 ((offset - 0x2000) mod 0x80))
         in if target_cpu < MAX_CORES \<and> int word_index < MAX_IRQS div 32
            then (ucast (enable (g_plic m) target_cpu word_index), m) else (0, m))
      else if 0x200000 \<le> offset \<and> offset \<le> 0x20FFFF then
        (let target_cpu = 0; reg_offset = (offset - 0x200000) mod 0x1000 in
         if reg_offset = 0 then (ucast (threshold (g_plic m) target_cpu), m)
         else if reg_offset = 4 then (let (irq, m) = plic_claim (int target_cpu) m in (ucast irq, m))
         else (0, m))
      else (0, m))"

definition plic_write :: "u64 \<Rightarrow> u64 \<Rightarrow> machine \<Rightarrow> machine" where
  "plic_write offset value m =
     (if offset \<le> 0xFFF then
        (let irq_index = unat (drop_bit 2 offset) in
         if int irq_index < MAX_IRQS
         then m\<lparr>g_plic := (g_plic m)\<lparr>priority := (priority (g_plic m))(irq_index := ucast (value AND 7))\<rparr>\<rparr>
         else m)
      else if 0x2000 \<le> offset \<and> offset \<le> 0x2FFF then
        (let target_cpu = unat ((offset - 0x2000) div 0x80);
             word_index = unat (drop_bit 2 ((offset - 0x2000) mod 0x80))
         in if target_cpu < MAX_CORES \<and> int word_index < MAX_IRQS div 32
            then plic_update (int target_cpu) (m\<lparr>g_plic := (g_plic m)\<lparr>enable := (enable (g_plic m))(target_cpu :=
                   (enable (g_plic m) target_cpu)(word_index := ucast value))\<rparr>\<rparr>)
            else m)
      else if 0x200000 \<le> offset \<and> offset \<le> 0x20FFFF then
        (let target_cpu = 0; reg_offset = (offset - 0x200000) mod 0x1000 in
         if reg_offset = 0
         then plic_update (int target_cpu) (m\<lparr>g_plic := (g_plic m)\<lparr>threshold :=
                (threshold (g_plic m))(target_cpu := ucast (value AND 7))\<rparr>\<rparr>)
         else if reg_offset = 4 then plic_complete (int target_cpu) (ucast value) m
         else m)
      else m)"

text \<open>
  Set-up. \<open>plic_set_irq_affinity\<close> passes \<open>(irq, cpu_id)\<close> to \<open>plic_set_enable\<close>, whose
  parameters are \<open>(cpu_id, irq)\<close>.
\<close>

definition plic_select_target_cpu_affinity :: "int \<Rightarrow> machine \<Rightarrow> int \<times> machine" where
  "plic_select_target_cpu_affinity irq m =
     (let cpu_id = (next_cpu m + 0) mod 1 in
      if plic_is_enabled (g_plic m) irq cpu_id
      then (cpu_id, m\<lparr>next_cpu := (cpu_id + 1) mod 1\<rparr>) else (-1, m))"

definition plic_set_irq_affinity :: "int \<Rightarrow> int \<Rightarrow> machine \<Rightarrow> machine" where
  "plic_set_irq_affinity irq target_cpu m =
     (if irq < 1 \<or> MAX_IRQS \<le> irq then m
      else if target_cpu < 0 \<or> int MAX_CORES \<le> target_cpu then m
      else fold (\<lambda>cpu_id. if cpu_id = target_cpu then plic_set_enable irq cpu_id True
                           else plic_set_enable irq cpu_id False) [0..int MAX_CORES - 1] m)"

definition setup_critical_irq_affinity :: "machine \<Rightarrow> machine" where
  "setup_critical_irq_affinity m =
     (let m = plic_set_irq_affinity 10 0 m;
          m = plic_set_irq_affinity 11 0 m;
          m = plic_set_irq_affinity 30 1 m;
          m = plic_set_irq_affinity 31 2 m;
          m = plic_set_irq_affinity 20 3 m;
          m = plic_set_irq_affinity 21 3 m;
          m = plic_set_irq_affinity 40 2 m;
          m = plic_set_irq_affinity 50 1 m
      in plic_set_irq_affinity VIRTIO_IRQ 0 m)"

definition plic_is_irq_enabled_on_any :: "int \<Rightarrow> machine \<Rightarrow> bool" where
  "plic_is_irq_enabled_on_any irq m = list_ex (\<lambda>cpu_id. plic_is_enabled (g_plic m) irq cpu_id) [0..0]"

definition setup_generic_irq_affinity :: "machine \<Rightarrow> machine" where
  "setup_generic_irq_affinity m =
     fold (\<lambda>irq m.
       if \<not> plic_is_irq_enabled_on_any irq m then
         (let (target_cpu, m) = plic_select_target_cpu_affinity irq m in
          if 0 \<le> target_cpu then plic_set_irq_affinity irq target_cpu m else m)
       else m) [1..MAX_IRQS - 1] m"

definition setup_irq_affinity :: "machine \<Rightarrow> machine" where
  "setup_irq_affinity m = setup_generic_irq_affinity (setup_critical_irq_affinity m)"

definition plic_init_enables :: "machine \<Rightarrow> machine" where
  "plic_init_enables m =
     fold (\<lambda>cpu_id m. plic_set_enable cpu_id VIRTIO_IRQ True (plic_set_enable cpu_id 10 True m))
       [0..int MAX_CORES - 1] m"

definition plic_init :: "machine \<Rightarrow> machine" where
  "plic_init m =
     (let m = m\<lparr>g_plic := zero_plic\<rparr>;
          m = m\<lparr>g_plic := (g_plic m)\<lparr>priority := (\<lambda>i. if 1 \<le> i \<and> int i < MAX_IRQS then 1 else priority (g_plic m) i)\<rparr>\<rparr>;
          m = m\<lparr>g_plic := (g_plic m)\<lparr>threshold := (\<lambda>i. if i < MAX_CORES then 0 else threshold (g_plic m) i)\<rparr>\<rparr>
      in setup_irq_affinity (plic_init_enables m))"

section \<open>Bitmap lemmas\<close>

lemma irq_bit_iff: "0 \<le> irq \<Longrightarrow> irq_bit w irq \<longleftrightarrow> bit (w (nat (irq div 32))) (nat (irq mod 32))"
  using tst_bit [of "w (nat (irq div 32))" "nat (irq mod 32)"] by (simp add: irq_bit_def)

lemma irq_index_eq:
  "0 \<le> i \<Longrightarrow> 0 \<le> j \<Longrightarrow> nat (i div 32) = nat (j div 32) \<Longrightarrow> nat (i mod 32) = nat (j mod 32) \<Longrightarrow> i = (j :: int)"
  by (simp add: eq_nat_nat_iff pos_imp_zdiv_nonneg_iff) (metis div_mult_mod_eq)

lemma irq_mod_less: "nat (irq mod 32) < 32"
  by (simp add: nat_less_iff)

lemma bit_word_set:
  "b < 32 \<Longrightarrow> bit ((w(a := w a OR push_bit b 1)) a') b' \<longleftrightarrow> a' = a \<and> b' = b \<or> bit (w a' :: u32) b'"
  by (auto simp: bit_simps)

lemma bit_word_clear:
  "bit ((w(a := w a AND NOT (push_bit b 1))) a') b' \<longleftrightarrow> \<not> (a' = a \<and> b' = b) \<and> bit (w a' :: u32) b'"
  by (auto simp: bit_simps dest: bit_imp_le_length)

lemma irq_bit_set [simp]:
  "0 \<le> i \<Longrightarrow> 0 \<le> j \<Longrightarrow> irq_bit (set_irq_bit i w) j \<longleftrightarrow> j = i \<or> irq_bit w j"
  unfolding irq_bit_iff set_irq_bit_def bit_word_set [OF irq_mod_less]
  using irq_index_eq [of i j] by metis

lemma irq_bit_clear [simp]:
  "0 \<le> i \<Longrightarrow> 0 \<le> j \<Longrightarrow> irq_bit (clear_irq_bit i w) j \<longleftrightarrow> j \<noteq> i \<and> irq_bit w j"
  unfolding irq_bit_iff clear_irq_bit_def bit_word_clear
  using irq_index_eq [of i j] by metis

lemma plic_is_enabled_iff:
  "plic_is_enabled p irq c \<longleftrightarrow>
     1 \<le> irq \<and> irq < MAX_IRQS \<and> 0 \<le> c \<and> c < 4 \<and> irq_bit (enable p (nat c)) irq"
proof -
  have "drop_bit n x AND 1 = 1 \<longleftrightarrow> bit x n" for x :: u32 and n
    by (simp add: and_one_eq odd_iff_mod_2_eq_one [symmetric] bit_iff_odd_drop_bit)
  then show ?thesis by (auto simp: plic_is_enabled_def irq_bit_iff)
qed

section \<open>What is deliverable\<close>

text \<open>
  The abstract view of the controller: a source is a candidate for a hart when it is enabled,
  pending and not claimed there; it is deliverable when its priority exceeds the threshold.
\<close>

definition candidate :: "PLICState \<Rightarrow> int \<Rightarrow> nat \<Rightarrow> bool" where
  "candidate p c irq \<longleftrightarrow> plic_is_enabled p (int irq) c \<and> irq_bit (pending p) (int irq) \<and>
     \<not> irq_bit (claimed p (nat c)) (int irq)"

definition deliverable :: "PLICState \<Rightarrow> int \<Rightarrow> nat \<Rightarrow> bool" where
  "deliverable p c irq \<longleftrightarrow> candidate p c irq \<and> threshold p (nat c) < priority p irq"

lemma deliverable_range: "deliverable p c irq \<Longrightarrow> irq \<in> {1..<1023}"
  by (auto simp: deliverable_def candidate_def plic_is_enabled_iff)

lemma deliverable_cong:
  "enable p = enable q \<Longrightarrow> pending p = pending q \<Longrightarrow> claimed p = claimed q \<Longrightarrow>
   threshold p = threshold q \<Longrightarrow> priority p = priority q \<Longrightarrow> deliverable p c i = deliverable q c i"
  by (simp add: deliverable_def candidate_def plic_is_enabled_def)

lemma plic_update_scan_eq: "plic_update_scan p c = best_step (candidate p c) (priority p)"
  by (intro ext) (simp add: plic_update_scan_def best_step_def candidate_def)

lemma plic_claim_scan_eq: "plic_claim_scan p c = best_step (candidate p c) (priority p)"
  by (intro ext) (auto simp: plic_claim_scan_def best_step_def candidate_def not_le)

text \<open>What both scans end with, and the number they select.\<close>

definition scan_result :: "PLICState \<Rightarrow> int \<Rightarrow> u32 \<times> u32" where
  "scan_result p c = fold (best_step (candidate p c) (priority p)) [1..<nat MAX_IRQS] (threshold p (nat c), 0)"

definition winner :: "PLICState \<Rightarrow> int \<Rightarrow> u32" where
  "winner p c = snd (scan_result p c)"

lemma winner_scans:
  "snd (fold (plic_update_scan p c) [1..<nat MAX_IRQS] (threshold p (nat c), 0)) = winner p c"
  "snd (fold (plic_claim_scan p c) [1..<nat MAX_IRQS] (threshold p (nat c), 0)) = winner p c"
  by (simp_all only: plic_update_scan_eq plic_claim_scan_eq winner_def scan_result_def)

lemma scan_best: "is_best (candidate p c) (priority p) {1..<1023} (threshold p (nat c)) (scan_result p c)"
proof -
  have "is_best (candidate p c) (priority p) {1..<nat MAX_IRQS} (threshold p (nat c)) (scan_result p c)"
    unfolding scan_result_def by (rule fold_best) simp_all
  then show ?thesis by simp
qed

lemma winner_zero: "winner p c = 0 \<Longrightarrow> \<not> deliverable p c i"
  using scan_best [of p c] deliverable_range [of p c i]
  unfolding winner_def is_best_def deliverable_def by (metis leD)

lemma winner_best:
  assumes "winner p c \<noteq> 0"
  shows "deliverable p c (unat (winner p c))"
    and "deliverable p c i \<Longrightarrow> priority p i < priority p (unat (winner p c)) \<or>
      priority p i = priority p (unat (winner p c)) \<and> unat (winner p c) \<le> i"
  using scan_best [of p c] deliverable_range [of p c i] assms
  unfolding winner_def is_best_def deliverable_def by auto

lemma winner_iff: "winner p c \<noteq> 0 \<longleftrightarrow> (\<exists>i. deliverable p c i)"
  using winner_zero winner_best(1) by blast

section \<open>The update of the interrupt line\<close>

lemma cpu_try_wakeup_simps [simp]:
  "csr (cpu_try_wakeup c) = csr c" "core (cpu_try_wakeup c) = core c" "clint (cpu_try_wakeup c) = clint c"
  by (simp_all add: cpu_try_wakeup_def)

definition valid_cpu :: "int \<Rightarrow> bool" where
  "valid_cpu c \<longleftrightarrow> 0 \<le> c \<and> c < 4"

lemma plic_update_eq:
  assumes "valid_cpu c"
  shows "plic_update c m =
    (let w = winner (g_plic m) c; h = nat c;
         m' = m\<lparr>g_plic := (g_plic m)\<lparr>current_irq := (current_irq (g_plic m))(h := w),
                p_irq_pending := (p_irq_pending (g_plic m))(h := 0 < w)\<rparr>\<rparr>
     in upd_cpu h (\<lambda>x. if 0 < w
          then cpu_try_wakeup (x\<lparr>csr := (csr x)(CSR_MIP := csr x CSR_MIP OR ucast MIP_MEIP)\<rparr>)
          else x\<lparr>csr := (csr x)(CSR_MIP := csr x CSR_MIP AND ucast (NOT MIP_MEIP))\<rparr>) m')"
  using assms
  unfolding plic_update_def Let_def winner_scans
  by (simp add: valid_cpu_def)

lemma plic_update_invalid [simp]: "\<not> valid_cpu c \<Longrightarrow> plic_update c m = m"
  by (auto simp: plic_update_def valid_cpu_def)

lemma plic_update_fields [simp]:
  "enable (g_plic (plic_update c m)) = enable (g_plic m)"
  "pending (g_plic (plic_update c m)) = pending (g_plic m)"
  "claimed (g_plic (plic_update c m)) = claimed (g_plic m)"
  "threshold (g_plic (plic_update c m)) = threshold (g_plic m)"
  "priority (g_plic (plic_update c m)) = priority (g_plic m)"
  by (cases "valid_cpu c"; simp add: plic_update_eq Let_def)+

lemma plic_update_frame [frame]:
  "rest (plic_update c m) = rest m" "g_uart (plic_update c m) = g_uart m"
  "next_cpu (plic_update c m) = next_cpu m" "console (plic_update c m) = console m"
  "core (cpus (plic_update c m) k) = core (cpus m k)"
  "clint (cpus (plic_update c m) k) = clint (cpus m k)"
  by (cases "valid_cpu c"; simp add: plic_update_eq Let_def)+

lemma plic_update_other [simp]: "k \<noteq> nat c \<Longrightarrow> cpus (plic_update c m) k = cpus m k"
  by (cases "valid_cpu c") (simp_all add: plic_update_eq Let_def)

lemma deliverable_plic_update [simp]:
  "deliverable (g_plic (plic_update c m)) d i = deliverable (g_plic m) d i"
  by (rule deliverable_cong) simp_all

lemma plic_is_enabled_plic_update [simp]:
  "plic_is_enabled (g_plic (plic_update c m)) i d = plic_is_enabled (g_plic m) i d"
  by (simp add: plic_is_enabled_def)

text \<open>The line of a hart: \<open>MIP.MEIP\<close> is set exactly when some source is deliverable to it.\<close>

definition meip_line :: "int \<Rightarrow> machine \<Rightarrow> bool" where
  "meip_line c m \<longleftrightarrow> (bit (csr (cpus m (nat c)) CSR_MIP) 11 \<longleftrightarrow> (\<exists>i. deliverable (g_plic m) c i))"


lemma meip_line_other:
  "nat c \<noteq> nat d \<Longrightarrow> meip_line d (plic_update c m) = meip_line d m"
  by (simp add: meip_line_def)

section \<open>The operations on the abstract view\<close>

lemma nat_valid_cpu: "valid_cpu c \<Longrightarrow> valid_cpu d \<Longrightarrow> nat c = nat d \<longleftrightarrow> c = d"
  by (auto simp: valid_cpu_def)

lemma valid_cpu_iff: "valid_cpu c \<longleftrightarrow> \<not> (c < 0 \<or> 4 \<le> c)"
  by (auto simp: valid_cpu_def)

lemma plic_claim_eq:
  assumes "valid_cpu c"
  shows "plic_claim c m =
    (let w = winner (g_plic m) c; p = g_plic m; h = nat c in
     if w \<noteq> 0 then (w, plic_update c (m\<lparr>g_plic := p\<lparr>
        claimed := (claimed p)(h := set_irq_bit (uint w) (claimed p h)),
        pending := clear_irq_bit (uint w) (pending p)\<rparr>\<rparr>))
     else (w, m))"
  using assms unfolding plic_claim_def Let_def winner_scans by (simp add: valid_cpu_def)

text \<open>The effect of \<open>plic_set_irq\<close>, \<open>plic_claim\<close> and \<open>plic_complete\<close> on the bitmaps.\<close>

lemma upto_0_0: "[0..0] = [0 :: int]"
  by simp

lemma plic_set_irq_eq:
  "plic_set_irq irq level m =
     (if irq < 1 \<or> MAX_IRQS \<le> irq then m
      else let m' = m\<lparr>g_plic := (g_plic m)\<lparr>pending :=
                 (if level \<noteq> 0 then set_irq_bit irq else clear_irq_bit irq) (pending (g_plic m))\<rparr>\<rparr>
           in if plic_is_enabled (g_plic m) irq 0 then plic_update 0 m' else m')"
  by (simp add: plic_set_irq_def Let_def plic_is_enabled_def)

lemma plic_set_irq_fields [simp]:
  "enable (g_plic (plic_set_irq irq level m)) = enable (g_plic m)"
  "claimed (g_plic (plic_set_irq irq level m)) = claimed (g_plic m)"
  "threshold (g_plic (plic_set_irq irq level m)) = threshold (g_plic m)"
  "priority (g_plic (plic_set_irq irq level m)) = priority (g_plic m)"
  by (simp_all add: plic_set_irq_eq Let_def)

lemma plic_set_irq_pending:
  "1 \<le> irq \<Longrightarrow> irq < MAX_IRQS \<Longrightarrow> 0 \<le> j \<Longrightarrow>
   irq_bit (pending (g_plic (plic_set_irq irq level m))) j =
     (if j = irq then level \<noteq> 0 else irq_bit (pending (g_plic m)) j)"
  by (simp add: plic_set_irq_eq Let_def)

lemma plic_set_irq_frame [frame]:
  "rest (plic_set_irq i l m) = rest m" "g_uart (plic_set_irq i l m) = g_uart m"
  "next_cpu (plic_set_irq i l m) = next_cpu m" "console (plic_set_irq i l m) = console m"
  "core (cpus (plic_set_irq i l m) k) = core (cpus m k)"
  "clint (cpus (plic_set_irq i l m) k) = clint (cpus m k)"
  by (simp_all add: plic_set_irq_eq Let_def frame)




lemma plic_claim_frame [frame]:
  "rest (snd (plic_claim c m)) = rest m" "g_uart (snd (plic_claim c m)) = g_uart m"
  "console (snd (plic_claim c m)) = console m"
  "core (cpus (snd (plic_claim c m)) k) = core (cpus m k)"
  "clint (cpus (snd (plic_claim c m)) k) = clint (cpus m k)"
  unfolding plic_claim_def Let_def winner_scans by (simp_all add: frame)

lemma plic_complete_frame [frame]:
  "rest (plic_complete c i m) = rest m" "g_uart (plic_complete c i m) = g_uart m"
  "console (plic_complete c i m) = console m"
  "core (cpus (plic_complete c i m) k) = core (cpus m k)"
  "clint (cpus (plic_complete c i m) k) = clint (cpus m k)"
  by (simp_all add: plic_complete_def Let_def frame)

lemma plic_read_cases: "snd (plic_read off m) \<in> {m, snd (plic_claim 0 m)}"
  by (auto simp: plic_read_def Let_def split: prod.split)

lemma plic_read_frame [frame]:
  "rest (snd (plic_read off m)) = rest m" "g_uart (snd (plic_read off m)) = g_uart m"
  "console (snd (plic_read off m)) = console m"
  "core (cpus (snd (plic_read off m)) k) = core (cpus m k)"
  "clint (cpus (snd (plic_read off m)) k) = clint (cpus m k)"
  using plic_read_cases [of off m] by (auto simp: frame)

lemma plic_write_frame [frame]:
  "rest (plic_write off v m) = rest m" "g_uart (plic_write off v m) = g_uart m"
  "console (plic_write off v m) = console m"
  "core (cpus (plic_write off v m) k) = core (cpus m k)"
  "clint (cpus (plic_write off v m) k) = clint (cpus m k)"
  by (simp_all add: plic_write_def Let_def frame)



section \<open>The contract with the devices\<close>

text \<open>
  What a device relies on when it drives its interrupt line: the pending bit of a source
  follows the last level the device set, and the sources do not disturb each other.
\<close>

locale irq_lines =
  fixes set_irq :: "int \<Rightarrow> int \<Rightarrow> 's \<Rightarrow> 's"
    and pend :: "'s \<Rightarrow> int \<Rightarrow> bool"
    and source :: "int \<Rightarrow> bool"
  assumes pend_set: "source i \<Longrightarrow> source j \<Longrightarrow> pend (set_irq i l s) j = (if j = i then l \<noteq> 0 else pend s j)"
    and set_no_source: "\<not> source i \<Longrightarrow> set_irq i l s = s"
begin

lemma pend_raised: "source i \<Longrightarrow> pend (set_irq i 1 s) i"
  by (simp add: pend_set)

lemma pend_lowered: "source i \<Longrightarrow> \<not> pend (set_irq i 0 s) i"
  by (simp add: pend_set)

lemma pend_other: "source j \<Longrightarrow> j \<noteq> i \<Longrightarrow> pend (set_irq i l s) j = pend s j"
  by (cases "source i") (simp_all add: pend_set set_no_source)

lemma pend_requests:
  "source j \<Longrightarrow> pend (fold (\<lambda>(i, l). set_irq i l) rs s) j =
     (case map_of (rev rs) j of None \<Rightarrow> pend s j | Some l \<Rightarrow> l \<noteq> 0)"
proof (induction rs arbitrary: s rule: rev_induct)
  case Nil
  then show ?case by simp
next
  case (snoc r rs)
  then show ?case by (cases r) (auto simp: pend_set pend_other)
qed

end

definition plic_pending :: "machine \<Rightarrow> int \<Rightarrow> bool" where
  "plic_pending m irq = irq_bit (pending (g_plic m)) irq"

interpretation plic_lines: irq_lines plic_set_irq plic_pending plic_is_valid_irq
proof
  fix i j l m
  assume "plic_is_valid_irq i" "plic_is_valid_irq j"
  then show "plic_pending (plic_set_irq i l m) j = (if j = i then l \<noteq> 0 else plic_pending m j)"
    by (simp add: plic_pending_def plic_is_valid_irq_def plic_set_irq_pending)
next
  fix i l m
  assume "\<not> plic_is_valid_irq i"
  then show "plic_set_irq i l m = m"
    by (auto simp: plic_is_valid_irq_def plic_set_irq_eq)
qed

lemma requests_fields:
  "enable (g_plic (fold (\<lambda>(i, l). plic_set_irq i l) rs m)) = enable (g_plic m)"
  "claimed (g_plic (fold (\<lambda>(i, l). plic_set_irq i l) rs m)) = claimed (g_plic m)"
  "threshold (g_plic (fold (\<lambda>(i, l). plic_set_irq i l) rs m)) = threshold (g_plic m)"
  "priority (g_plic (fold (\<lambda>(i, l). plic_set_irq i l) rs m)) = priority (g_plic m)"
  by (induction rs arbitrary: m) auto

section \<open>Properties\<close>

text \<open>
  C26. A claim returns the deliverable source of highest priority, the lowest number among
  equals, and 0 exactly when nothing is deliverable (then nothing changes); the claimed
  source stops being deliverable to that hart, and all other sources keep their status.
\<close>

theorem plic_claim_highest:
  assumes "0 \<le> c" and "c < int MAX_CORES"
  shows "(fst (plic_claim c m) = 0 \<longleftrightarrow> (\<forall>i. \<not> deliverable (g_plic m) c i)) \<and>
    (fst (plic_claim c m) = 0 \<longrightarrow> snd (plic_claim c m) = m) \<and>
    (fst (plic_claim c m) \<noteq> 0 \<longrightarrow>
       (let w = unat (fst (plic_claim c m)); p = g_plic m; p' = g_plic (snd (plic_claim c m)) in
        deliverable p c w \<and>
        (\<forall>i. deliverable p c i \<longrightarrow> priority p i < priority p w \<or> priority p i = priority p w \<and> w \<le> i) \<and>
        (\<forall>i. deliverable p' c i \<longleftrightarrow> i \<noteq> w \<and> deliverable p c i)))"
proof -
  let ?w = "winner (g_plic m) c"
  have c: "valid_cpu c" using assms by (simp add: valid_cpu_def)
  have "deliverable (g_plic (snd (plic_claim c m))) c i \<longleftrightarrow> i \<noteq> unat ?w \<and> deliverable (g_plic m) c i"
    if "?w \<noteq> 0" for i
  proof -
    have "int i = uint ?w \<longleftrightarrow> i = unat ?w" by (metis nat_int uint_nat)
    with that show ?thesis
      by (simp add: plic_claim_eq [OF c] Let_def)
         (auto simp: deliverable_def candidate_def plic_is_enabled_def)
  qed
  moreover have "fst (plic_claim c m) = ?w" "?w = 0 \<Longrightarrow> snd (plic_claim c m) = m"
    by (simp_all add: plic_claim_eq [OF c] Let_def)
  ultimately show ?thesis
    using winner_iff [of "g_plic m" c] winner_best [of "g_plic m" c] by (simp add: Let_def) blast
qed

definition uart_pending_machine :: machine where
  "uart_pending_machine = blank\<lparr>g_plic := zero_plic\<lparr>priority := (\<lambda>_. 1), enable := (\<lambda>_ _. 1024),
     pending := (\<lambda>_. 1024)\<rparr>\<rparr>"

lemma uart_deliverable: "deliverable (g_plic uart_pending_machine) 0 10"
  by (simp add: deliverable_def candidate_def plic_is_enabled_iff irq_bit_def
      uart_pending_machine_def zero_plic_def)

theorem plic_claim_highest_witness:
  "fst (plic_claim 0 uart_pending_machine) \<noteq> 0"
  using plic_claim_highest [of 0 uart_pending_machine] uart_deliverable by auto

text \<open>
  C27. Between the claim of a source by a hart and its completion, while the devices only change levels,
  the source cannot be delivered to that hart again, whatever levels they set; after the completion by the same
  hart, a new request makes it deliverable again.
\<close>

theorem plic_claim_exclusive:
  assumes "0 \<le> c" and "c < int MAX_CORES" and "plic_claim c m = (w, m1)" and "w \<noteq> 0"
  shows "\<not> deliverable (g_plic (fold (\<lambda>(i, l). plic_set_irq i l) rs m1)) c (unat w) \<and>
    deliverable (g_plic (plic_set_irq (uint w) 1
      (plic_complete c w (fold (\<lambda>(i, l). plic_set_irq i l) rs m1)))) c (unat w)"
proof -
  have c: "valid_cpu c" using assms by (simp add: valid_cpu_def)
  let ?m2 = "fold (\<lambda>(i, l). plic_set_irq i l) rs m1"
  from assms(3,4) have w: "w = winner (g_plic m) c"
    by (simp add: plic_claim_eq [OF c] Let_def split: if_splits)
  with assms(4) winner_best(1) [of "g_plic m" c] have d: "deliverable (g_plic m) c (unat w)" by simp
  then have n: "1 \<le> unat w" "unat w < 1023" using deliverable_range [OF d] by auto
  then have r: "1 \<le> uint w" "uint w < 1023" using uint_nat [of w] by linarith+
  from n have r': "\<not> w < 1" "\<not> 1023 \<le> w" by (auto simp: word_less_nat_alt word_le_nat_alt)
  from assms(3,4) have m1: "irq_bit (claimed (g_plic m1) (nat c)) (uint w)"
    "enable (g_plic m1) = enable (g_plic m)" "threshold (g_plic m1) = threshold (g_plic m)"
    "priority (g_plic m1) = priority (g_plic m)"
    by (auto simp: plic_claim_eq [OF c] Let_def split: if_splits)
  then have "\<not> deliverable (g_plic ?m2) c (unat w)"
    by (simp add: deliverable_def candidate_def requests_fields)
  moreover have "deliverable (g_plic (plic_set_irq (uint w) 1 (plic_complete c w ?m2))) c (unat w)"
    using d m1 r r' c
    by (simp add: deliverable_def candidate_def plic_is_enabled_iff plic_set_irq_pending requests_fields
        plic_complete_def Let_def valid_cpu_def)
  ultimately show ?thesis by blast
qed

theorem plic_claim_exclusive_witness:
  "\<exists>w m1. plic_claim 0 uart_pending_machine = (w, m1) \<and>
     \<not> deliverable (g_plic (plic_set_irq (uint w) 1 m1)) 0 (unat w)"
proof -
  obtain w m1 where *: "plic_claim 0 uart_pending_machine = (w, m1)" by fastforce
  moreover from this have "w \<noteq> 0"
    using uart_deliverable winner_iff [of "g_plic uart_pending_machine" 0]
    by (auto simp: plic_claim_eq valid_cpu_def Let_def split: if_splits)
  ultimately show ?thesis
    using plic_claim_exclusive [of 0 uart_pending_machine w m1 "[(uint w, 1)]"] by auto
qed




lemma meip_line_zero: "meip_line 0 blank"
  by (simp add: meip_line_def deliverable_def candidate_def plic_is_enabled_iff irq_bit_def zero_defs)



text \<open>A write of a priority register can leave the line stale: it gives the pending console a priority, and nothing notices.\<close>

theorem priority_write_stale:
  "\<exists>m. meip_line 0 m \<and> \<not> meip_line 0 (plic_write 40 1 m)"
proof -
  let ?m = "uart_pending_machine\<lparr>g_plic := (g_plic uart_pending_machine)\<lparr>priority := (\<lambda>_. 0)\<rparr>\<rparr>"
  have l: "\<not> bit (csr (cpus ?m 0) CSR_MIP) 11" by (simp add: uart_pending_machine_def zero_defs)
  have p: "plic_write 40 1 ?m = ?m\<lparr>g_plic := (g_plic ?m)\<lparr>priority := (priority (g_plic ?m))(10 := 1)\<rparr>\<rparr>"
    by (simp add: plic_write_def drop_bit_eq_div)
  have "\<not> deliverable (g_plic ?m) 0 i" for i by (simp add: deliverable_def)
  moreover have "deliverable (g_plic (plic_write 40 1 ?m)) 0 10"
    using uart_deliverable unfolding p
    by (simp add: deliverable_def candidate_def plic_is_enabled_def uart_pending_machine_def zero_plic_def)
  moreover have "\<not> bit (csr (cpus (plic_write 40 1 ?m) 0) CSR_MIP) 11" unfolding p using l by simp
  ultimately show ?thesis unfolding meip_line_def using l by (intro exI [of _ ?m]) auto
qed

lemma plic_set_enable_fields [simp]:
  "pending (g_plic (plic_set_enable c i b m)) = pending (g_plic m)"
  "claimed (g_plic (plic_set_enable c i b m)) = claimed (g_plic m)"
  "threshold (g_plic (plic_set_enable c i b m)) = threshold (g_plic m)"
  "priority (g_plic (plic_set_enable c i b m)) = priority (g_plic m)"
  by (simp_all add: plic_set_enable_def Let_def)

lemma plic_is_enabled_set_enable:
  assumes "plic_is_valid_irq i" "plic_is_valid_irq j" "valid_cpu c" "valid_cpu d"
  shows "plic_is_enabled (g_plic (plic_set_enable c i b m)) j d =
     (if c = d \<and> i = j then b else plic_is_enabled (g_plic m) j d)"
proof -
  have c: "plic_is_valid_cpu c" and r: "0 \<le> i" "0 \<le> j" "1 \<le> j" "j < 1023" "0 \<le> d" "d < 4"
    using assms by (simp_all add: plic_is_valid_cpu_def plic_is_valid_irq_def valid_cpu_def)
  have "enable (g_plic (plic_set_enable c i b m)) = (enable (g_plic m))(nat c :=
      (if b then set_irq_bit i (enable (g_plic m) (nat c)) else clear_irq_bit i (enable (g_plic m) (nat c))))"
    using assms(1) c by (simp add: plic_set_enable_def Let_def)
  moreover have "nat d = nat c \<longleftrightarrow> c = d"
    using nat_valid_cpu [OF assms(3,4)] by metis
  ultimately show ?thesis
    using r by (cases "c = d") (auto simp: plic_is_enabled_iff simp del: eq_nat_nat_iff nat_eq_iff)
qed

lemma plic_set_enable_invalid:
  "\<not> plic_is_valid_irq i \<or> \<not> valid_cpu c \<Longrightarrow> plic_set_enable c i b m = m"
  by (auto simp: plic_set_enable_def plic_is_valid_cpu_def valid_cpu_def)

lemma upto_0_3: "[0..3] = [0, 1, 2, 3 :: int]"
  by (simp add: upto_rec1)

lemma affinity_no_effect:
  assumes "4 \<le> irq"
  shows "plic_set_irq_affinity irq t m = m"
proof -
  have id: "plic_set_enable irq k b n = n" for k b n
    using assms by (intro plic_set_enable_invalid) (simp add: valid_cpu_def)
  have "fold (\<lambda>cpu_id. if cpu_id = t then plic_set_enable irq cpu_id True
      else plic_set_enable irq cpu_id False) cs m = m" for cs
    by (induction cs) (simp_all add: id)
  then show ?thesis by (simp add: plic_set_irq_affinity_def)
qed

lemma generic_affinity_no_effect: "setup_generic_irq_affinity m = m"
proof -
  have "fold (\<lambda>irq m.
       if \<not> plic_is_irq_enabled_on_any irq m then
         (let (target_cpu, m) = plic_select_target_cpu_affinity irq m in
          if 0 \<le> target_cpu then plic_set_irq_affinity irq target_cpu m else m)
       else m) is m = m" for "is"
    by (induction "is" arbitrary: m)
       (simp_all add: plic_is_irq_enabled_on_any_def plic_select_target_cpu_affinity_def)
  then show ?thesis unfolding setup_generic_irq_affinity_def .
qed

lemma critical_affinity:
  "setup_critical_irq_affinity m =
     plic_set_enable 1 3 False (plic_set_enable 1 2 False (plic_set_enable 1 1 False m))"
  by (simp add: setup_critical_irq_affinity_def affinity_no_effect Let_def)
     (simp add: plic_set_irq_affinity_def upto_0_3 plic_set_enable_invalid plic_is_valid_irq_def)

text \<open>The state between the \<open>memset\<close> with its default values and the enables.\<close>

definition plic_defaults :: "machine \<Rightarrow> machine" where
  "plic_defaults m = m\<lparr>g_plic := zero_plic\<lparr>priority := (\<lambda>i. if 1 \<le> i \<and> i < 1023 then 1 else 0)\<rparr>\<rparr>"

lemma plic_init_eq: "plic_init m = setup_irq_affinity (plic_init_enables (plic_defaults m))"
  by (simp add: plic_init_def Let_def plic_defaults_def zero_plic_def cong: if_cong)

lemma plic_init_chain:
  "plic_init m =
     plic_set_enable 1 3 False (plic_set_enable 1 2 False (plic_set_enable 1 1 False
       (plic_set_enable 3 1 True (plic_set_enable 3 10 True
         (plic_set_enable 2 1 True (plic_set_enable 2 10 True
           (plic_set_enable 1 1 True (plic_set_enable 1 10 True
             (plic_set_enable 0 1 True (plic_set_enable 0 10 True (plic_defaults m)))))))))))"
  by (simp add: plic_init_eq setup_irq_affinity_def generic_affinity_no_effect
      critical_affinity plic_init_enables_def upto_0_3)

lemma plic_init_enabled:
  "plic_is_enabled (g_plic (plic_init m)) irq c \<longleftrightarrow> 0 \<le> c \<and> c < 4 \<and> (irq = 10 \<or> irq = 1 \<and> c \<noteq> 1)"
proof (cases "plic_is_valid_irq irq \<and> valid_cpu c")
  case True
  have v: "plic_is_valid_irq 1" "plic_is_valid_irq 2" "plic_is_valid_irq 3" "plic_is_valid_irq 10"
    "valid_cpu 0" "valid_cpu 1" "valid_cpu 2" "valid_cpu 3"
    by (simp_all add: plic_is_valid_irq_def valid_cpu_def)
  have "\<not> plic_is_enabled (g_plic (plic_defaults m)) irq c"
    by (simp add: plic_is_enabled_def plic_defaults_def zero_plic_def)
  moreover from True have "c \<in> {0, 1, 2, 3}" by (auto simp: valid_cpu_def)
  ultimately show ?thesis
    using True by (auto simp: plic_init_chain plic_is_enabled_set_enable v)
next
  case False
  then show ?thesis by (auto simp: plic_is_enabled_iff plic_is_valid_irq_def valid_cpu_def)
qed

text \<open>
  C40. What \<open>plic_init\<close> leaves behind, for every earlier state: nothing pending or claimed,
  every threshold 0, every source of priority 1, and enabled are the console (10) and the disk
  (1) on every hart, except that hart 1 has lost the disk, because
  \<open>plic_set_irq_affinity\<close> exchanges the two numbers it passes on.
\<close>

theorem plic_init_state:
  "let p = g_plic (plic_init m) in
   (\<forall>irq. \<not> irq_bit (pending p) irq) \<and> (\<forall>c irq. \<not> irq_bit (claimed p c) irq) \<and>
   (\<forall>c. threshold p c = 0) \<and> (\<forall>i \<in> {1..<1023}. priority p i = 1) \<and>
   (\<forall>irq c. plic_is_enabled p irq c \<longleftrightarrow> 0 \<le> c \<and> c < 4 \<and> (irq = 10 \<or> irq = 1 \<and> c \<noteq> 1))"
  by (simp add: Let_def plic_init_enabled)
     (simp add: plic_init_chain plic_defaults_def zero_plic_def irq_bit_def)

theorem plic_init_state_witness:
  "plic_is_enabled (g_plic (plic_init blank)) 10 3 \<and> \<not> plic_is_enabled (g_plic (plic_init blank)) 1 1"
  using plic_init_state [of blank] unfolding Let_def by simp

end
