(* ===== verification/Uart.thy ===== *)
theory Uart
  imports Plic
begin

text \<open>
  The serial port (\<open>uart.c\<close>): the two ring buffers, the interrupt helpers, the register map,
  the transmit state machine, the bodies of the two threads, and creation. The device mutex is
  the flag \<open>u_locked\<close>: locking it while it is held never returns (\<open>Deadlock\<close>). What reaches
  the host's standard output is appended to \<open>console\<close>. The loops of the threads, the terminal and
  the life of the device are in \<open>Uart_Host\<close>; the sleeping of the threads is left out.
\<close>

abbreviation (input) LSR_DR :: u8 where "LSR_DR \<equiv> 0x01"
abbreviation (input) LSR_OE :: u8 where "LSR_OE \<equiv> 0x02"
abbreviation (input) LSR_THRE :: u8 where "LSR_THRE \<equiv> 0x20"
abbreviation (input) LSR_TEMT :: u8 where "LSR_TEMT \<equiv> 0x40"
abbreviation (input) LSR_TX_EMPTY :: u8 where "LSR_TX_EMPTY \<equiv> 0x20"
abbreviation (input) IER_TX_ENABLE :: u8 where "IER_TX_ENABLE \<equiv> 0x02"
abbreviation (input) UART_CTRL_RX_INT_EN :: u32 where "UART_CTRL_RX_INT_EN \<equiv> 1"
abbreviation (input) UART_CTRL_TX_INT_EN :: u32 where "UART_CTRL_TX_INT_EN \<equiv> 2"
abbreviation (input) UART_IRQ_RX_PENDING :: u32 where "UART_IRQ_RX_PENDING \<equiv> 1"
abbreviation (input) UART_IRQ_TX_PENDING :: u32 where "UART_IRQ_TX_PENDING \<equiv> 2"

definition upd_uart :: "(UARTDevice \<Rightarrow> UARTDevice) \<Rightarrow> machine \<Rightarrow> machine" where
  "upd_uart f m = m\<lparr>g_uart := f (g_uart m)\<rparr>"

lemma upd_uart_simps [simp]:
  "g_uart (upd_uart f m) = f (g_uart m)" "cpus (upd_uart f m) = cpus m"
  "memory (upd_uart f m) = memory m" "gbus (upd_uart f m) = gbus m" "rest (upd_uart f m) = rest m"
  "g_plic (upd_uart f m) = g_plic m" "dev (upd_uart f m) = dev m"
  "pending_ops (upd_uart f m) = pending_ops m" "bc (upd_uart f m) = bc m"
  "prev_avail (upd_uart f m) = prev_avail m" "next_cpu (upd_uart f m) = next_cpu m"
  "console (upd_uart f m) = console m" "host (upd_uart f m) = host m"
  by (simp_all add: upd_uart_def)

definition uart_lock :: "machine \<Rightarrow> machine res" where
  "uart_lock m = (if u_locked (g_uart m) then Inl Deadlock
     else Inr (upd_uart (\<lambda>u. u\<lparr>u_locked := True\<rparr>) m))"

definition uart_unlock :: "machine \<Rightarrow> machine" where
  "uart_unlock m = upd_uart (\<lambda>u. u\<lparr>u_locked := False\<rparr>) m"

definition putchar :: "u8 \<Rightarrow> machine \<Rightarrow> machine" where
  "putchar b m = m\<lparr>console := console m @ [b]\<rparr>"

section \<open>Status and interrupts\<close>

definition uart_update_lsr :: "UARTDevice \<Rightarrow> UARTDevice" where
  "uart_update_lsr u =
     (let l = 0;
          l = (if 0 < u_rx_count u then l OR LSR_DR else l);
          l = (if u_tx_count u = 0 then l OR (LSR_THRE OR LSR_TEMT) else l);
          l = (if 0 < u_tx_count u then l AND NOT (LSR_THRE OR LSR_TEMT) else l)
      in u\<lparr>u_lsr := l\<rparr>)"

definition uart_set_overrun :: "UARTDevice \<Rightarrow> UARTDevice" where
  "uart_set_overrun u = u\<lparr>u_lsr := u_lsr u OR LSR_OE\<rparr>"

text \<open>\<open>irq_cb\<close>, where it is set; \<open>cpu_opaque\<close> is the address of \<open>cpu[0]\<close>.\<close>

definition cpu_irq_raise_cb :: "int \<Rightarrow> int \<Rightarrow> machine \<Rightarrow> machine" where
  "cpu_irq_raise_cb level irq_num m =
     upd_cpu 0 (\<lambda>c. c\<lparr>irq_pending := (irq_pending c)(irq_num := (if level \<noteq> 0 then 1 else 0))\<rparr>) m"

definition irq_callback :: "int \<Rightarrow> machine \<Rightarrow> machine" where
  "irq_callback level m =
     (if u_irq_cb (g_uart m) then cpu_irq_raise_cb level (u_irq_num (g_uart m)) m else m)"

definition uart_plic_irq :: "int \<Rightarrow> machine \<Rightarrow> machine" where
  "uart_plic_irq level m =
     (if u_plic (g_uart m) then plic_set_irq (u_irq_num (g_uart m)) level m else m)"

definition uart_update_irq_old :: "machine \<Rightarrow> machine res" where
  "uart_update_irq_old m = rbind (uart_lock m) (\<lambda>m.
     let u = g_uart m in
     if u_mcr u AND 0x08 = 0 then
       Inr (uart_unlock (upd_uart (\<lambda>u. u\<lparr>u_iir := 1\<rparr>) (irq_callback 0 m)))
     else
       (let (raise_irq, iir) =
          (if u_ier u AND 0x01 \<noteq> 0 \<and> 0 < u_rx_count u then (1, 0x04)
           else if u_ier u AND 0x02 \<noteq> 0 \<and> u_lsr u AND 0x20 \<noteq> 0 then (1, 0x02)
           else if u_ier u AND 0x04 \<noteq> 0 \<and> u_lsr u AND 0x1E \<noteq> 0 then (1, 0x06)
           else if u_ier u AND 0x08 \<noteq> 0 \<and> u_msr u AND 0x0F \<noteq> 0 then (1, 0x00)
           else (0, 0x01))
        in Inr (uart_unlock (irq_callback raise_irq (upd_uart (\<lambda>u. u\<lparr>u_iir := iir\<rparr>) m)))))"

definition uart_update_irq :: "machine \<Rightarrow> machine" where
  "uart_update_irq m =
     (if u_irq_pending (g_uart m) \<noteq> 0 then uart_plic_irq 1 m else uart_plic_irq 0 m)"

definition uart_tx_complete :: "machine \<Rightarrow> machine" where
  "uart_tx_complete m =
     (let m = upd_uart (\<lambda>u. u\<lparr>u_lsr := u_lsr u OR LSR_TX_EMPTY\<rparr>) m in
      if u_ier (g_uart m) AND IER_TX_ENABLE \<noteq> 0
      then irq_callback 1 (uart_plic_irq 1 (upd_uart (\<lambda>u. u\<lparr>u_irq_pending := 1\<rparr>) m))
      else m)"

definition uart_start_tx :: "u8 \<Rightarrow> machine \<Rightarrow> machine" where
  "uart_start_tx ch m = uart_tx_complete (putchar ch m)"

section \<open>Ring buffers\<close>

definition tx_buf_is_empty :: "UARTDevice \<Rightarrow> bool" where
  "tx_buf_is_empty u \<longleftrightarrow> u_tx_count u = 0"

definition tx_buf_is_full :: "UARTDevice \<Rightarrow> bool" where
  "tx_buf_is_full u \<longleftrightarrow> UART_TX_BUF_SIZE \<le> u_tx_count u"

definition rx_buf_is_empty :: "UARTDevice \<Rightarrow> bool" where
  "rx_buf_is_empty u \<longleftrightarrow> u_rx_count u = 0"

definition rx_buf_is_full :: "UARTDevice \<Rightarrow> bool" where
  "rx_buf_is_full u \<longleftrightarrow> UART_RX_BUF_SIZE \<le> u_rx_count u"

text \<open>The statements that add and remove one byte of a buffer.\<close>

definition tx_put :: "u8 \<Rightarrow> UARTDevice \<Rightarrow> UARTDevice" where
  "tx_put b u = u\<lparr>u_tx_buf := (u_tx_buf u)(u_tx_head u := b),
     u_tx_head := (u_tx_head u + 1) mod UART_TX_BUF_SIZE, u_tx_count := u_tx_count u + 1\<rparr>"

definition tx_drop :: "UARTDevice \<Rightarrow> UARTDevice" where
  "tx_drop u = u\<lparr>u_tx_tail := (u_tx_tail u + 1) mod UART_TX_BUF_SIZE, u_tx_count := u_tx_count u - 1\<rparr>"

definition rx_put :: "u8 \<Rightarrow> UARTDevice \<Rightarrow> UARTDevice" where
  "rx_put b u = u\<lparr>u_rx_buf := (u_rx_buf u)(u_rx_head u := b),
     u_rx_head := (u_rx_head u + 1) mod UART_RX_BUF_SIZE, u_rx_count := u_rx_count u + 1\<rparr>"

definition rx_drop :: "UARTDevice \<Rightarrow> UARTDevice" where
  "rx_drop u = u\<lparr>u_rx_tail := (u_rx_tail u + 1) mod UART_RX_BUF_SIZE, u_rx_count := u_rx_count u - 1\<rparr>"

definition tx_buf_push :: "u8 \<Rightarrow> UARTDevice \<Rightarrow> bool \<times> UARTDevice" where
  "tx_buf_push b u =
     (let ret = \<not> tx_buf_is_full u;
          u = (if \<not> ret then tx_drop u else u)
      in if UART_TX_BUF_SIZE \<le> u_tx_count u then (False, u\<lparr>u_locked := False\<rparr>)
         else (ret, uart_update_lsr (tx_put b u)))"

text \<open>The result is \<open>None\<close> for \<open>false\<close>, and the byte stored through \<open>out\<close> otherwise.\<close>

definition tx_buf_pop :: "UARTDevice \<Rightarrow> u8 option \<times> UARTDevice" where
  "tx_buf_pop u =
     (if tx_buf_is_empty u then (None, u)
      else (Some (u_tx_buf u (u_tx_tail u)), uart_update_lsr (tx_drop u)))"

definition rx_buf_push :: "u8 \<Rightarrow> machine \<Rightarrow> machine res" where
  "rx_buf_push b m = rbind (uart_lock m) (\<lambda>m.
     let m = (if rx_buf_is_full (g_uart m)
              then upd_uart (\<lambda>u. (rx_drop u)\<lparr>u_lsr := u_lsr u OR LSR_OE\<rparr>) m else m);
         m = upd_uart (rx_put b) m;
         m = upd_uart (\<lambda>u. u\<lparr>u_lsr := u_lsr u OR LSR_DR\<rparr>) m;
         m = (if u_ier (g_uart m) AND 0x01 \<noteq> 0 then uart_plic_irq 1 m else m)
     in Inr (uart_unlock m))"

text \<open>The test for an empty buffer only sets \<open>ret\<close>, which is overwritten: the pop goes on.\<close>

definition rx_buf_pop :: "machine \<Rightarrow> (u8 \<times> machine) res" where
  "rx_buf_pop m = rbind (uart_lock m) (\<lambda>m.
     let out = u_rx_buf (g_uart m) (u_rx_tail (g_uart m));
         m = uart_unlock (upd_uart (\<lambda>u. uart_update_lsr (rx_drop u)) m)
     in Inr (out, uart_update_irq m))"

definition uart_maybe_raise_irq :: "machine \<Rightarrow> machine" where
  "uart_maybe_raise_irq m =
     (let u = g_uart m;
          pending = 0;
          pending = (if \<not> rx_buf_is_empty u \<and> u_ctrl u AND UART_CTRL_RX_INT_EN \<noteq> 0
                     then pending OR UART_IRQ_RX_PENDING else pending);
          pending = (if tx_buf_is_empty u \<and> u_ctrl u AND UART_CTRL_TX_INT_EN \<noteq> 0
                     then pending OR UART_IRQ_TX_PENDING else pending);
          new_pending = u_irq_status u OR pending
      in if new_pending \<noteq> u_irq_status u
         then irq_callback 1 (upd_uart (\<lambda>u. u\<lparr>u_irq_status := new_pending\<rparr>) m) else m)"

definition uart_maybe_clear_irq :: "machine \<Rightarrow> machine" where
  "uart_maybe_clear_irq m = (if u_irq_status (g_uart m) = 0 then irq_callback 0 m else m)"

section \<open>The threads\<close>

text \<open>
  One round of \<open>uart_tx_thread\<close> from taking the lock: it waits on an empty buffer (no step),
  otherwise it sends the oldest byte.
\<close>

definition uart_tx_thread :: "machine \<Rightarrow> machine res" where
  "uart_tx_thread m = rbind (uart_lock m) (\<lambda>m.
     if tx_buf_is_empty (g_uart m) then Inr (uart_unlock m)
     else (let (b, u) = tx_buf_pop (g_uart m); m = uart_unlock (m\<lparr>g_uart := u\<rparr>)
           in case b of None \<Rightarrow> Inr m | Some b \<Rightarrow> Inr (uart_update_irq (putchar b m))))"

text \<open>The inner loop of \<open>uart_rx_thread\<close> over the bytes read from standard input.\<close>

fun uart_rx_thread :: "u8 list \<Rightarrow> machine \<Rightarrow> machine res" where
  "uart_rx_thread [] m = Inr m"
| "uart_rx_thread (b # bs) m =
     (if b = 0x04 then uart_rx_thread bs (upd_cpu 0 (\<lambda>c. c\<lparr>running := False\<rparr>) m)
      else rbind (rx_buf_push b m) (uart_rx_thread bs))"

section \<open>The register map\<close>

definition uart_update_baud :: "UARTDevice \<Rightarrow> UARTDevice" where
  "uart_update_baud uart =
     (let divisor = push_bit 8 (ucast (u_dlm uart)) OR ucast (u_dll uart) :: u16 in
      if divisor \<noteq> 0 then uart\<lparr>u_baud_rate := of_int (1843200 div (16 * uint divisor))\<rparr>
      else uart\<lparr>u_baud_rate := of_int (1843200 div 16)\<rparr>)"

text \<open>The truncation of the result to 1 or 2 bytes.\<close>

definition uart_resize :: "nat \<Rightarrow> u32 \<Rightarrow> u32" where
  "uart_resize sz r = (if sz = 1 then r AND 0xFF else if sz = 2 then r AND 0xFFFF else r)"

text \<open>
  The registers whose read has no effect, as the \<open>switch\<close> computes \<open>res\<close>.
\<close>

definition uart_read_reg :: "UARTDevice \<Rightarrow> u64 \<Rightarrow> u32" where
  "uart_read_reg u offset =
     (if offset = 1 then (if u_lcr u AND 0x80 \<noteq> 0 then ucast (u_dlm u) else ucast (u_ier u))
      else if offset = 2 then
        (if u_ier u AND 0x01 \<noteq> 0 \<and> 0 < u_rx_count u then 0x04 else ucast (u_iir u))
      else if offset = 3 then ucast (u_lcr u)
      else if offset = 4 then ucast (u_mcr u)
      else if offset = 5 then ucast (u_lsr u)
      else if offset = 6 then ucast (u_msr u)
      else if offset = 7 then ucast (u_scr u)
      else if offset = 8 then u_ctrl u
      else if offset = 0x0C then u_irq_status u
      else if offset = 0x10 then 0
      else 0xFFFFFFFF)"

definition uart_mmio_read :: "u64 \<Rightarrow> nat \<Rightarrow> machine \<Rightarrow> (u32 \<times> machine) res" where
  "uart_mmio_read offset sz m =
     (let dlab = u_lcr (g_uart m) AND 0x80 \<noteq> 0 in
      rbind (uart_lock m) (\<lambda>m.
        if offset = 0 then
          (if dlab then Inr (ucast (u_dll (g_uart m)), m)
           else rbind (rx_buf_pop m) (\<lambda>(b, m).
             let m = (if u_rx_count (g_uart m) = 0
                      then uart_plic_irq 0 (upd_uart (\<lambda>u. u\<lparr>u_lsr := u_lsr u AND NOT LSR_DR\<rparr>) m) else m)
             in Inr (uart_resize sz (ucast b), uart_unlock m)))
        else Inr (uart_resize sz (uart_read_reg (g_uart m) offset), uart_unlock m)))"

definition uart_write_fcr :: "u8 \<Rightarrow> UARTDevice \<Rightarrow> UARTDevice" where
  "uart_write_fcr v u =
     (let u = u\<lparr>u_fcr := v, u_fifo_enable := (if v AND 0x01 \<noteq> 0 then 1 else 0),
                u_dma_mode := (if v AND 0x08 \<noteq> 0 then 1 else 0)\<rparr>;
          u = (if v AND 0x02 \<noteq> 0 then u\<lparr>u_rx_count := 0, u_rx_head := 0, u_rx_tail := 0\<rparr>
               else if v AND 0x04 \<noteq> 0 then u\<lparr>u_tx_count := 0, u_tx_head := 0, u_rx_tail := 0\<rparr>
               else u);
          trigger_bits = drop_bit 6 v AND 0x03
      in u\<lparr>u_rx_trigger_level := (if trigger_bits = 0 then 1 else if trigger_bits = 1 then 4
             else if trigger_bits = 2 then 8 else 14)\<rparr>)"

definition uart_write_reg :: "u64 \<Rightarrow> u32 \<Rightarrow> machine \<Rightarrow> machine" where
  "uart_write_reg offset val m =
     (let dlab = u_lcr (g_uart m) AND 0x80 \<noteq> 0 in
      if offset = 0 then
        (if dlab then upd_uart (\<lambda>u. uart_update_baud (u\<lparr>u_dll := ucast val\<rparr>)) m
         else (let ch = ucast (val AND 0xFF)
               in uart_start_tx ch (upd_uart (\<lambda>u. u\<lparr>u_thr := ch, u_lsr := u_lsr u AND NOT LSR_TX_EMPTY\<rparr>) m)))
      else if offset = 1 then
        (if dlab then upd_uart (\<lambda>u. u\<lparr>u_dlm := ucast val\<rparr>) m
         else upd_uart (\<lambda>u. u\<lparr>u_ier := ucast (val AND 0x0F)\<rparr>) m)
      else if offset = 2 then upd_uart (uart_write_fcr (ucast val)) m
      else if offset = 3 then upd_uart (\<lambda>u. u\<lparr>u_lcr := ucast val\<rparr>) m
      else if offset = 4 then upd_uart (\<lambda>u. u\<lparr>u_mcr := ucast (val AND 0x1F)\<rparr>) m
      else if offset = 5 then m
      else if offset = 6 then m
      else if offset = 7 then upd_uart (\<lambda>u. u\<lparr>u_scr := ucast (val AND 0xFF), u_ctrl := val\<rparr>) m
      else if offset = 8 then upd_uart (\<lambda>u. u\<lparr>u_ctrl := val\<rparr>) m
      else if offset = 0x0C then
        (let m = upd_uart (\<lambda>u. u\<lparr>u_irq_status := u_irq_status u AND NOT val\<rparr>) m
         in if u_irq_status (g_uart m) = 0 then irq_callback 0 m else m)
      else m)"

definition uart_mmio_write :: "u64 \<Rightarrow> u32 \<Rightarrow> machine \<Rightarrow> machine res" where
  "uart_mmio_write offset val m = rbind (uart_lock m) (\<lambda>m.
     let m = uart_unlock (uart_write_reg offset val m)
     in Inr (if offset = 1 \<or> offset = 4 then uart_update_irq m else m))"

definition mmio_read :: "u64 \<Rightarrow> nat \<Rightarrow> machine \<Rightarrow> (u32 \<times> machine) res" where
  "mmio_read offset sz m = uart_mmio_read offset sz m"

definition mmio_write :: "u64 \<Rightarrow> u32 \<Rightarrow> machine \<Rightarrow> machine res" where
  "mmio_write offset val m =
     (let addr = UART_BASE + offset in
      if UART_BASE \<le> addr \<and> addr < UART_BASE + UART_SIZE then uart_mmio_write offset val m else Inr m)"

section \<open>Creation and the transmit state machine\<close>

definition uart_init :: "UARTDevice \<Rightarrow> UARTDevice" where
  "uart_init u = zero_uart\<lparr>u_lsr := 0x20 OR 0x40, u_msr := 0xB0, u_mcr := 0x08, u_ier := 0,
     u_iir := 0x01, u_rx_head := 0, u_rx_tail := 0, u_rx_count := 0\<rparr>"

text \<open>\<open>(uint64_t)(1e12 / 115200)\<close> is 8680555; \<open>uart_init\<close> clears it again.\<close>

definition uart_create :: "int \<Rightarrow> UARTDevice" where
  "uart_create irq =
     (let u = zero_uart\<lparr>u_baud_rate := 115200, u_bit_time_ps := 8680555, u_tx_in_progress := False\<rparr>;
          u = uart_init u
      in u\<lparr>u_ctrl := 0, u_irq_status := 0, u_tx_head := 0, u_tx_tail := 0, u_tx_count := 0,
           u_rx_head := 0, u_rx_tail := 0, u_rx_count := 0, u_irq_num := irq, u_plic := True,
           u_lsr := 0x20 OR 0x40\<rparr>)"

definition uart_update :: "u64 \<Rightarrow> UARTDevice \<Rightarrow> UARTDevice" where
  "uart_update current_time_ps u =
     (if u_tx_in_progress u \<and> u_tx_next_bit_time u \<le> current_time_ps then
        (if u_tx_bit_pos u = -1 then
           u\<lparr>u_tx_bit_pos := 0, u_tx_next_bit_time := u_tx_next_bit_time u + u_bit_time_ps u\<rparr>
         else if u_tx_bit_pos u < 8 then
           u\<lparr>u_tx_bit_pos := u_tx_bit_pos u + 1,
             u_tx_next_bit_time := u_tx_next_bit_time u + u_bit_time_ps u\<rparr>
         else u\<lparr>u_tx_in_progress := False, u_lsr := u_lsr u OR (0x20 OR 0x40)\<rparr>)
      else u)"

section \<open>Ring buffers as bounded queues\<close>

text \<open>
  What both buffers promise: adding writes at the head and moves it, removing moves the tail.
  From it the list the buffer stands for follows, and its well-formedness.
\<close>

lemma mod_1024: "(x :: u32) mod 1024 = take_bit 10 x"
  by (simp add: take_bit_eq_mod)

lemma take_bit_10_add: "take_bit 10 (take_bit 10 (x :: u32) + y) = take_bit 10 (x + y)"
proof -
  have "uint (take_bit 10 (take_bit 10 x + y)) = uint (take_bit 10 (x + y))"
    unfolding unsigned_take_bit_eq uint_word_ariths
    unfolding take_bit_eq_mod
    by (simp add: mod_mod_cancel mod_simps)
  then show ?thesis by (rule unsigned_word_eqI)
qed

lemma take_bit_10_cancel:
  assumes "take_bit 10 (t + a :: u32) = take_bit 10 (t + b)"
  shows "take_bit 10 a = take_bit 10 b"
proof -
  from assms have "take_bit 10 (take_bit 10 (t + a) + (- t)) = take_bit 10 (take_bit 10 (t + b) + (- t))"
    by simp
  then show ?thesis unfolding take_bit_10_add by simp
qed

definition ring_queue :: "(u32 \<Rightarrow> u8) \<Rightarrow> u32 \<Rightarrow> u32 \<Rightarrow> u8 list" where
  "ring_queue b t n = map (\<lambda>i. b (take_bit 10 (t + of_nat i))) [0..<unat n]"

definition ring_ok :: "u32 \<Rightarrow> u32 \<Rightarrow> u32 \<Rightarrow> bool" where
  "ring_ok h t n \<longleftrightarrow> n \<le> 1024 \<and> take_bit 10 t = t \<and> h = take_bit 10 (t + n)"

locale ring =
  fixes buf :: "'s \<Rightarrow> u32 \<Rightarrow> u8"
    and head :: "'s \<Rightarrow> u32"
    and tail :: "'s \<Rightarrow> u32"
    and cnt :: "'s \<Rightarrow> u32"
    and put :: "u8 \<Rightarrow> 's \<Rightarrow> 's"
    and drop1 :: "'s \<Rightarrow> 's"
  assumes put_buf: "buf (put b s) = (buf s)(head s := b)"
    and put_head: "head (put b s) = (head s + 1) mod 1024"
    and put_tail: "tail (put b s) = tail s"
    and put_cnt: "cnt (put b s) = cnt s + 1"
    and drop_buf: "buf (drop1 s) = buf s"
    and drop_head: "head (drop1 s) = head s"
    and drop_tail: "tail (drop1 s) = (tail s + 1) mod 1024"
    and drop_cnt: "cnt (drop1 s) = cnt s - 1"
begin

lemma ring_wf_def: "ring_ok (head s) (tail s) (cnt s) \<longleftrightarrow>
    cnt s \<le> 1024 \<and> take_bit 10 (tail s) = tail s \<and> head s = take_bit 10 (tail s + cnt s)"
  by (simp add: ring_ok_def)

lemma length_queue: "length (ring_queue (buf s) (tail s) (cnt s)) = unat (cnt s)"
  by (simp add: ring_queue_def)

lemma queue_empty: "ring_queue (buf s) (tail s) (cnt s) = [] \<longleftrightarrow> cnt s = 0"
  by (simp add: ring_queue_def unat_eq_0)

lemma unat_cnt_less: "cnt s < 1024 \<Longrightarrow> unat (cnt s + 1) = Suc (unat (cnt s))"
  by (simp add: unat_word_ariths word_less_nat_alt)

lemma slots_distinct:
  assumes "i < unat (cnt s)" "cnt s < 1024"
  shows "take_bit 10 (tail s + of_nat i) \<noteq> take_bit 10 (tail s + cnt s)"
proof
  assume "take_bit 10 (tail s + of_nat i) = take_bit 10 (tail s + cnt s)"
  then have "take_bit 10 (of_nat i :: u32) = take_bit 10 (cnt s)" by (rule take_bit_10_cancel)
  then have "unat (take_bit 10 (of_nat i :: u32)) = unat (take_bit 10 (cnt s))" by simp
  with assms show False
    by (simp add: unsigned_take_bit_eq unsigned_of_nat word_less_nat_alt take_bit_nat_eq_self)
qed

lemma queue_put:
  assumes "ring_ok (head s) (tail s) (cnt s)" "cnt s < 1024"
  shows "ring_queue (buf (put b s)) (tail (put b s)) (cnt (put b s)) = ring_queue (buf s) (tail s) (cnt s) @ [b]" and "ring_ok (head (put b s)) (tail (put b s)) (cnt (put b s))"
proof -
  from assms have h: "head s = take_bit 10 (tail s + cnt s)" by (simp add: ring_wf_def)
  from slots_distinct [OF _ assms(2)] show "ring_queue (buf (put b s)) (tail (put b s)) (cnt (put b s)) = ring_queue (buf s) (tail s) (cnt s) @ [b]"
    by (simp add: ring_queue_def put_buf put_tail put_cnt unat_cnt_less [OF assms(2)] h)
  have "cnt s + 1 \<le> 1024"
    using assms(2) unat_cnt_less [OF assms(2)] by (simp add: word_le_nat_alt word_less_nat_alt)
  moreover have "take_bit 10 (take_bit 10 (tail s + cnt s) + 1) = take_bit 10 (tail s + (cnt s + 1))"
    by (simp add: take_bit_10_add add.assoc)
  ultimately show "ring_ok (head (put b s)) (tail (put b s)) (cnt (put b s))"
    using assms h by (simp add: ring_ok_def put_head put_tail put_cnt mod_1024)
qed

lemma queue_drop:
  assumes "ring_ok (head s) (tail s) (cnt s)" "cnt s \<noteq> 0"
  shows "ring_queue (buf (drop1 s)) (tail (drop1 s)) (cnt (drop1 s)) = tl (ring_queue (buf s) (tail s) (cnt s))" and "ring_ok (head (drop1 s)) (tail (drop1 s)) (cnt (drop1 s))" and "hd (ring_queue (buf s) (tail s) (cnt s)) = buf s (tail s)"
    and "cnt (drop1 s) < 1024"
proof -
  from assms(2) have u: "unat (cnt s) = Suc (unat (cnt s - 1))"
    by (simp add: unat_minus_one Suc_pred' unat_gt_0)
  have "take_bit 10 (take_bit 10 (tail s + 1) + x) = take_bit 10 (tail s + (1 + x))" for x
    by (simp add: take_bit_10_add add.assoc)
  note sh = this
  show "ring_queue (buf (drop1 s)) (tail (drop1 s)) (cnt (drop1 s)) = tl (ring_queue (buf s) (tail s) (cnt s))"
    unfolding ring_queue_def u upt_conv_Cons [OF zero_less_Suc] drop_cnt drop_buf drop_tail mod_1024 sh
    by (simp add: map_Suc_upt [symmetric] comp_def del: upt_Suc)
  show "cnt (drop1 s) < 1024"
    using assms u by (simp add: ring_wf_def drop_cnt word_le_nat_alt word_less_nat_alt)
  then show "ring_ok (head (drop1 s)) (tail (drop1 s)) (cnt (drop1 s))"
    using assms sh [of "cnt s - 1"] by (simp add: ring_ok_def drop_cnt drop_head drop_tail mod_1024)
  show "hd (ring_queue (buf s) (tail s) (cnt s)) = buf s (tail s)"
    using assms by (simp add: ring_queue_def ring_wf_def u upt_conv_Cons del: upt_Suc)
qed

end

text \<open>The lists the two buffers stand for, and their well-formedness.\<close>

definition rx_queue :: "UARTDevice \<Rightarrow> u8 list" where
  "rx_queue u = ring_queue (u_rx_buf u) (u_rx_tail u) (u_rx_count u)"

definition rx_ok :: "UARTDevice \<Rightarrow> bool" where
  "rx_ok u \<longleftrightarrow> ring_ok (u_rx_head u) (u_rx_tail u) (u_rx_count u)"

definition tx_queue :: "UARTDevice \<Rightarrow> u8 list" where
  "tx_queue u = ring_queue (u_tx_buf u) (u_tx_tail u) (u_tx_count u)"

definition tx_ok :: "UARTDevice \<Rightarrow> bool" where
  "tx_ok u \<longleftrightarrow> ring_ok (u_tx_head u) (u_tx_tail u) (u_tx_count u)"

interpretation rx: ring u_rx_buf u_rx_head u_rx_tail u_rx_count rx_put rx_drop
  by unfold_locales (simp_all add: rx_put_def rx_drop_def)

interpretation tx: ring u_tx_buf u_tx_head u_tx_tail u_tx_count tx_put tx_drop
  by unfold_locales (simp_all add: tx_put_def tx_drop_def)

lemma uart_update_lsr_buffers [simp]:
  "rx_queue (uart_update_lsr u) = rx_queue u" "rx_ok (uart_update_lsr u) = rx_ok u"
  "tx_queue (uart_update_lsr u) = tx_queue u" "tx_ok (uart_update_lsr u) = tx_ok u"
  "u_locked (uart_update_lsr u) = u_locked u" "u_ier (uart_update_lsr u) = u_ier u"
  "u_plic (uart_update_lsr u) = u_plic u" "u_irq_num (uart_update_lsr u) = u_irq_num u"
  "u_irq_pending (uart_update_lsr u) = u_irq_pending u" "u_rx_count (uart_update_lsr u) = u_rx_count u"
  by (simp_all add: uart_update_lsr_def Let_def rx_queue_def rx_ok_def tx_queue_def tx_ok_def)

text \<open>One byte into the receive buffer: when it is full the oldest byte makes room.\<close>

definition rx_accept :: "u8 \<Rightarrow> UARTDevice \<Rightarrow> UARTDevice" where
  "rx_accept b u = rx_put b (if rx_buf_is_full u then rx_drop u else u)"

lemma rx_queue_accept:
  assumes "rx_ok u"
  shows "rx_queue (rx_accept b u) = (if length (rx_queue u) = 1024 then tl (rx_queue u) else rx_queue u) @ [b]"
    and "rx_ok (rx_accept b u)"
proof -
  have full: "rx_buf_is_full u \<longleftrightarrow> u_rx_count u = 1024"
    using assms by (auto simp: rx_buf_is_full_def rx_ok_def ring_ok_def)
  have len: "length (rx_queue u) = 1024 \<longleftrightarrow> u_rx_count u = 1024"
    unfolding rx_queue_def rx.length_queue using word_unat_eq_iff [of "u_rx_count u" 1024] by simp
  have ok: "ring_ok (u_rx_head u) (u_rx_tail u) (u_rx_count u)" using assms by (simp add: rx_ok_def)
  have "rx_queue (rx_accept b u) = (if length (rx_queue u) = 1024 then tl (rx_queue u) else rx_queue u) @ [b] \<and>
    rx_ok (rx_accept b u)"
  proof (cases "u_rx_count u = 1024")
    case True
    then have n: "u_rx_count u \<noteq> 0" by auto
    note d = rx.queue_drop [OF ok n]
    from True have "rx_accept b u = rx_put b (rx_drop u)" by (simp add: rx_accept_def full)
    with True rx.queue_put [OF d(2) d(4), of b] show ?thesis
      unfolding rx_queue_def [symmetric] rx_ok_def [symmetric] len d(1) [folded rx_queue_def] by simp
  next
    case False
    then have "u_rx_count u < 1024" using ok by (auto simp: ring_ok_def)
    note p = rx.queue_put [OF ok this, of b]
    from False have "rx_accept b u = rx_put b u" by (simp add: rx_accept_def full)
    with False p show ?thesis
      unfolding rx_queue_def [symmetric] rx_ok_def [symmetric] len by simp
  qed
  then show "rx_queue (rx_accept b u) = (if length (rx_queue u) = 1024 then tl (rx_queue u) else rx_queue u) @ [b]"
    and "rx_ok (rx_accept b u)" by blast+
qed

section \<open>Lemmas on the operations\<close>

lemma irq_callback_frame [frame]:
  "rest (irq_callback l m) = rest m" "g_plic (irq_callback l m) = g_plic m"
  "g_uart (irq_callback l m) = g_uart m" "console (irq_callback l m) = console m"
  "next_cpu (irq_callback l m) = next_cpu m"
  by (simp_all add: irq_callback_def cpu_irq_raise_cb_def)

lemma irq_callback_cpu [frame]:
  "core (cpus (irq_callback l m) k) = core (cpus m k)"
  "csr (cpus (irq_callback l m) k) = csr (cpus m k)"
  "halted (cpus (irq_callback l m) k) = halted (cpus m k)"
  "clint (cpus (irq_callback l m) k) = clint (cpus m k)"
  by (simp_all add: irq_callback_def cpu_irq_raise_cb_def)

lemma uart_plic_irq_frame [frame]:
  "rest (uart_plic_irq l m) = rest m" "g_uart (uart_plic_irq l m) = g_uart m"
  "console (uart_plic_irq l m) = console m" "next_cpu (uart_plic_irq l m) = next_cpu m"
  "core (cpus (uart_plic_irq l m) k) = core (cpus m k)"
  "clint (cpus (uart_plic_irq l m) k) = clint (cpus m k)"
  by (simp_all add: uart_plic_irq_def frame)

lemma uart_plic_irq_pending:
  "u_plic (g_uart m) \<Longrightarrow> plic_is_valid_irq (u_irq_num (g_uart m)) \<Longrightarrow>
   plic_pending (uart_plic_irq l m) (u_irq_num (g_uart m)) \<longleftrightarrow> l \<noteq> 0"
  by (simp add: uart_plic_irq_def plic_lines.pend_set)

lemma uart_update_irq_frame [frame]:
  "rest (uart_update_irq m) = rest m" "g_uart (uart_update_irq m) = g_uart m"
  "console (uart_update_irq m) = console m" "next_cpu (uart_update_irq m) = next_cpu m"
  "core (cpus (uart_update_irq m) k) = core (cpus m k)"
  "clint (cpus (uart_update_irq m) k) = clint (cpus m k)"
  by (simp_all add: uart_update_irq_def frame)

lemma putchar_simps [simp]:
  "rest (putchar b m) = rest m" "g_uart (putchar b m) = g_uart m" "console (putchar b m) = console m @ [b]"
  "cpus (putchar b m) = cpus m" "g_plic (putchar b m) = g_plic m"
  by (simp_all add: putchar_def)

lemma plic_pending_cong: "g_plic m = g_plic m' \<Longrightarrow> plic_pending m = plic_pending m'"
  by (simp add: plic_pending_def fun_eq_iff)

lemma uart_lock_free: "\<not> u_locked (g_uart m) \<Longrightarrow>
  uart_lock m = Inr (upd_uart (\<lambda>u. u\<lparr>u_locked := True\<rparr>) m)"
  by (simp add: uart_lock_def)

lemma uart_tx_complete_uart:
  "g_uart (uart_tx_complete m) = (g_uart m)\<lparr>u_lsr := u_lsr (g_uart m) OR LSR_TX_EMPTY,
     u_irq_pending := (if u_ier (g_uart m) AND IER_TX_ENABLE \<noteq> 0 then 1 else u_irq_pending (g_uart m))\<rparr>"
  by (simp add: uart_tx_complete_def Let_def frame)

lemma uart_tx_complete_frame [frame]:
  "rest (uart_tx_complete m) = rest m" "console (uart_tx_complete m) = console m"
  by (simp_all add: uart_tx_complete_def Let_def frame)

lemma uart_write_reg_locked [simp]:
  "u_locked (g_uart (uart_write_reg off v m)) = u_locked (g_uart m)"
  by (simp add: uart_write_reg_def Let_def uart_start_tx_def uart_tx_complete_uart uart_update_baud_def
      uart_write_fcr_def frame)

text \<open>The device after \<open>rx_buf_push\<close> has stored the byte, still locked.\<close>

definition rx_pushed :: "u8 \<Rightarrow> UARTDevice \<Rightarrow> UARTDevice" where
  "rx_pushed b u = (rx_accept b u)\<lparr>u_locked := True,
     u_lsr := (if rx_buf_is_full u then u_lsr u OR LSR_OE else u_lsr u) OR LSR_DR\<rparr>"

lemma rx_pushed_simps [simp]:
  "u_locked (rx_pushed b u) = True" "u_ier (rx_pushed b u) = u_ier u" "u_plic (rx_pushed b u) = u_plic u"
  "u_irq_num (rx_pushed b u) = u_irq_num u" "rx_queue (rx_pushed b u) = rx_queue (rx_accept b u)"
  "rx_ok (rx_pushed b u) = rx_ok (rx_accept b u)"
  by (simp_all add: rx_pushed_def rx_accept_def rx_put_def rx_drop_def rx_queue_def rx_ok_def)

lemma rx_buf_push_eq:
  assumes "\<not> u_locked (g_uart m)"
  shows "rx_buf_push b m = Inr (let n = m\<lparr>g_uart := rx_pushed b (g_uart m)\<rparr> in
    uart_unlock (if u_ier (g_uart m) AND 1 \<noteq> 0 then uart_plic_irq 1 n else n))"
proof -
  let ?m = "upd_uart (\<lambda>u. u\<lparr>u_locked := True\<rparr>) m"
  have "rx_buf_is_full (g_uart ?m) = rx_buf_is_full (g_uart m)" by (simp add: rx_buf_is_full_def)
  then have "upd_uart (\<lambda>u. u\<lparr>u_lsr := u_lsr u OR LSR_DR\<rparr>) (upd_uart (rx_put b)
      (if rx_buf_is_full (g_uart ?m) then upd_uart (\<lambda>u. (rx_drop u)\<lparr>u_lsr := u_lsr u OR LSR_OE\<rparr>) ?m
       else ?m)) = m\<lparr>g_uart := rx_pushed b (g_uart m)\<rparr>"
    by (simp add: upd_uart_def rx_pushed_def rx_accept_def rx_put_def rx_drop_def)
  then show ?thesis
    unfolding rx_buf_push_def uart_lock_free [OF assms] Let_def rbind.simps by simp
qed

lemma uart_unlock_simps [simp]:
  "g_uart (uart_unlock m) = (g_uart m)\<lparr>u_locked := False\<rparr>" "g_plic (uart_unlock m) = g_plic m"
  "cpus (uart_unlock m) = cpus m" "memory (uart_unlock m) = memory m" "console (uart_unlock m) = console m"
  by (simp_all add: uart_unlock_def)

lemma rx_queue_locked [simp]:
  "rx_queue (u\<lparr>u_locked := l\<rparr>) = rx_queue u" "rx_ok (u\<lparr>u_locked := l\<rparr>) = rx_ok u"
  by (simp_all add: rx_queue_def rx_ok_def)

lemma rx_ok_full: "rx_ok u \<Longrightarrow> rx_buf_is_full u \<longleftrightarrow> length (rx_queue u) = 1024"
  "rx_ok u \<Longrightarrow> length (rx_queue u) \<le> 1024"
  using word_unat_eq_iff [of "u_rx_count u" 1024]
  by (auto simp: rx_buf_is_full_def rx_ok_def ring_ok_def rx_queue_def rx.length_queue word_le_nat_alt)

lemma rx_buf_pop_eq:
  assumes "\<not> u_locked (g_uart m)"
  shows "rx_buf_pop m = Inr (u_rx_buf (g_uart m) (u_rx_tail (g_uart m)),
     uart_update_irq (m\<lparr>g_uart := (uart_update_lsr (rx_drop (g_uart m)))\<lparr>u_locked := False\<rparr>\<rparr>))"
  unfolding rx_buf_pop_def uart_lock_free [OF assms] Let_def rbind.simps
  by (simp add: upd_uart_def uart_unlock_def rx_drop_def uart_update_lsr_def)

lemma unlocked_id [simp]: "\<not> u_locked u \<Longrightarrow> u\<lparr>u_locked := False\<rparr> = u"
  by simp

lemma lock_unlock_id: "\<not> u_locked (g_uart m) \<Longrightarrow> uart_unlock (upd_uart (\<lambda>u. u\<lparr>u_locked := True\<rparr>) m) = m"
  by (simp add: uart_unlock_def upd_uart_def)

lemma uart_read_reg_locked [simp]: "uart_read_reg (u\<lparr>u_locked := l\<rparr>) off = uart_read_reg u off"
  by (simp add: uart_read_reg_def)

lemma uart_mmio_write_eq:
  assumes "\<not> u_locked (g_uart m)"
  shows "uart_mmio_write off val m = Inr
    (let m = uart_unlock (uart_write_reg off val (upd_uart (\<lambda>u. u\<lparr>u_locked := True\<rparr>) m))
     in if off = 1 \<or> off = 4 then uart_update_irq m else m)"
  unfolding uart_mmio_write_def uart_lock_free [OF assms] rbind.simps Let_def ..

lemma uart_unlock_frame [frame]:
  "rest (uart_unlock m) = rest m"
  by (simp add: uart_unlock_def)

lemma uart_tx_complete_cpu [frame]:
  "core (cpus (uart_tx_complete m) k) = core (cpus m k)"
  "clint (cpus (uart_tx_complete m) k) = clint (cpus m k)"
  by (simp_all add: uart_tx_complete_def Let_def frame)

lemma uart_write_reg_frame [frame]:
  "rest (uart_write_reg off v m) = rest m"
  "core (cpus (uart_write_reg off v m) k) = core (cpus m k)"
  "clint (cpus (uart_write_reg off v m) k) = clint (cpus m k)"
  by (simp_all add: uart_write_reg_def uart_start_tx_def Let_def frame)

text \<open>A register access that returns leaves memory, the disk and the harts' cores alone.\<close>

lemma mmio_write_frame:
  "mmio_write off v m = Inr m' \<Longrightarrow> rest m' = rest m \<and> core (cpus m' k) = core (cpus m k) \<and>
     clint (cpus m' k) = clint (cpus m k)"
  by (auto simp: mmio_write_def uart_mmio_write_def uart_lock_def rbind_Inr_iff Let_def frame
      split: if_splits)

lemma mmio_read_frame:
  "mmio_read off sz m = Inr (v, m') \<Longrightarrow> rest m' = rest m \<and> core (cpus m' k) = core (cpus m k) \<and>
     clint (cpus m' k) = clint (cpus m k)"
  by (auto simp: mmio_read_def uart_mmio_read_def uart_lock_def rx_buf_pop_def rbind_Inr_iff Let_def frame
      split: if_splits)

section \<open>Properties\<close>

text \<open>
  C33. The receive buffer is a queue of at most 1024 bytes: a received byte is appended, a full
  buffer first drops its oldest byte and flags the overrun, \<open>LSR.DR\<close> is set, the lock is free
  again, and with the receive interrupt enabled the device's line is pending at the controller.
\<close>

theorem rx_buf_push_queue:
  assumes "rx_ok (g_uart m)" and "\<not> u_locked (g_uart m)"
  shows "\<exists>m'. rx_buf_push b m = Inr m' \<and> \<not> u_locked (g_uart m') \<and> rx_ok (g_uart m') \<and>
    rx_queue (g_uart m') = (if length (rx_queue (g_uart m)) = 1024 then tl (rx_queue (g_uart m))
                            else rx_queue (g_uart m)) @ [b] \<and>
    length (rx_queue (g_uart m')) \<le> 1024 \<and>
    bit (u_lsr (g_uart m')) 0 \<and>
    (bit (u_lsr (g_uart m')) 1 \<longleftrightarrow> bit (u_lsr (g_uart m)) 1 \<or> length (rx_queue (g_uart m)) = 1024) \<and>
    (bit (u_ier (g_uart m)) 0 \<longrightarrow> u_plic (g_uart m) \<longrightarrow> plic_is_valid_irq (u_irq_num (g_uart m)) \<longrightarrow>
       plic_pending m' (u_irq_num (g_uart m)))"
proof -
  let ?u = "g_uart m"
  let ?n = "m\<lparr>g_uart := rx_pushed b ?u\<rparr>"
  let ?m' = "uart_unlock (if u_ier ?u AND 1 \<noteq> 0 then uart_plic_irq 1 ?n else ?n)"
  have g: "g_uart ?m' = (rx_pushed b ?u)\<lparr>u_locked := False\<rparr>" by (simp add: frame)
  have acc: "rx_queue (g_uart ?m') = (if length (rx_queue ?u) = 1024 then tl (rx_queue ?u) else rx_queue ?u) @ [b]"
    "rx_ok (g_uart ?m')"
    using rx_queue_accept [OF assms(1), of b] unfolding g by simp_all
  have lsr: "bit (u_lsr (g_uart ?m')) 0"
    "bit (u_lsr (g_uart ?m')) 1 \<longleftrightarrow> bit (u_lsr ?u) 1 \<or> length (rx_queue ?u) = 1024"
    unfolding g rx_ok_full(1) [OF assms(1), symmetric]
    by (simp_all add: rx_pushed_def bit_simps bit_2_iff)
  have pend: "plic_pending ?m' (u_irq_num ?u)"
    if "bit (u_ier ?u) 0" "u_plic ?u" "plic_is_valid_irq (u_irq_num ?u)"
    using that uart_plic_irq_pending [of ?n 1] by (simp add: masks plic_pending_def)
  have "length (rx_queue (g_uart ?m')) \<le> 1024" using rx_ok_full(2) acc(2) by blast
  moreover have "\<not> u_locked (g_uart ?m')" unfolding g by simp
  ultimately show ?thesis
    using rx_buf_push_eq [OF assms(2), of b] acc lsr pend unfolding Let_def by blast
qed

theorem rx_buf_push_queue_witness:
  "\<exists>m'. rx_buf_push 65 blank = Inr m' \<and> rx_queue (g_uart m') = [65]"
  using rx_buf_push_queue [of blank 65]
  by (auto simp: zero_defs rx_ok_def ring_ok_def rx_queue_def ring_queue_def)

text \<open>
  Taking a byte from the receive buffer: on a non-empty buffer the oldest byte is returned
  and removed; on an empty buffer the call still reports a byte (the stale slot) and the count
  wraps to 4294967295, after which the buffer no longer is a well-formed queue.
\<close>

theorem rx_buf_pop_queue:
  assumes "rx_ok (g_uart m)" and "\<not> u_locked (g_uart m)"
  shows "\<exists>b m'. rx_buf_pop m = Inr (b, m') \<and> \<not> u_locked (g_uart m') \<and>
    (rx_queue (g_uart m) \<noteq> [] \<longrightarrow> rx_queue (g_uart m) = b # rx_queue (g_uart m') \<and> rx_ok (g_uart m')) \<and>
    (rx_queue (g_uart m) = [] \<longrightarrow> u_rx_count (g_uart m') = 0xFFFFFFFF \<and> \<not> rx_ok (g_uart m'))"
proof -
  let ?u = "g_uart m"
  let ?m' = "uart_update_irq (m\<lparr>g_uart := (uart_update_lsr (rx_drop ?u))\<lparr>u_locked := False\<rparr>\<rparr>)"
  have g: "rx_queue (g_uart ?m') = rx_queue (rx_drop ?u)" "rx_ok (g_uart ?m') = rx_ok (rx_drop ?u)"
    "u_rx_count (g_uart ?m') = u_rx_count ?u - 1" "\<not> u_locked (g_uart ?m')"
    by (simp_all add: frame) (simp add: rx_drop_def)
  have ok: "ring_ok (u_rx_head ?u) (u_rx_tail ?u) (u_rx_count ?u)"
    using assms(1) by (simp add: rx_ok_def)
  have e: "rx_queue ?u = [] \<longleftrightarrow> u_rx_count ?u = 0"
    unfolding rx_queue_def by (rule rx.queue_empty)
  have full: "rx_queue ?u = u_rx_buf ?u (u_rx_tail ?u) # rx_queue (g_uart ?m')" "rx_ok (g_uart ?m')"
    if "rx_queue ?u \<noteq> []"
  proof -
    from that e have n: "u_rx_count ?u \<noteq> 0" by simp
    note d = rx.queue_drop [OF ok n]
    have "rx_ok (rx_drop ?u)" unfolding rx_ok_def by (rule d(2))
    then show "rx_ok (g_uart ?m')" by (simp only: g)
    have "rx_queue (rx_drop ?u) = tl (rx_queue ?u)" "hd (rx_queue ?u) = u_rx_buf ?u (u_rx_tail ?u)"
      unfolding rx_queue_def using d(1,3) by simp_all
    with that show "rx_queue ?u = u_rx_buf ?u (u_rx_tail ?u) # rx_queue (g_uart ?m')"
      unfolding g by (metis list.collapse)
  qed
  have empty: "u_rx_count (g_uart ?m') = 0xFFFFFFFF" "\<not> rx_ok (g_uart ?m')" if "rx_queue ?u = []"
  proof -
    show "u_rx_count (g_uart ?m') = 0xFFFFFFFF" using that e g(3) by simp
    then show "\<not> rx_ok (g_uart ?m')" by (simp add: rx_ok_def ring_ok_def)
  qed
  from rx_buf_pop_eq [OF assms(2)] g(4) full empty show ?thesis by blast
qed

theorem rx_buf_pop_queue_witness:
  "\<exists>b m'. rx_buf_pop blank = Inr (b, m') \<and> u_rx_count (g_uart m') = 0xFFFFFFFF"
  using rx_buf_pop_queue [of blank]
  by (auto simp: zero_defs rx_ok_def ring_ok_def rx_queue_def ring_queue_def)

text \<open>
  A byte written to the transmit register (offset 0, divisor latch closed) reaches the
  host's output at once, exactly one byte and in order; the write returns with the lock free
  and the transmitter marked empty, and with the transmit interrupt enabled the device's line
  is pending at the controller.
\<close>

theorem uart_transmit_byte:
  assumes "\<not> u_locked (g_uart m)" and "u_lcr (g_uart m) AND 0x80 = 0"
  shows "\<exists>m'. uart_mmio_write 0 val m = Inr m' \<and> console m' = console m @ [ucast val] \<and>
    \<not> u_locked (g_uart m') \<and> bit (u_lsr (g_uart m')) 5 \<and>
    memory m' = memory m \<and> rx_queue (g_uart m') = rx_queue (g_uart m) \<and>
    (bit (u_ier (g_uart m)) 1 \<longrightarrow> u_plic (g_uart m) \<longrightarrow> plic_is_valid_irq (u_irq_num (g_uart m)) \<longrightarrow>
       plic_pending m' (u_irq_num (g_uart m)))"
proof -
  let ?n = "upd_uart (\<lambda>u. u\<lparr>u_thr := ucast val, u_lsr := u_lsr u AND NOT LSR_TX_EMPTY\<rparr>)
    (upd_uart (\<lambda>u. u\<lparr>u_locked := True\<rparr>) m)"
  let ?m' = "uart_unlock (uart_start_tx (ucast val) ?n)"
  have "uart_mmio_write 0 val m = Inr ?m'"
    using assms by (simp add: uart_mmio_write_eq uart_write_reg_def Let_def ucast_and_0xFF)
  moreover have "console ?m' = console m @ [ucast val]" by (simp add: uart_start_tx_def frame)
  moreover have "rest (uart_start_tx (ucast val) ?n) = rest m" by (simp add: uart_start_tx_def frame)
  then have "memory ?m' = memory m" by (auto dest: restD)
  moreover have "\<not> u_locked (g_uart ?m')" by simp
  moreover have "bit (u_lsr (g_uart ?m')) 5"
    by (simp add: uart_start_tx_def uart_tx_complete_uart bit_simps bit_32_u8)
  moreover have "rx_queue (g_uart ?m') = rx_queue (g_uart m)"
    by (simp add: uart_start_tx_def uart_tx_complete_uart) (simp add: rx_queue_def)
  moreover have "plic_pending ?m' (u_irq_num (g_uart m))"
    if "bit (u_ier (g_uart m)) 1" "u_plic (g_uart m)" "plic_is_valid_irq (u_irq_num (g_uart m))"
  proof -
    have "uart_start_tx (ucast val) ?n = irq_callback 1 (uart_plic_irq 1 (upd_uart (\<lambda>u. u\<lparr>u_irq_pending := 1\<rparr>)
        (upd_uart (\<lambda>u. u\<lparr>u_lsr := u_lsr u OR LSR_TX_EMPTY\<rparr>) (putchar (ucast val) ?n))))"
      using that(1) by (simp add: uart_start_tx_def uart_tx_complete_def Let_def masks)
    with that(2,3) uart_plic_irq_pending [of "upd_uart (\<lambda>u. u\<lparr>u_irq_pending := 1\<rparr>)
        (upd_uart (\<lambda>u. u\<lparr>u_lsr := u_lsr u OR LSR_TX_EMPTY\<rparr>) (putchar (ucast val) ?n))" 1]
    show ?thesis by (simp add: plic_pending_def frame)
  qed
  ultimately show ?thesis by blast
qed

theorem uart_transmit_byte_witness:
  "\<exists>m'. uart_mmio_write 0 0x48 blank = Inr m' \<and> console m' = [0x48]"
  using uart_transmit_byte [of blank "0x48"] by (auto simp: zero_defs)

text \<open>
  Reads of the register map on an unlocked device: every register other than offset 0
  returns its value, resized, and changes nothing. A read of the receive register (offset 0,
  divisor latch closed) never returns, because \<open>rx_buf_pop\<close> locks the mutex the caller holds;
  with the latch open the divisor is returned with the mutex still held, so that every later
  read, write or received byte hangs.
\<close>

theorem uart_mmio_read_outcome:
  assumes "\<not> u_locked (g_uart m)"
  shows "(off \<noteq> 0 \<longrightarrow> uart_mmio_read off sz m = Inr (uart_resize sz (uart_read_reg (g_uart m) off), m)) \<and>
    (u_lcr (g_uart m) AND 0x80 = 0 \<longrightarrow> uart_mmio_read 0 sz m = Inl Deadlock) \<and>
    (u_lcr (g_uart m) AND 0x80 \<noteq> 0 \<longrightarrow> (\<exists>m'. uart_mmio_read 0 sz m = Inr (ucast (u_dll (g_uart m)), m') \<and>
       (\<forall>o' v s b. uart_mmio_read o' s m' = Inl Deadlock \<and> uart_mmio_write o' v m' = Inl Deadlock \<and>
          rx_buf_push b m' = Inl Deadlock)))"
proof -
  let ?m = "upd_uart (\<lambda>u. u\<lparr>u_locked := True\<rparr>) m"
  have l: "uart_lock ?m = Inl Deadlock" by (simp add: uart_lock_def)
  note u = uart_lock_free [OF assms]
  have "uart_mmio_read off sz m = Inr (uart_resize sz (uart_read_reg (g_uart m) off), m)" if "off \<noteq> 0"
    using that by (simp add: uart_mmio_read_def u lock_unlock_id [OF assms])
  moreover have "uart_mmio_read 0 sz m = Inl Deadlock" if "u_lcr (g_uart m) AND 0x80 = 0"
    using that by (simp add: uart_mmio_read_def u rx_buf_pop_def l)
  moreover have "uart_mmio_read 0 sz m = Inr (ucast (u_dll (g_uart m)), ?m)" if "u_lcr (g_uart m) AND 0x80 \<noteq> 0"
    using that by (simp add: uart_mmio_read_def u)
  moreover have "uart_mmio_read o' s ?m = Inl Deadlock \<and> uart_mmio_write o' v ?m = Inl Deadlock \<and>
      rx_buf_push b ?m = Inl Deadlock" for o' v s b
    by (simp add: uart_mmio_read_def uart_mmio_write_def rx_buf_push_def l)
  ultimately show ?thesis by blast
qed

theorem uart_mmio_read_outcome_witness:
  "uart_mmio_read 0 1 blank = Inl Deadlock"
  using uart_mmio_read_outcome [of blank 1 1] by (simp add: zero_defs)

end
