(* ===== verification/Bus_Read.thy ===== *)
theory Bus_Read
  imports Ram Clint Uart
begin

text \<open>
  The reading half of the bus (\<open>bus.c\<close>): registration of regions, \<open>bus_read\<close> with its
  fallback to memory, and the read handler of the disk's register map (\<open>virtio_blk.c\<close>), which
  it can reach. A region's handler is called with the offset inside the region.
\<close>

definition virtio_mmio_read :: "virtio_blk_device \<Rightarrow> u64 \<Rightarrow> u32" where
  "virtio_mmio_read d offset =
     (if offset = 0x000 then 0x74726976
      else if offset = 0x004 then 2
      else if offset = 0x008 then 2
      else if offset = 0x00c then 0x554d4551
      else if offset = 0x010 then push_bit 5 1
      else if offset = 0x014 then push_bit 5 1
      else if offset = 0x020 then 0
      else if offset = 0x034 then 8
      else if offset = 0x044 then d_queue_ready d
      else if offset = 0x060 then d_interrupt_status d
      else if offset = 0x070 then d_status d
      else if offset = 0x080 then ucast (d_desc_addr d AND 0xffffffff)
      else if offset = 0x084 then ucast (drop_bit 32 (d_desc_addr d))
      else if offset = 0x090 then ucast (d_avail_ring d AND 0xffffffff)
      else if offset = 0xfc then 1
      else 0)"

section \<open>Regions\<close>

definition bus_register_mmio :: "u64 \<Rightarrow> u64 \<Rightarrow> device \<Rightarrow> Bus \<Rightarrow> Bus res" where
  "bus_register_mmio base sz d bus =
     (if length (regions bus) < MAX_MMIO_REGIONS
      then Inr (bus\<lparr>regions := regions bus @ [\<lparr>r_base = base, r_size = sz, r_dev = d\<rparr>]\<rparr>)
      else Inl OutOfBounds)"

definition in_region :: "u64 \<Rightarrow> MMIORegion \<Rightarrow> bool" where
  "in_region addr r \<longleftrightarrow> r_base r \<le> addr \<and> addr < r_base r + r_size r"

text \<open>
  The call \<open>r->read(r->opaque, offset, size)\<close>. \<open>mmio_read\<close> and \<open>virtio_mmio_read\<close> return
  \<open>uint32_t\<close>; the \<open>CLINT\<close> behind the bus is that of \<open>cpu[0]\<close>.
\<close>

fun device_read :: "device \<Rightarrow> u64 \<Rightarrow> nat \<Rightarrow> machine \<Rightarrow> (u64 \<times> machine) res" where
  "device_read Dev_RAM offset sz m = Inr (ram_read offset sz m, m)"
| "device_read Dev_UART offset sz m = rbind (mmio_read offset sz m) (\<lambda>(v, m). Inr (ucast v, m))"
| "device_read Dev_PLIC offset sz m = Inr (plic_read offset m)"
| "device_read Dev_VIRTIO offset sz m = Inr (ucast (virtio_mmio_read (dev m) offset), m)"
| "device_read Dev_CLINT offset sz m = Inr (clint_read (clint (cpus m 0)) offset sz, m)"

text \<open>
  The fallback is a \<open>memcpy\<close> from \<open>memory\<close>; its check \<open>addr + size - 1 < ...\<close> wraps around for
  an address just below \<open>2 ^ 64\<close>, and the copy then leaves the block. Past the last case the
  function ends without a value.
\<close>

definition bus_read :: "Bus \<Rightarrow> u64 \<Rightarrow> nat \<Rightarrow> machine \<Rightarrow> (u64 \<times> machine) res" where
  "bus_read bus addr sz m =
     (case find (in_region addr) (regions bus) of
        Some r \<Rightarrow> device_read (r_dev r) (addr - r_base r) sz m
      | None \<Rightarrow>
          (if MEMORY_BASE < addr \<and> addr + of_nat sz - 1 < MEMORY_BASE + MEMORY_SIZE
           then block_load (addr - MEMORY_BASE) sz m
           else Inr (h_noret (host m) addr sz, m)))"

text \<open>The bus that \<open>main\<close> builds, region by region.\<close>

definition emu_bus :: Bus where
  "emu_bus = \<lparr>regions =
     [\<lparr>r_base = MEMORY_BASE, r_size = MEMORY_SIZE, r_dev = Dev_RAM\<rparr>,
      \<lparr>r_base = UART_BASE, r_size = UART_SIZE, r_dev = Dev_UART\<rparr>,
      \<lparr>r_base = PLIC_BASE, r_size = PLIC_SIZE, r_dev = Dev_PLIC\<rparr>,
      \<lparr>r_base = VIRTIO_MMIO_BASE, r_size = VIRTIO_MMIO_SIZE, r_dev = Dev_VIRTIO\<rparr>,
      \<lparr>r_base = CLINT_BASE_ADDR, r_size = CLINT_SIZE, r_dev = Dev_CLINT\<rparr>]\<rparr>"

section \<open>Lemmas\<close>

text \<open>An access of \<open>n\<close> bytes at the address \<open>a\<close> lies in guest memory.\<close>

definition ram_addr :: "u64 \<Rightarrow> nat \<Rightarrow> bool" where
  "ram_addr a n \<longleftrightarrow> MEMORY_BASE \<le> a \<and> unat a + n \<le> unat MEMORY_BASE + unat MEMORY_SIZE"

lemma ram_addr_offset: "ram_addr a n \<Longrightarrow> in_ram (a - MEMORY_BASE) n"
  by (auto simp: ram_addr_def in_ram_def unat_sub word_le_nat_alt)

lemma ram_addr_region:
  assumes "ram_addr a n" "0 < n"
  shows "MEMORY_BASE \<le> a \<and> a < MEMORY_BASE + MEMORY_SIZE"
  using assms by (simp add: ram_addr_def word_less_nat_alt)

lemma find_ram: "ram_addr a n \<Longrightarrow> 0 < n \<Longrightarrow>
  find (in_region a) (regions emu_bus) = Some \<lparr>r_base = MEMORY_BASE, r_size = MEMORY_SIZE, r_dev = Dev_RAM\<rparr>"
  using ram_addr_region [of a n] by (simp add: emu_bus_def in_region_def)

text \<open>In the layout of \<open>main\<close> the regions are disjoint: an address selects the device it belongs to.\<close>

lemma find_device:
  assumes "r \<in> set (regions emu_bus)" "in_region a r"
  shows "find (in_region a) (regions emu_bus) = Some r"
proof -
  from assms(1) consider
    "r = \<lparr>r_base = MEMORY_BASE, r_size = MEMORY_SIZE, r_dev = Dev_RAM\<rparr>"
    | "r = \<lparr>r_base = UART_BASE, r_size = UART_SIZE, r_dev = Dev_UART\<rparr>"
    | "r = \<lparr>r_base = PLIC_BASE, r_size = PLIC_SIZE, r_dev = Dev_PLIC\<rparr>"
    | "r = \<lparr>r_base = VIRTIO_MMIO_BASE, r_size = VIRTIO_MMIO_SIZE, r_dev = Dev_VIRTIO\<rparr>"
    | "r = \<lparr>r_base = CLINT_BASE_ADDR, r_size = CLINT_SIZE, r_dev = Dev_CLINT\<rparr>"
    by (auto simp: emu_bus_def)
  then show ?thesis
  proof cases
    case 1
    with assms(2) show ?thesis by (simp add: emu_bus_def)
  next
    case 2
    with assms(2) show ?thesis
      by (simp add: emu_bus_def in_region_def word_less_nat_alt word_le_nat_alt)
  next
    case 3
    with assms(2) show ?thesis
      by (simp add: emu_bus_def in_region_def word_less_nat_alt word_le_nat_alt)
  next
    case 4
    with assms(2) show ?thesis
      by (simp add: emu_bus_def in_region_def word_less_nat_alt word_le_nat_alt)
  next
    case 5
    with assms(2) show ?thesis
      by (simp add: emu_bus_def in_region_def word_less_nat_alt word_le_nat_alt)
  qed
qed

lemma bus_read_ram:
  "ram_addr a n \<Longrightarrow> 0 < n \<Longrightarrow> n \<le> 8 \<Longrightarrow>
   bus_read emu_bus a n m = Inr (le_load (memory m) (a - MEMORY_BASE) n, m)"
  by (simp add: bus_read_def find_ram ram_read_in_ram ram_addr_offset)

text \<open>Offsets inside the \<open>CLINT\<close> region never match a register, which is compared with \<open>addr - CLINT_BASE_ADDR\<close>.\<close>

lemma clint_offset_dead:
  assumes "off < CLINT_SIZE"
  shows "clint_read c off n = 0" and "clint_write h off v n m = m"
proof -
  define x where "x = off - CLINT_BASE_ADDR"
  have ne: "x \<noteq> k" if k: "unat k \<le> 0xBFFC" for k
  proof
    assume "x = k"
    then have "off = k + CLINT_BASE_ADDR" by (simp add: x_def diff_eq_eq)
    moreover have "unat (k + CLINT_BASE_ADDR) = unat k + 0x2000000"
      by (subst unat_add_lem [THEN iffD1]) (use k in simp_all)
    ultimately show False using assms by (simp add: word_less_nat_alt)
  qed
  have "x \<noteq> 0" "x \<noteq> 0x4000" "x \<noteq> 0xBFF8" "x \<noteq> 0x4000 + 4" "x \<noteq> 0xBFF8 + 4"
    by (rule ne, simp)+
  then show "clint_read c off n = 0" and "clint_write h off v n m = m"
    unfolding clint_read_def clint_write_def Let_def x_def [symmetric] by (simp_all only: if_False simp_thms)
qed

text \<open>A read through the bus that returns leaves memory, the disk and the harts' cores alone.\<close>

lemma device_read_frame:
  assumes "device_read d off sz m = Inr (v, m')"
  shows "rest m' = rest m \<and> core (cpus m' k) = core (cpus m k) \<and> clint (cpus m' k) = clint (cpus m k)"
proof (cases d)
  case Dev_UART
  then show ?thesis
    using assms mmio_read_frame by (auto simp: rbind_Inr_iff)
next
  case Dev_PLIC
  with assms have "m' = snd (plic_read off m)" by (cases "plic_read off m") simp
  then show ?thesis by (simp add: frame)
qed (use assms in simp_all)

lemma bus_read_frame:
  assumes "bus_read b a n m = Inr (v, m')"
  shows "rest m' = rest m \<and> core (cpus m' k) = core (cpus m k) \<and> clint (cpus m' k) = clint (cpus m k)"
  using assms by (auto simp: bus_read_def split: option.splits if_splits dest: device_read_frame block_load_Inr)

end
