(* ===== verification/Virtio.thy ===== *)
theory Virtio
  imports Bus_Read
begin

text \<open>
  The guest-facing half of the disk (\<open>virtio_blk.c\<close>): loading the image, the queue of
  requests, and the write handler of the register map. Physical accesses of the device go
  through \<open>memory_read\<close> and \<open>memory_write\<close>; the ring entries are read through the bus of
  \<open>cpu[0]\<close>. The completion of requests is in \<open>Disk\<close>.
\<close>

section \<open>The image\<close>

text \<open>
  \<open>virtio_blk_init\<close>: \<open>None\<close> for an image that cannot be opened or read, where the process
  exits (\<open>exit(1)\<close>).
\<close>

definition virtio_blk_init :: "u8 list option \<Rightarrow> machine \<Rightarrow> machine option" where
  "virtio_blk_init img m =
     (case img of None \<Rightarrow> None
      | Some bs \<Rightarrow> Some (m\<lparr>dev := (dev m)\<lparr>d_disk_data := (\<lambda>a. if unat a < length bs then bs ! unat a else 0),
          d_disk_len := length bs, d_disk_size_sectors := of_nat (length bs div 512),
          d_avail_ring := 0x10001000, d_queue_num := 8, d_queue_ready := 0, d_desc_addr := 0,
          d_used_ring := 0\<rparr>\<rparr>))"

section \<open>The request queue\<close>

definition phys_write :: "u64 \<Rightarrow> u64 \<Rightarrow> nat \<Rightarrow> machine \<Rightarrow> machine" where
  "phys_write addr value sz m = memory_write addr value sz m"

definition phys_read :: "u64 \<Rightarrow> nat \<Rightarrow> machine \<Rightarrow> u64 \<times> machine" where
  "phys_read addr sz m = memory_read addr sz m"

definition phys_read_raw :: "u64 \<Rightarrow> u64 option" where
  "phys_read_raw addr =
     (if addr < MEMORY_BASE \<or> MEMORY_BASE + MEMORY_SIZE \<le> addr then None else Some (addr - MEMORY_BASE))"

definition phys_write_raw :: "u64 \<Rightarrow> u64 option" where
  "phys_write_raw addr =
     (if addr < MEMORY_BASE \<or> MEMORY_BASE + MEMORY_SIZE \<le> addr then None else Some (addr - MEMORY_BASE))"

definition get_avail_idx :: "machine \<Rightarrow> u16 \<times> machine" where
  "get_avail_idx m = (let (v, m) = phys_read (d_avail_ring (dev m) + 2) 2 m in (ucast v, m))"

definition get_cpu_cycle :: "CPU_State \<Rightarrow> u64" where
  "get_cpu_cycle c = cycle_count c"

text \<open>\<open>LIST_INSERT_HEAD\<close> puts the new operation first.\<close>

definition start_async_disk_operation :: "u16 \<Rightarrow> machine \<Rightarrow> machine" where
  "start_async_disk_operation head_desc_idx m =
     (let desc_base = d_desc_addr (dev m) + ucast head_desc_idx * 16;
          (req_addr, m) = phys_read (desc_base + 0) 8 m;
          (ty, m) = phys_read (req_addr + 0) 4 m;
          (sector, m) = phys_read (req_addr + 8) 8 m;
          start = get_cpu_cycle (cpus m 0);
          op = \<lparr>op_head = head_desc_idx, op_start = start, op_completion = start + DISK_LATENCY_CYCLES,
                op_type = ucast ty, op_sector = sector\<rparr>
      in m\<lparr>pending_ops := op # pending_ops m\<rparr>)"

text \<open>One turn of the loop; \<open>prev\<close> is the static variable \<open>prev_avail\<close>.\<close>

definition process_queue_step :: "u16 \<Rightarrow> machine \<Rightarrow> machine res" where
  "process_queue_step prev m =
     (if d_queue_num (dev m) = 0 then Inl DivByZero
      else (let avail_idx = prev mod d_queue_num (dev m) in
        rbind (bus_read (cpu_bus (cpus m 0)) (d_avail_ring (dev m) + 4 + ucast avail_idx * 2) 2 m)
          (\<lambda>(v, m). Inr ((start_async_disk_operation (ucast v) m)\<lparr>prev_avail := prev + 1\<rparr>))))"

function process_queue_loop :: "u16 \<Rightarrow> u16 \<Rightarrow> machine \<Rightarrow> machine res" where
  "process_queue_loop last_avail prev m =
     (if prev = last_avail then Inr m
      else rbind (process_queue_step prev m) (process_queue_loop last_avail (prev + 1)))"
  by auto

lemma ring_distance:
  fixes prev last :: u16
  assumes "prev \<noteq> last"
  shows "unat (last - prev) = Suc (unat (last - (prev + 1)))"
proof -
  have "last - prev \<noteq> 0" using assms by simp
  then have "unat (last - prev - 1) = unat (last - prev) - 1" by (rule unat_minus_one)
  moreover have "unat (last - prev) \<noteq> 0" using \<open>last - prev \<noteq> 0\<close> by (simp add: unat_eq_0)
  moreover have "last - prev - 1 = last - (prev + 1)" by simp
  ultimately show ?thesis by simp
qed

termination process_queue_loop
  by (relation "measure (\<lambda>(l, p, m). unat (l - p))") (use ring_distance in auto)

declare process_queue_loop.simps [simp del]

definition process_queue :: "machine \<Rightarrow> machine res" where
  "process_queue m =
     (if d_queue_ready (dev m) = 0 then Inr m
      else (let (last_avail, m) = get_avail_idx m in process_queue_loop last_avail (prev_avail m) m))"

section \<open>The register map\<close>

definition upd_dev :: "(virtio_blk_device \<Rightarrow> virtio_blk_device) \<Rightarrow> machine \<Rightarrow> machine" where
  "upd_dev f m = m\<lparr>dev := f (dev m)\<rparr>"

definition virtio_mmio_write :: "u64 \<Rightarrow> u64 \<Rightarrow> machine \<Rightarrow> machine res" where
  "virtio_mmio_write offset value m =
     (if offset = 0x030 then Inr m
      else if offset = 0x038 then Inr (upd_dev (\<lambda>d. d\<lparr>d_queue_num := ucast value\<rparr>) m)
      else if offset = 0x044 then
        (let m = upd_dev (\<lambda>d. d\<lparr>d_queue_ready := ucast (value AND 1)\<rparr>) m
         in Inr (if d_queue_ready (dev m) \<noteq> 0 then upd_dev (\<lambda>d. d\<lparr>d_last_used_idx := 0\<rparr>) m else m))
      else if offset = 0x050 then (if value = 0 then process_queue m else Inr m)
      else if offset = 0x070 then Inr (upd_dev (\<lambda>d. d\<lparr>d_status := ucast value\<rparr>) m)
      else if offset = 0x080 then
        Inr (upd_dev (\<lambda>d. d\<lparr>d_desc_addr := (d_desc_addr d AND NOT 0xffffffff) OR value\<rparr>) m)
      else if offset = 0x084 then
        Inr (upd_dev (\<lambda>d. d\<lparr>d_desc_addr := (d_desc_addr d AND 0xffffffff) OR push_bit 32 value\<rparr>) m)
      else if offset = 0x090 then
        Inr (upd_dev (\<lambda>d. d\<lparr>d_avail_ring := (d_avail_ring d AND NOT 0xffffffff) OR value\<rparr>) m)
      else if offset = 0x094 then
        Inr (upd_dev (\<lambda>d. d\<lparr>d_avail_ring := (d_avail_ring d AND 0xffffffff) OR push_bit 32 value\<rparr>) m)
      else if offset = 0x0a0 then
        Inr (upd_dev (\<lambda>d. d\<lparr>d_used_ring := (d_used_ring d AND NOT 0xffffffff) OR value\<rparr>) m)
      else if offset = 0x0a4 then
        Inr (upd_dev (\<lambda>d. d\<lparr>d_used_ring := (d_used_ring d AND 0xffffffff) OR push_bit 32 value\<rparr>) m)
      else Inr m)"

definition virtio_blk_raise_interrupt :: "machine \<Rightarrow> machine" where
  "virtio_blk_raise_interrupt m =
     plic_set_irq VIRTIO_IRQ 1 (upd_dev (\<lambda>d. d\<lparr>d_interrupt_status := d_interrupt_status d OR 3\<rparr>) m)"

definition complete_request :: "u16 \<Rightarrow> u8 \<Rightarrow> machine \<Rightarrow> machine res" where
  "complete_request desc_idx status m =
     (if d_queue_num (dev m) = 0 then Inl DivByZero
      else (let used_ring = d_used_ring (dev m);
                used_idx = d_last_used_idx (dev m);
                elem = used_ring + 4 + ucast (used_idx mod d_queue_num (dev m)) * 8;
                m = phys_write (elem + 0) (ucast desc_idx) 2 m;
                m = phys_write (elem + 4) 1 4 m;
                m = upd_dev (\<lambda>d. d\<lparr>d_last_used_idx := d_last_used_idx d + 1\<rparr>) m;
                m = phys_write (used_ring + 2) (ucast (d_last_used_idx (dev m))) 2 m
            in Inr (virtio_blk_raise_interrupt m)))"

section \<open>Lemmas\<close>

lemma upd_dev_simps [simp]:
  "dev (upd_dev f m) = f (dev m)" "cpus (upd_dev f m) = cpus m" "memory (upd_dev f m) = memory m"
  "gbus (upd_dev f m) = gbus m" "g_plic (upd_dev f m) = g_plic m" "g_uart (upd_dev f m) = g_uart m"
  "pending_ops (upd_dev f m) = pending_ops m" "bc (upd_dev f m) = bc m"
  "prev_avail (upd_dev f m) = prev_avail m" "console (upd_dev f m) = console m"
  "host (upd_dev f m) = host m" "next_cpu (upd_dev f m) = next_cpu m"
  by (simp_all add: upd_dev_def)

lemma memory_read_core [frame]: "core (cpus (snd (memory_read a n m)) k) = core (cpus m k)"
  by (simp add: memory_read_def Let_def)

lemma memory_read_clint [frame]: "clint (cpus (snd (memory_read a n m)) k) = clint (cpus m k)"
  by (simp add: memory_read_def Let_def)

lemma memory_read_rest [frame]: "rest (snd (memory_read a n m)) = rest m"
  by (simp add: memory_read_def Let_def)

lemma phys_read_frame [frame]:
  "rest (snd (phys_read a n m)) = rest m" "core (cpus (snd (phys_read a n m)) k) = core (cpus m k)"
  "g_plic (snd (phys_read a n m)) = g_plic m" "g_uart (snd (phys_read a n m)) = g_uart m"
  "clint (cpus (snd (phys_read a n m)) k) = clint (cpus m k)"
  by (simp_all add: phys_read_def frame)

text \<open>A device access inside guest memory reads the bytes and changes nothing.\<close>

lemma phys_read_ram:
  assumes "ram_addr a n" "0 < n" "n \<le> 8"
  shows "phys_read a n m = (le_load (memory m) (a - MEMORY_BASE) n, m)"
proof -
  have "MEMORY_BASE \<le> a" using assms by (simp add: ram_addr_def)
  then have o: "memory_read_offset a = a - MEMORY_BASE" by (simp add: memory_read_offset_def)
  from in_ram_guard(1) [OF assms(3) ram_addr_offset [OF assms(1)] assms(2)] show ?thesis
    unfolding phys_read_def memory_read_def o Let_def by simp
qed

lemma phys_write_ram:
  assumes "ram_addr a n" "0 < n" "n \<le> 8"
  shows "phys_write a v n m = le_store poke (a - MEMORY_BASE) v n m"
proof -
  have "MEMORY_BASE \<le> a" using assms by (simp add: ram_addr_def)
  then have o: "memory_write_offset a = a - MEMORY_BASE" by (simp add: memory_write_offset_def)
  from in_ram_guard(1) [OF assms(3) ram_addr_offset [OF assms(1)] assms(2)] show ?thesis
    unfolding phys_write_def memory_write_def o Let_def by simp
qed

lemma phys_read_simps [simp]:
  "memory (snd (phys_read a n m)) = memory m" "dev (snd (phys_read a n m)) = dev m"
  "pending_ops (snd (phys_read a n m)) = pending_ops m" "prev_avail (snd (phys_read a n m)) = prev_avail m"
  "bc (snd (phys_read a n m)) = bc m" "host (snd (phys_read a n m)) = host m"
  "gbus (snd (phys_read a n m)) = gbus m"
  "cycle_count (cpus (snd (phys_read a n m)) k) = cycle_count (cpus m k)"
  "cpu_bus (cpus (snd (phys_read a n m)) k) = cpu_bus (cpus m k)"
  by (rule restD, rule frame | rule coreD, rule frame)+

lemma start_async_simps [simp]:
  "memory (start_async_disk_operation i m) = memory m" "dev (start_async_disk_operation i m) = dev m"
  "bc (start_async_disk_operation i m) = bc m" "host (start_async_disk_operation i m) = host m"
  "gbus (start_async_disk_operation i m) = gbus m"
  "cpu_bus (cpus (start_async_disk_operation i m) k) = cpu_bus (cpus m k)"
  "cycle_count (cpus (start_async_disk_operation i m) k) = cycle_count (cpus m k)"
  "map op_head (pending_ops (start_async_disk_operation i m)) = i # map op_head (pending_ops m)"
  "op_completion (hd (pending_ops (start_async_disk_operation i m))) = cycle_count (cpus m 0) + 1000"
  "tl (pending_ops (start_async_disk_operation i m)) = pending_ops m"
  by (simp_all add: start_async_disk_operation_def Let_def case_prod_beta get_cpu_cycle_def)

lemma start_async_core [frame]:
  "core (cpus (start_async_disk_operation i m) k) = core (cpus m k)"
  "clint (cpus (start_async_disk_operation i m) k) = clint (cpus m k)"
  "g_uart (start_async_disk_operation i m) = g_uart m"
  by (simp_all add: start_async_disk_operation_def Let_def case_prod_beta frame)

text \<open>The entry of the available ring that the turn with counter \<open>p\<close> reads.\<close>

definition avail_entry :: "machine \<Rightarrow> u16 \<Rightarrow> u16" where
  "avail_entry m p = ucast (le_load (memory m)
     (d_avail_ring (dev m) + 4 + ucast (p mod d_queue_num (dev m)) * 2 - MEMORY_BASE) 2)"

text \<open>The available ring (flags, index, entries) lies in guest memory, and the queue has entries.\<close>

definition avail_in_ram :: "machine \<Rightarrow> bool" where
  "avail_in_ram m \<longleftrightarrow> d_queue_num (dev m) \<noteq> 0 \<and>
     ram_addr (d_avail_ring (dev m)) (4 + 2 * unat (d_queue_num (dev m)))"

lemma avail_addr_in_ram:
  assumes "avail_in_ram m"
  shows "ram_addr (d_avail_ring (dev m) + 4 + ucast (p mod d_queue_num (dev m)) * 2) 2"
    and "ram_addr (d_avail_ring (dev m) + 2) 2"
proof -
  let ?a = "d_avail_ring (dev m)" and ?q = "p mod d_queue_num (dev m)"
  have b: "unat MEMORY_BASE \<le> unat ?a" "unat ?a + (4 + 2 * unat (d_queue_num (dev m))) \<le> 0xC0000000"
    using assms by (simp_all add: avail_in_ram_def ram_addr_def word_le_nat_alt)
  have q: "unat ?q < unat (d_queue_num (dev m))"
    using assms by (simp add: avail_in_ram_def unat_mod unat_gt_0)
  have u: "unat (ucast ?q :: u64) = unat ?q" by (rule unat_ucast_16_64)
  have e: "unat (?a + 4 + ucast ?q * 2) = unat ?a + 4 + 2 * unat ?q"
    using b q by (simp add: unat_word_ariths u)
  have e2: "unat (?a + 2) = unat ?a + 2"
    using b by (simp add: unat_word_ariths)
  show "ram_addr (?a + 4 + ucast ?q * 2) 2"
    unfolding ram_addr_def word_le_nat_alt e using b q by simp
  show "ram_addr (?a + 2) 2"
    unfolding ram_addr_def word_le_nat_alt e2 using b by simp
qed

lemma process_queue_step_ram:
  assumes "avail_in_ram m" "cpu_bus (cpus m 0) = emu_bus"
  shows "process_queue_step p m =
    Inr ((start_async_disk_operation (avail_entry m p) m)\<lparr>prev_avail := p + 1\<rparr>)"
proof -
  have "d_queue_num (dev m) \<noteq> 0" using assms(1) by (simp add: avail_in_ram_def)
  with bus_read_ram [OF avail_addr_in_ram(1) [OF assms(1), of p], of m] show ?thesis
    by (simp add: process_queue_step_def Let_def assms(2) avail_entry_def)
qed

text \<open>The whole loop, for a ring in guest memory: one operation per entry, oldest last.\<close>

lemma process_queue_loop_ram:
  assumes "avail_in_ram m" "cpu_bus (cpus m 0) = emu_bus" "prev_avail m = p"
  shows "\<exists>m'. process_queue_loop l p m = Inr m' \<and> prev_avail m' = l \<and> memory m' = memory m \<and> dev m' = dev m \<and>
    map op_head (pending_ops m') =
      rev (map (\<lambda>k. avail_entry m (p + of_nat k)) [0..<unat (l - p)]) @ map op_head (pending_ops m)"
  using assms
proof (induction l p m rule: process_queue_loop.induct)
  case (1 l p m)
  show ?case
  proof (cases "p = l")
    case True
    with "1.prems" show ?thesis by (simp add: process_queue_loop.simps)
  next
    case False
    let ?m1 = "(start_async_disk_operation (avail_entry m p) m)\<lparr>prev_avail := p + 1\<rparr>"
    have st: "process_queue_step p m = Inr ?m1"
      by (rule process_queue_step_ram) (use "1.prems" in simp_all)
    have ent: "avail_entry ?m1 = avail_entry m" by (simp add: avail_entry_def fun_eq_iff)
    have "\<exists>m'. process_queue_loop l (p + 1) ?m1 = Inr m' \<and> prev_avail m' = l \<and> memory m' = memory ?m1 \<and>
        dev m' = dev ?m1 \<and> map op_head (pending_ops m') =
        rev (map (\<lambda>k. avail_entry ?m1 (p + 1 + of_nat k)) [0..<unat (l - (p + 1))]) @ map op_head (pending_ops ?m1)"
      by (rule "1.IH" [OF False]) (use "1.prems" in \<open>simp_all add: avail_in_ram_def\<close>)
    then obtain m' where m': "process_queue_loop l (p + 1) ?m1 = Inr m'" "prev_avail m' = l"
      "memory m' = memory m" "dev m' = dev m"
      "map op_head (pending_ops m') =
        rev (map (\<lambda>k. avail_entry m (p + 1 + of_nat k)) [0..<unat (l - (p + 1))]) @
        avail_entry m p # map op_head (pending_ops m)"
      unfolding ent by auto
    have "map (\<lambda>k. avail_entry m (p + of_nat k)) [0..<unat (l - p)] =
        avail_entry m p # map (\<lambda>k. avail_entry m (p + 1 + of_nat k)) [0..<unat (l - (p + 1))]"
      unfolding ring_distance [OF False]
      by (simp add: upt_conv_Cons map_Suc_upt [symmetric] comp_def add.assoc del: upt_Suc)
    with m' False st show ?thesis
      by (subst process_queue_loop.simps) simp
  qed
qed

section \<open>Properties\<close>

text \<open>
  C32. A notification with the ring in guest memory always returns (the loop cannot run on) and
  takes up every request the guest has published since the last one: one pending operation per
  ring entry, in ring order (the newest at the head of the list), with the private counter
  brought up to the published index; guest memory is only read.
\<close>

theorem process_queue_takes_all:
  assumes "d_queue_ready (dev m) \<noteq> 0" and "avail_in_ram m" and "cpu_bus (cpus m 0) = emu_bus"
  shows "\<exists>m'. virtio_mmio_write 0x050 0 m = Inr m' \<and> memory m' = memory m \<and>
    prev_avail m' = fst (get_avail_idx m) \<and>
    map op_head (pending_ops m') =
      rev (map (\<lambda>k. avail_entry m (prev_avail m + of_nat k))
             [0..<unat (fst (get_avail_idx m) - prev_avail m)]) @ map op_head (pending_ops m)"
proof -
  have r: "phys_read (d_avail_ring (dev m) + 2) 2 m =
      (le_load (memory m) (d_avail_ring (dev m) + 2 - MEMORY_BASE) 2, m)"
    by (rule phys_read_ram [OF avail_addr_in_ram(2) [OF assms(2)]]) simp_all
  then have "get_avail_idx m = (fst (get_avail_idx m), m)" by (simp add: get_avail_idx_def)
  then have "process_queue m = process_queue_loop (fst (get_avail_idx m)) (prev_avail m) m"
    using assms(1) by (simp add: process_queue_def case_prod_beta) (metis snd_conv)
  with process_queue_loop_ram [OF assms(2,3) refl, of "fst (get_avail_idx m)"] show ?thesis
    by (auto simp: virtio_mmio_write_def)
qed

definition two_requests :: machine where
  "two_requests = (upd_cpu 0 (\<lambda>c. c\<lparr>cpu_bus := emu_bus\<rparr>) blank)
     \<lparr>dev := zero_dev\<lparr>d_queue_num := 8, d_queue_ready := 1, d_avail_ring := 0x80001000\<rparr>,
      memory := (\<lambda>_. 0)(0x1002 := 2, 0x1004 := 3, 0x1006 := 5)\<rparr>"

lemma two_requests_simps:
  "d_avail_ring (dev two_requests) = 0x80001000" "d_queue_num (dev two_requests) = 8"
  "d_queue_ready (dev two_requests) = 1"
  "memory two_requests = (\<lambda>_. 0)(0x1002 := 2, 0x1004 := 3, 0x1006 := 5)"
  "cpu_bus (cpus two_requests 0) = emu_bus"
  "prev_avail two_requests = 0" "pending_ops two_requests = []"
  by (simp_all add: two_requests_def blank_def zero_machine_def)

theorem process_queue_takes_all_witness:
  "\<exists>m'. virtio_mmio_write 0x050 0 two_requests = Inr m' \<and> map op_head (pending_ops m') = [5, 3]"
proof -
  have a: "avail_in_ram two_requests"
    by (simp add: avail_in_ram_def ram_addr_def two_requests_simps)
  have "phys_read 0x80001002 2 two_requests =
      (le_load (memory two_requests) (0x80001002 - MEMORY_BASE) 2, two_requests)"
    by (rule phys_read_ram) (simp_all add: ram_addr_def)
  then have g: "fst (get_avail_idx two_requests) = 2"
    by (simp add: get_avail_idx_def two_requests_simps le_load_2)
  have e: "avail_entry two_requests 0 = 3" "avail_entry two_requests 1 = 5"
    unfolding avail_entry_def two_requests_simps by (simp_all add: le_load_2)
  from process_queue_takes_all [of two_requests] a
  show ?thesis
    unfolding g two_requests_simps by (auto simp: e upt_rec)
qed

end
