(* ===== verification/Bus.thy ===== *)
theory Bus
  imports Virtio
begin

text \<open>
  The writing half of the bus (\<open>bus_write\<close> of \<open>bus.c\<close>), the contract of guest memory behind
  the bus, and the properties of routing.
\<close>

fun device_write :: "device \<Rightarrow> u64 \<Rightarrow> u64 \<Rightarrow> nat \<Rightarrow> machine \<Rightarrow> machine res" where
  "device_write Dev_RAM offset val sz m = ram_write offset val sz m"
| "device_write Dev_UART offset val sz m = mmio_write offset (ucast val) m"
| "device_write Dev_PLIC offset val sz m = Inr (plic_write offset val m)"
| "device_write Dev_VIRTIO offset val sz m = virtio_mmio_write offset val m"
| "device_write Dev_CLINT offset val sz m = Inr (clint_write 0 offset val sz m)"

definition bus_write :: "Bus \<Rightarrow> u64 \<Rightarrow> u64 \<Rightarrow> nat \<Rightarrow> machine \<Rightarrow> machine res" where
  "bus_write bus addr val sz m =
     (case find (in_region addr) (regions bus) of
        Some r \<Rightarrow> device_write (r_dev r) (addr - r_base r) val sz m
      | None \<Rightarrow>
          (if MEMORY_BASE \<le> addr \<and> addr + of_nat sz - 1 < MEMORY_BASE + MEMORY_SIZE
           then block_store (addr - MEMORY_BASE) val sz m
           else Inr (upd_cpu 0 (\<lambda>c. c\<lparr>halted := True\<rparr>) m)))"

section \<open>Lemmas\<close>

lemma bus_write_ram:
  "ram_addr a n \<Longrightarrow> 0 < n \<Longrightarrow> n \<le> 8 \<Longrightarrow>
   bus_write emu_bus a v n m = Inr (le_store poke (a - MEMORY_BASE) v n m)"
  by (simp add: bus_write_def find_ram ram_write_in_ram ram_addr_offset)

text \<open>What a write through the bus leaves alone: the cores of all harts, and all timers but that of hart 0.\<close>

lemma process_queue_step_core:
  "process_queue_step p m = Inr m' \<Longrightarrow> core (cpus m' k) = core (cpus m k) \<and> clint (cpus m' k) = clint (cpus m k)"
  by (auto simp: process_queue_step_def Let_def rbind_Inr_iff frame split: if_splits dest: bus_read_frame)

lemma process_queue_loop_core:
  "process_queue_loop l p m = Inr m' \<Longrightarrow> core (cpus m' k) = core (cpus m k) \<and> clint (cpus m' k) = clint (cpus m k)"
proof (induction l p m arbitrary: m' rule: process_queue_loop.induct)
  case (1 l p m)
  show ?case
  proof (cases "p = l")
    case True
    with "1.prems" show ?thesis by (simp add: process_queue_loop.simps)
  next
    case False
    with "1.prems" obtain m1 where "process_queue_step p m = Inr m1" "process_queue_loop l (p + 1) m1 = Inr m'"
      by (subst (asm) process_queue_loop.simps) (auto simp: rbind_Inr_iff)
    with "1.IH" [OF False] process_queue_step_core show ?thesis by metis
  qed
qed

lemma get_avail_idx_core [frame]:
  "core (cpus (snd (get_avail_idx m)) k) = core (cpus m k)"
  "clint (cpus (snd (get_avail_idx m)) k) = clint (cpus m k)"
  "g_uart (snd (get_avail_idx m)) = g_uart m"
  by (simp_all add: get_avail_idx_def case_prod_beta frame)

lemma virtio_mmio_write_core:
  assumes "virtio_mmio_write off v m = Inr m'"
  shows "core (cpus m' k) = core (cpus m k) \<and> clint (cpus m' k) = clint (cpus m k)"
proof (cases "off = 0x050 \<and> v = 0 \<and> d_queue_ready (dev m) \<noteq> 0")
  case True
  with assms obtain l n where "get_avail_idx m = (l, n)" "process_queue_loop l (prev_avail n) n = Inr m'"
    by (cases "get_avail_idx m") (auto simp: virtio_mmio_write_def process_queue_def)
  with process_queue_loop_core [of l _ n m' k] get_avail_idx_core(1,2) [of m k] show ?thesis by simp
next
  case False
  with assms show ?thesis
    by (auto simp: virtio_mmio_write_def process_queue_def Let_def split: if_splits)
qed

lemma device_write_core:
  assumes "device_write d off v n m = Inr m'"
  shows "core (cpus m' k) = core (cpus m k) \<and> (d \<noteq> Dev_CLINT \<longrightarrow> clint (cpus m' k) = clint (cpus m k))"
  using assms mmio_write_frame [of off "ucast v" m m' k] virtio_mmio_write_core [of off v m m' k]
  by (cases d) (auto simp: frame ram_write_frame)

lemma bus_write_core:
  assumes "bus_write b a v n m = Inr m'"
  shows "core (cpus m' k) = core (cpus m k)"
  using assms
  by (auto simp: bus_write_def block_store_frame frame split: option.splits if_splits dest: device_write_core)

text \<open>On the layout of \<open>main\<close> no write reaches a register of the timer.\<close>

lemma emu_bus_write_clint:
  assumes "bus_write emu_bus a v n m = Inr m'"
  shows "clint (cpus m' k) = clint (cpus m k)"
proof (cases "find (in_region a) (regions emu_bus)")
  case None
  with assms show ?thesis by (auto simp: bus_write_def block_store_frame frame split: if_splits)
next
  case (Some r)
  then have r: "r \<in> set (regions emu_bus)" "in_region a r" by (auto simp: find_Some_iff)
  show ?thesis
  proof (cases "r_dev r = Dev_CLINT")
    case True
    with r have "a - r_base r < CLINT_SIZE"
      by (auto simp: emu_bus_def in_region_def word_less_nat_alt word_le_nat_alt unat_sub)
    with True assms Some show ?thesis by (simp add: bus_write_def clint_offset_dead)
  next
    case False
    with assms Some show ?thesis using device_write_core [of "r_dev r"] by (auto simp: bus_write_def)
  qed
qed

section \<open>Guest memory behind the bus\<close>

text \<open>\<open>for (i = 0; i < n; i++) store(a + i, d(i), 1)\<close>\<close>

fun store_bytes :: "(u64 \<Rightarrow> u64 \<Rightarrow> nat \<Rightarrow> 's \<Rightarrow> 's res) \<Rightarrow> u64 \<Rightarrow> (nat \<Rightarrow> u8) \<Rightarrow> nat \<Rightarrow> 's \<Rightarrow> 's res" where
  "store_bytes st a d 0 s = Inr s"
| "store_bytes st a d (Suc n) s =
     rbind (store_bytes st a d n s) (\<lambda>s. st (a + of_nat n) (ucast (d n)) 1 s)"

text \<open>
  What the processor and the disk rely on when they access guest memory: an access of a range in
  \<open>ok\<close> succeeds, a load changes nothing and sees the last store to its range, and stores
  elsewhere do not matter.
\<close>

locale ram_port =
  fixes ld :: "u64 \<Rightarrow> nat \<Rightarrow> 's \<Rightarrow> (u64 \<times> 's) res"
    and st :: "u64 \<Rightarrow> u64 \<Rightarrow> nat \<Rightarrow> 's \<Rightarrow> 's res"
    and ok :: "u64 \<Rightarrow> nat \<Rightarrow> bool"
  assumes ld_ok: "ok a n \<Longrightarrow> \<exists>v. ld a n s = Inr (v, s)"
    and st_ok: "ok a n \<Longrightarrow> \<exists>s'. st a v n s = Inr s'"
    and ld_st: "ok a n \<Longrightarrow> st a v n s = Inr s' \<Longrightarrow> ld a n s' = Inr (take_bit (8 * n) v, s')"
    and ld_st_other: "ok a n \<Longrightarrow> ok b k \<Longrightarrow> unat a + n \<le> unat b \<or> unat b + k \<le> unat a \<Longrightarrow>
      st a v n s = Inr s' \<Longrightarrow> ld b k s = Inr (w, s) \<Longrightarrow> ld b k s' = Inr (w, s')"
    and ok_no_wrap: "ok a n \<Longrightarrow> unat a + n < 2 ^ 64"
begin

lemma st_then_ld: "ok a n \<Longrightarrow> \<exists>s'. st a v n s = Inr s' \<and> ld a n s' = Inr (take_bit (8 * n) v, s')"
  using st_ok ld_st by blast

lemma store_bytes_ok:
  "(\<And>i. i < n \<Longrightarrow> ok (a + of_nat i) 1) \<Longrightarrow> \<exists>s'. store_bytes st a d n s = Inr s'"
proof (induction n)
  case (Suc n)
  then obtain s1 where "store_bytes st a d n s = Inr s1" by force
  moreover have "\<exists>s'. st (a + of_nat n) (ucast (d n)) 1 s1 = Inr s'"
    by (rule st_ok) (use Suc.prems in simp)
  ultimately show ?case by auto
qed simp

text \<open>After the loop every byte of the range is the one stored there.\<close>

lemma store_bytes_ld:
  assumes "\<And>i. i < n \<Longrightarrow> ok (a + of_nat i) 1 \<and> unat (a + of_nat i) = unat a + i"
    and "store_bytes st a d n s = Inr s'" and "i < n"
  shows "ld (a + of_nat i) 1 s' = Inr (ucast (d i), s')"
  using assms
proof (induction n arbitrary: s')
  case (Suc n)
  then obtain s1 where s1: "store_bytes st a d n s = Inr s1"
    "st (a + of_nat n) (ucast (d n)) 1 s1 = Inr s'"
    by (auto simp: rbind_Inr_iff)
  have okn: "ok (a + of_nat n) 1" using Suc.prems(1) by blast
  show ?case
  proof (cases "i = n")
    case True
    have "take_bit 8 (ucast (d n) :: u64) = ucast (d n)" by (rule bit_word_eqI) (auto simp: bit_simps dest: bit_imp_le_length)
    with True ld_st [OF okn s1(2)] show ?thesis by simp
  next
    case False
    with Suc.prems have i: "i < n" by simp
    have u: "unat (a + of_nat i) = unat a + i" "unat (a + of_nat n) = unat a + n"
      using Suc.prems(1) i by auto
    have "ld (a + of_nat i) 1 s1 = Inr (ucast (d i), s1)"
      using Suc.IH [OF _ s1(1) i] Suc.prems(1) by simp
    moreover have "ok (a + of_nat i) 1" using Suc.prems(1) i by simp
    ultimately show ?thesis using ld_st_other [OF okn _ _ s1(2)] i u by simp
  qed
qed simp

end

definition ram_range :: "u64 \<Rightarrow> nat \<Rightarrow> bool" where
  "ram_range a n \<longleftrightarrow> 0 < n \<and> n \<le> 8 \<and> ram_addr a n"

lemma ram_range_disjoint:
  assumes "ram_range a n" "ram_range b k" "unat a + n \<le> unat b \<or> unat b + k \<le> unat a"
    and "i < n" "j < k"
  shows "b - MEMORY_BASE + of_nat j \<noteq> a - MEMORY_BASE + of_nat i"
proof (rule disjoint_offsets [of _ n _ k])
  show "in_ram (a - MEMORY_BASE) n" "in_ram (b - MEMORY_BASE) k"
    using assms by (simp_all add: ram_range_def ram_addr_offset)
  have "unat (a - MEMORY_BASE) = unat a - unat MEMORY_BASE" "unat (b - MEMORY_BASE) = unat b - unat MEMORY_BASE"
    using assms by (simp_all add: ram_range_def ram_addr_def unat_sub)
  then show "unat (a - MEMORY_BASE) + n \<le> unat (b - MEMORY_BASE) \<or> unat (b - MEMORY_BASE) + k \<le> unat (a - MEMORY_BASE)"
    using assms by (auto simp: ram_range_def ram_addr_def word_le_nat_alt)
qed (use assms in auto)

interpretation guest_ram: ram_port "bus_read emu_bus" "bus_write emu_bus" ram_range
proof
  fix a b :: u64 and n k and v w :: u64 and m m' :: machine
  show "\<exists>v. bus_read emu_bus a n m = Inr (v, m)" if "ram_range a n"
    using that by (simp add: ram_range_def bus_read_ram)
  show "\<exists>m'. bus_write emu_bus a v n m = Inr m'" if "ram_range a n"
    using that by (simp add: ram_range_def bus_write_ram)
  show "bus_read emu_bus a n m' = Inr (take_bit (8 * n) v, m')"
    if "ram_range a n" "bus_write emu_bus a v n m = Inr m'"
    using that by (auto simp: ram_range_def bus_read_ram bus_write_ram host_mem.load_after_store)
  show "bus_read emu_bus b k m' = Inr (w, m')"
    if "ram_range a n" "ram_range b k" "unat a + n \<le> unat b \<or> unat b + k \<le> unat a"
      "bus_write emu_bus a v n m = Inr m'" "bus_read emu_bus b k m = Inr (w, m)"
    using that host_mem.load_after_disjoint_store [of n k "b - MEMORY_BASE" "a - MEMORY_BASE" v m]
      ram_range_disjoint [of a n b k]
    by (auto simp: ram_range_def bus_read_ram bus_write_ram)
  show "unat a + n < 2 ^ 64" if "ram_range a n"
    using that by (simp add: ram_range_def ram_addr_def)
qed

section \<open>Properties\<close>

text \<open>
  C29. On the bus that \<open>main\<close> builds every address belongs to at most one device, and a read
  or write in a device's region is handed to that device with the offset inside the region.
  Consequently the timer registers cannot be reached: \<open>clint_read\<close> and \<open>clint_write\<close> subtract
  the base address a second time, so every read in the region yields 0 and every write is lost.
\<close>

theorem bus_routing:
  "(\<forall>r\<in>set (regions emu_bus). in_region a r \<longrightarrow>
      bus_read emu_bus a n m = device_read (r_dev r) (a - r_base r) n m \<and>
      bus_write emu_bus a v n m = device_write (r_dev r) (a - r_base r) v n m) \<and>
   (CLINT_BASE_ADDR \<le> a \<longrightarrow> a < CLINT_BASE_ADDR + CLINT_SIZE \<longrightarrow>
      bus_read emu_bus a n m = Inr (0, m) \<and> bus_write emu_bus a v n m = Inr m)"
proof (intro conjI ballI impI)
  fix r assume "r \<in> set (regions emu_bus)" "in_region a r"
  from find_device [OF this]
  show "bus_read emu_bus a n m = device_read (r_dev r) (a - r_base r) n m"
    and "bus_write emu_bus a v n m = device_write (r_dev r) (a - r_base r) v n m"
    by (simp_all add: bus_read_def bus_write_def)
next
  let ?r = "\<lparr>r_base = CLINT_BASE_ADDR, r_size = CLINT_SIZE, r_dev = Dev_CLINT\<rparr>"
  assume a: "CLINT_BASE_ADDR \<le> a" "a < CLINT_BASE_ADDR + CLINT_SIZE"
  then have f: "find (in_region a) (regions emu_bus) = Some ?r"
    by (intro find_device) (simp_all add: emu_bus_def in_region_def)
  have "a - CLINT_BASE_ADDR < CLINT_SIZE"
    using a by (simp add: word_less_nat_alt word_le_nat_alt unat_sub)
  from f clint_offset_dead [OF this]
  show "bus_read emu_bus a n m = Inr (0, m)" and "bus_write emu_bus a v n m = Inr m"
    by (simp_all add: bus_read_def bus_write_def)
qed

theorem bus_routing_witness:
  "bus_write emu_bus 0x02004000 77 8 blank = Inr blank \<and> bus_read emu_bus 0x0200BFF8 8 blank = Inr (0, blank)"
  using bus_routing [of "0x02004000" 8 blank 77] bus_routing [of "0x0200BFF8" 8 blank 0] by simp

text \<open>
  C30. Guest memory behaves as memory through the bus: a store of 1 to 8 bytes inside it
  succeeds, the load of the same range returns the stored bytes, and loads of ranges that do not
  overlap are unaffected; registers, program counter and translation state of every hart and
  all other devices are untouched by the store.
\<close>

theorem bus_memory:
  assumes "0 < n" "n \<le> 8" "ram_addr a n"
  shows "\<exists>m'. bus_write emu_bus a v n m = Inr m' \<and>
    bus_read emu_bus a n m' = Inr (take_bit (8 * n) v, m') \<and>
    (\<forall>b k w. 0 < k \<longrightarrow> k \<le> 8 \<longrightarrow> ram_addr b k \<longrightarrow> unat a + n \<le> unat b \<or> unat b + k \<le> unat a \<longrightarrow>
       bus_read emu_bus b k m = Inr (w, m) \<longrightarrow> bus_read emu_bus b k m' = Inr (w, m')) \<and>
    cpus m' = cpus m \<and> g_plic m' = g_plic m \<and> g_uart m' = g_uart m \<and> dev m' = dev m"
proof -
  have r: "ram_range a n" using assms by (simp add: ram_range_def)
  from guest_ram.st_then_ld [OF this, of v m] obtain m' where
    m': "bus_write emu_bus a v n m = Inr m'" "bus_read emu_bus a n m' = Inr (take_bit (8 * n) v, m')" by blast
  moreover have "\<forall>b k w. 0 < k \<longrightarrow> k \<le> 8 \<longrightarrow> ram_addr b k \<longrightarrow> unat a + n \<le> unat b \<or> unat b + k \<le> unat a \<longrightarrow>
       bus_read emu_bus b k m = Inr (w, m) \<longrightarrow> bus_read emu_bus b k m' = Inr (w, m')"
    using guest_ram.ld_st_other [OF r _ _ m'(1)] by (auto simp: ram_range_def)
  moreover have "cpus m' = cpus m" "g_plic m' = g_plic m" "g_uart m' = g_uart m" "dev m' = dev m"
    using m'(1) assms by (auto simp: bus_write_ram frame)
  ultimately show ?thesis by blast
qed

theorem bus_memory_witness:
  "\<exists>m'. bus_write emu_bus 0x80001000 0x1234 2 blank = Inr m' \<and> bus_read emu_bus 0x80001000 2 m' = Inr (0x1234, m')"
proof -
  have "take_bit (8 * 2) (0x1234 :: u64) = 0x1234" by (simp add: take_bit_eq_mod)
  then show ?thesis
    using bus_memory [of 2 "0x80001000" "0x1234" blank] by (auto simp: ram_addr_def)
qed

end
