(* ===== verification/Mmu.thy ===== *)
theory Mmu
  imports Bus
begin

text \<open>
  Address translation (\<open>mmu.c\<close>): the translation cache with its lookup, permission check,
  insertion and flush, the Sv39 page-table walk, and \<open>get_pa\<close>, which the processor and the disk
  call for every access. The functions work on the hart \<open>h\<close>; page-table entries are read through
  that hart's bus. The result codes of the C functions become constructors: \<open>TLB_OK\<close> carries
  the address that C stores through \<open>pa\<close>, and \<open>None\<close> of the walk stands for \<open>MMU_FAULT_PAGE\<close>,
  the only failure it reports.
\<close>

datatype TLBResult = TLB_OK u64 | TLB_MISS | TLB_FAULT

abbreviation (input) FAULT_INST_PAGE :: u8 where "FAULT_INST_PAGE \<equiv> 1"
abbreviation (input) FAULT_LOAD_PAGE :: u8 where "FAULT_LOAD_PAGE \<equiv> 2"
abbreviation (input) FAULT_STORE_PAGE :: u8 where "FAULT_STORE_PAGE \<equiv> 3"

definition handle_fault :: "u64 \<Rightarrow> acc \<Rightarrow> CPU_State \<Rightarrow> CPU_State" where
  "handle_fault va acc c = c\<lparr>mem_fault := \<lparr>f_valid = 1, f_acc_type = acc_code acc,
     f_cause = (case acc of ACC_FETCH \<Rightarrow> FAULT_INST_PAGE | ACC_LOAD \<Rightarrow> FAULT_LOAD_PAGE
                | ACC_STORE \<Rightarrow> FAULT_STORE_PAGE),
     f_vaddr = va\<rparr>\<rparr>"

section \<open>Physical access\<close>

definition phys_ok :: "u64 \<Rightarrow> u64 \<Rightarrow> bool" where
  "phys_ok pa len \<longleftrightarrow> \<not> MEMORY_BASE + MEMORY_SIZE < pa + len"

text \<open>
  The 32-bit accessors index \<open>cpu->mem\<close> by the address itself, so an address that passes
  \<open>phys_ok\<close> can lie outside the block. The four bytes are combined as \<open>int\<close>.
\<close>

definition phys_read_u32 :: "u64 \<Rightarrow> machine \<Rightarrow> u64 res" where
  "phys_read_u32 pa m =
     (if \<not> phys_ok pa 4 then Inr 0
      else if \<not> in_ram pa 4 then Inl OutOfBounds
      else Inr (sext32 (le_load (memory m) pa 4)))"

definition phys_write_u32 :: "u64 \<Rightarrow> u64 \<Rightarrow> machine \<Rightarrow> machine res" where
  "phys_write_u32 pa v m =
     (if \<not> phys_ok pa 4 then Inr m
      else if \<not> in_ram pa 4 then Inl OutOfBounds
      else Inr (le_store poke pa v 4 m))"

definition phys_atomic_or_u32 :: "u64 \<Rightarrow> u64 \<Rightarrow> machine \<Rightarrow> machine res" where
  "phys_atomic_or_u32 pa mk m =
     rbind (phys_read_u32 pa m) (\<lambda>old. let nw = old OR mk in
       if nw \<noteq> old then phys_write_u32 pa nw m else Inr m)"

definition phys_read_u64 :: "nat \<Rightarrow> u64 \<Rightarrow> machine \<Rightarrow> (u64 \<times> machine) res" where
  "phys_read_u64 h pa m = bus_read (cpu_bus (cpus m h)) pa 8 m"

fun write_times :: "nat \<Rightarrow> Bus \<Rightarrow> u64 \<Rightarrow> u64 \<Rightarrow> machine \<Rightarrow> machine res" where
  "write_times 0 b pa v m = Inr m"
| "write_times (Suc n) b pa v m = rbind (bus_write b pa v 8 m) (write_times n b pa v)"

definition phys_atomic_or_u64 :: "nat \<Rightarrow> u64 \<Rightarrow> u64 \<Rightarrow> machine \<Rightarrow> machine res" where
  "phys_atomic_or_u64 h pa mk m =
     rbind (bus_read (cpu_bus (cpus m h)) pa 8 m) (\<lambda>(old, m). let nw = old OR mk in
       if nw \<noteq> old then write_times 8 (cpu_bus (cpus m h)) pa nw m else Inr m)"

section \<open>The translation cache\<close>

text \<open>\<open>None\<close> is \<open>TLB_FAULT\<close>; otherwise the entry with its accessed and dirty bits set.\<close>

definition tlb_check :: "CPU_State \<Rightarrow> acc \<Rightarrow> TLBEntry \<Rightarrow> TLBEntry option" where
  "tlb_check c acc e =
     (let fl = (ucast (e_flags e) :: u64) in
      if fl AND PTE_V = 0 then None
      else if privilege c = 0 \<and> fl AND PTE_U = 0 then None
      else if privilege c = 1 \<and> sum c = 0 \<and> fl AND PTE_U \<noteq> 0 then None
      else if acc = ACC_FETCH \<and> fl AND PTE_X = 0 then None
      else if acc = ACC_FETCH \<and> privilege c = 0 \<and> fl AND PTE_U = 0 then None
      else if acc = ACC_LOAD \<and> fl AND PTE_R = 0 \<and> (mxr c = 0 \<or> fl AND PTE_X = 0) then None
      else if acc = ACC_STORE \<and> fl AND PTE_W = 0 then None
      else (let fl = (if fl AND PTE_A = 0 then fl OR PTE_A else fl);
                fl = (if acc = ACC_STORE \<and> fl AND PTE_D = 0 then fl OR PTE_D else fl)
            in Some (e\<lparr>e_flags := ucast fl\<rparr>)))"

definition set_entry :: "nat \<Rightarrow> TLBEntry \<Rightarrow> CPU_State \<Rightarrow> CPU_State" where
  "set_entry i e c = c\<lparr>tlb := (tlb c)\<lparr>entries := (entries (tlb c))(i := e)\<rparr>\<rparr>"

definition tlb_match :: "u64 \<Rightarrow> u64 \<Rightarrow> TLBEntry \<Rightarrow> bool" where
  "tlb_match vpn match_tag e \<longleftrightarrow>
     (if \<not> e_valid e then False
      else if e_global e then e_tag e AND 0x3FFFFFF = vpn
      else e_tag e = match_tag)"

definition vpn26 :: "u64 \<Rightarrow> u64" where
  "vpn26 va = drop_bit 12 va AND 0x3FFFFFF"

definition make_tag :: "u64 \<Rightarrow> u16 \<Rightarrow> u64" where
  "make_tag vpn aid = vpn OR push_bit 26 (ucast aid)"

definition tlb_lookup :: "u64 \<Rightarrow> acc \<Rightarrow> u16 \<Rightarrow> CPU_State \<Rightarrow> TLBResult \<times> CPU_State" where
  "tlb_lookup va acc aid c =
     (let vpn = vpn26 va; page_off = va AND 0xFFF; match_tag = make_tag vpn aid in
      case find (\<lambda>i. tlb_match vpn match_tag (entries (tlb c) i)) [0..<TLB_SIZE] of
        None \<Rightarrow> (TLB_MISS, c)
      | Some i \<Rightarrow>
          (let e = (entries (tlb c) i)\<lparr>e_last_used := tlb_cnt c\<rparr>;
               c = c\<lparr>tlb_cnt := tlb_cnt c + 1\<rparr>
           in case tlb_check c acc e of
                None \<Rightarrow> (TLB_FAULT, set_entry i e c)
              | Some e' \<Rightarrow> (TLB_OK (push_bit 12 (e_ppn e') OR page_off), set_entry i e' c)))"

text \<open>
  The choice of the entry to replace: the first invalid one among 1 to 63, otherwise the least
  recently used. Entry 0 is the initial candidate, valid or not.
\<close>

fun tlb_victim :: "(nat \<Rightarrow> TLBEntry) \<Rightarrow> nat list \<Rightarrow> nat \<Rightarrow> u64 \<Rightarrow> nat" where
  "tlb_victim es [] replace_idx min_used = replace_idx"
| "tlb_victim es (i # is) replace_idx min_used =
     (if \<not> e_valid (es i) then i
      else if e_last_used (es i) < min_used then tlb_victim es is i (e_last_used (es i))
      else tlb_victim es is replace_idx min_used)"

text \<open>\<open>if (pte & b) entry->flags |= b\<close>, for the seven bits the entry keeps.\<close>

definition copy_flag :: "u64 \<Rightarrow> u64 \<Rightarrow> u8 \<Rightarrow> u8" where
  "copy_flag pte b f = (if pte AND b \<noteq> 0 then f OR ucast b else f)"

definition pte_flags :: "u64 \<Rightarrow> u8" where
  "pte_flags pte = copy_flag pte 0x80 (copy_flag pte 0x40 (copy_flag pte 0x10 (copy_flag pte 0x8
     (copy_flag pte 0x4 (copy_flag pte 0x2 (copy_flag pte 0x1 0))))))"

definition tlb_entry :: "u64 \<Rightarrow> u64 \<Rightarrow> u16 \<Rightarrow> u64 \<Rightarrow> TLBEntry" where
  "tlb_entry va pte aid now =
     (let vpn = vpn26 va; glob = drop_bit 5 pte AND 1 \<noteq> 0 in
      \<lparr>e_tag = (if glob then vpn else make_tag vpn aid),
       e_ppn = drop_bit 10 pte AND 0xFFFFFFFFFFF,
       e_flags = pte_flags pte, e_valid = True, e_global = glob,
       e_asid = ucast aid, e_last_used = now\<rparr>)"

definition tlb_insert :: "u64 \<Rightarrow> u64 \<Rightarrow> u16 \<Rightarrow> CPU_State \<Rightarrow> CPU_State" where
  "tlb_insert va pte aid c =
     (let es = entries (tlb c);
          i = tlb_victim es [1..<TLB_SIZE] 0 (e_last_used (es 0))
      in (set_entry i (tlb_entry va pte aid (tlb_cnt c)) c)\<lparr>tlb_cnt := tlb_cnt c + 1\<rparr>)"

definition tlb_flush :: "CPU_State \<Rightarrow> CPU_State" where
  "tlb_flush c = c\<lparr>tlb := \<lparr>entries = (\<lambda>i. if i < TLB_SIZE then (entries (tlb c) i)\<lparr>e_valid := False\<rparr>
     else entries (tlb c) i), next_replace = 0\<rparr>\<rparr>"

definition csr_write_satp :: "u64 \<Rightarrow> CPU_State \<Rightarrow> CPU_State" where
  "csr_write_satp value c = c\<lparr>satp := value, asid := ucast (drop_bit 22 value AND 0x3FF)\<rparr>"

section \<open>The page-table walk\<close>

text \<open>The checks on a leaf entry, in the order of the code; \<open>i\<close> is the level.\<close>

definition leaf_ok :: "CPU_State \<Rightarrow> acc \<Rightarrow> nat \<Rightarrow> u64 \<Rightarrow> bool" where
  "leaf_ok c acc i pte =
     (if privilege c = 0 \<and> pte AND PTE_U = 0 then False
      else if privilege c = 1 \<and> pte AND PTE_U \<noteq> 0 \<and> sum c = 0 then False
      else if privilege c = 1 \<and> pte AND PTE_U \<noteq> 0 \<and> acc = ACC_FETCH then False
      else if acc = ACC_LOAD \<and> pte AND PTE_R = 0 \<and> \<not> (mxr c \<noteq> 0 \<and> pte AND PTE_X \<noteq> 0) then False
      else if acc = ACC_FETCH \<and> pte AND PTE_X = 0 then False
      else if acc = ACC_STORE \<and> pte AND PTE_W = 0 then False
      else (let ppn = drop_bit 10 pte AND mask 44 in
        if i = 2 \<and> ppn AND mask 18 \<noteq> 0 then False
        else if i = 1 \<and> ppn AND mask 9 \<noteq> 0 then False
        else True))"

text \<open>\<open>(1 << 44) - 1\<close> is an \<open>int\<close> expression, converted to 64 bits by sign extension.\<close>

definition ppn_mask :: "machine \<Rightarrow> u64" where
  "ppn_mask m = scast (h_shl44 (host m) - 1)"

definition leaf_pa :: "machine \<Rightarrow> u64 \<Rightarrow> nat \<Rightarrow> u64 \<Rightarrow> u64" where
  "leaf_pa m va i pte =
     (if i = 0 then push_bit 12 (drop_bit 10 pte AND ppn_mask m) OR (va AND 0xFFF) else 0)"

definition vpn_part :: "u64 \<Rightarrow> nat \<Rightarrow> u64" where
  "vpn_part va i = (if i = 2 then drop_bit 30 va AND 0x1FF
     else if i = 1 then drop_bit 21 va AND 0x1FF else drop_bit 12 va AND 0x1FF)"

fun sv39_walk :: "nat \<Rightarrow> u64 \<Rightarrow> acc \<Rightarrow> nat \<Rightarrow> u64 \<Rightarrow> machine \<Rightarrow> (u64 option \<times> machine) res" where
  "sv39_walk h va acc i table_addr m =
     rbind (phys_read_u64 h (vpn_part va i * 8 + table_addr) m) (\<lambda>(pte, m).
       if pte AND PTE_V = 0 then Inr (None, m)
       else if pte AND PTE_W \<noteq> 0 \<and> pte AND PTE_R = 0 then Inr (None, m)
       else if \<not> (pte AND PTE_R \<noteq> 0 \<or> pte AND PTE_X \<noteq> 0 \<or> pte AND PTE_W \<noteq> 0) then
         (case i of 0 \<Rightarrow> Inr (None, m)
          | Suc i' \<Rightarrow> sv39_walk h va acc i' (push_bit 12 (drop_bit 10 pte AND ppn_mask m)) m)
       else if \<not> leaf_ok (cpus m h) acc i pte then Inr (None, m)
       else (let pa = leaf_pa m va i pte in
         if \<not> phys_ok pa 1 then Inr (None, m)
         else Inr (Some pa, upd_cpu h (tlb_insert va pte (asid (cpus m h))) m)))"

definition sv39_translate :: "nat \<Rightarrow> u64 \<Rightarrow> acc \<Rightarrow> machine \<Rightarrow> (u64 option \<times> machine) res" where
  "sv39_translate h va acc m =
     (let m = upd_cpu h (\<lambda>c. c\<lparr>satp := csr c CSR_SATP\<rparr>) m; root = satp (cpus m h) in
      if drop_bit 60 root \<noteq> 8 then Inr (Some va, m)
      else sv39_walk h va acc 2 (push_bit 12 (root AND mask 44)) m)"

definition get_pa :: "nat \<Rightarrow> u64 \<Rightarrow> acc \<Rightarrow> machine \<Rightarrow> (u64 \<times> machine) res" where
  "get_pa h vaddr acc m =
     (if drop_bit 60 (csr (cpus m h) CSR_SATP) AND 0xF = 0 then Inr (vaddr, m)
      else
        (case tlb_lookup vaddr acc (asid (cpus m h)) (cpus m h) of
           (TLB_OK pa, c) \<Rightarrow> Inr (pa, upd_cpu h (\<lambda>_. c) m)
         | (TLB_FAULT, c) \<Rightarrow> Inr (0, upd_cpu h (\<lambda>_. handle_fault vaddr acc c) m)
         | (TLB_MISS, c) \<Rightarrow>
             rbind (sv39_translate h vaddr acc (upd_cpu h (\<lambda>_. c) m)) (\<lambda>(r, m).
               case r of Some pa \<Rightarrow> Inr (pa, m)
               | None \<Rightarrow> Inr (0, upd_cpu h (handle_fault vaddr acc) m))))"

text \<open>\<open>init_page_table\<close>: a two-level table for the first pages of RAM, with 32-bit entries.\<close>

definition init_page_table :: "nat \<Rightarrow> machine \<Rightarrow> machine res" where
  "init_page_table h m =
     (let m = upd_cpu h (\<lambda>c. c\<lparr>asid := 1, satp := ucast (0x80000000 OR push_bit 22 1 OR 0x90000 :: u32)\<rparr>) m;
          l1_tsa = push_bit 12 (satp (cpus m h) AND mask 22);
          va = 0x7fff0000;
          l0_tsa = scast (push_bit 12 0xA0000 :: u32);
          vpn_i1 = drop_bit 22 va AND mask 10;
          vpn_i0 = drop_bit 12 va AND mask 10;
          pte_addr1 = l1_tsa + vpn_i1 * 4;
          pte_addr0 = l0_tsa + vpn_i0 * 4
      in rbind (phys_write_u32 pte_addr1 0x28000031 m) (\<lambda>m.
         rbind (phys_write_u32 pte_addr0 0x2000001F m) (\<lambda>m.
         rbind (phys_write_u32 0xA0000FC4 0x2000101F m) (phys_write_u32 0xA0000FC8 0x2000200F))))"

declare sv39_walk.simps [simp del]

section \<open>Permissions\<close>

text \<open>
  What an access needs from the low bits of an entry, given as the function \<open>b\<close> from bit
  positions. Both the cache and the walk enforce it; the walk in addition refuses a supervisor
  fetch from a user page whatever \<open>SUM\<close> says.
\<close>

definition perm_ok :: "CPU_State \<Rightarrow> acc \<Rightarrow> (nat \<Rightarrow> bool) \<Rightarrow> bool" where
  "perm_ok c acc b \<longleftrightarrow> b 0 \<and> (privilege c = 0 \<longrightarrow> b 4) \<and> (privilege c = 1 \<longrightarrow> b 4 \<longrightarrow> sum c \<noteq> 0) \<and>
     (case acc of ACC_FETCH \<Rightarrow> b 3 | ACC_LOAD \<Rightarrow> b 1 \<or> mxr c \<noteq> 0 \<and> b 3 | ACC_STORE \<Rightarrow> b 2)"

lemma perm_ok_cong:
  "(\<And>k. k < 5 \<Longrightarrow> b k = b' k) \<Longrightarrow> perm_ok c acc b = perm_ok c acc b'"
  by (simp add: perm_ok_def split: acc.split)

lemma tlb_check_perm: "tlb_check c acc e \<noteq> None \<longleftrightarrow> perm_ok c acc (bit (e_flags e))"
  by (cases acc) (auto simp: tlb_check_def perm_ok_def masks Let_def bit_simps)

lemma tlb_check_entry:
  assumes "tlb_check c acc e = Some e'"
  shows "e_tag e' = e_tag e" "e_ppn e' = e_ppn e" "e_valid e' = e_valid e" "e_global e' = e_global e"
    and "k < 5 \<Longrightarrow> bit (e_flags e') k = bit (e_flags e) k"
proof -
  define fl where "fl = (ucast (e_flags e) :: u64)"
  define f1 where "f1 = (if fl AND PTE_A = 0 then fl OR PTE_A else fl)"
  define f2 where "f2 = (if acc = ACC_STORE \<and> f1 AND PTE_D = 0 then f1 OR PTE_D else f1)"
  have e': "e' = e\<lparr>e_flags := ucast f2\<rparr>"
    using assms unfolding tlb_check_def Let_def fl_def [symmetric] f1_def [symmetric] f2_def [symmetric]
    by (auto split: if_splits)
  then show "e_tag e' = e_tag e" "e_ppn e' = e_ppn e" "e_valid e' = e_valid e" "e_global e' = e_global e"
    by simp_all
  show "bit (e_flags e') k = bit (e_flags e) k" if "k < 5"
  proof -
    have "\<not> bit (0x40 :: u64) k" "\<not> bit (0x80 :: u64) k"
      using that bit_exp_iff [of 6 k, where 'a = "64 word"] bit_exp_iff [of 7 k, where 'a = "64 word"] by auto
    then show ?thesis using that by (simp add: e' f2_def f1_def fl_def bit_simps)
  qed
qed

lemma leaf_ok_perm: "leaf_ok c acc i pte \<Longrightarrow> bit pte 0 \<Longrightarrow> perm_ok c acc (bit pte)"
  by (cases acc) (auto simp: leaf_ok_def perm_ok_def masks split: if_splits)

lemma copy_flag_bit:
  "j < 8 \<Longrightarrow> bit (copy_flag pte (2 ^ j) f) k \<longleftrightarrow> bit f k \<or> k = j \<and> bit pte j"
  by (auto simp: copy_flag_def tst_bit bit_simps)

lemma pte_flags_bit: "bit (pte_flags pte) k \<longleftrightarrow> k \<in> {0, 1, 2, 3, 4, 6, 7} \<and> bit pte k"
  using copy_flag_bit [of 0 pte _ k] copy_flag_bit [of 1 pte _ k] copy_flag_bit [of 2 pte _ k]
    copy_flag_bit [of 3 pte _ k] copy_flag_bit [of 4 pte _ k] copy_flag_bit [of 6 pte _ k]
    copy_flag_bit [of 7 pte _ k]
  by (simp add: pte_flags_def) blast

section \<open>The cache as a set of entries\<close>

text \<open>An entry of the cache that a lookup of \<open>va\<close> under the address-space number \<open>aid\<close> can hit.\<close>

definition covers :: "TLBEntry \<Rightarrow> u64 \<Rightarrow> u16 \<Rightarrow> bool" where
  "covers e va aid = tlb_match (vpn26 va) (make_tag (vpn26 va) aid) e"

definition cached :: "CPU_State \<Rightarrow> u64 \<Rightarrow> u16 \<Rightarrow> TLBEntry \<Rightarrow> bool" where
  "cached c va aid e \<longleftrightarrow> (\<exists>i < 64. entries (tlb c) i = e) \<and> covers e va aid"

text \<open>
  The interface of a translation cache: a flush empties it, an insertion adds one entry (and may
  evict others), which covers the address it was inserted for.
\<close>

locale trans_cache =
  fixes has :: "'c \<Rightarrow> u64 \<Rightarrow> u16 \<Rightarrow> 'e \<Rightarrow> bool"
    and cov :: "'e \<Rightarrow> u64 \<Rightarrow> u16 \<Rightarrow> bool"
    and insert1 :: "u64 \<Rightarrow> u64 \<Rightarrow> u16 \<Rightarrow> 'c \<Rightarrow> 'c"
    and new :: "u64 \<Rightarrow> u64 \<Rightarrow> u16 \<Rightarrow> 'c \<Rightarrow> 'e"
    and flush :: "'c \<Rightarrow> 'c"
  assumes has_cov: "has c va aid e \<Longrightarrow> cov e va aid"
    and has_flush: "\<not> has (flush c) va aid e"
    and has_insert: "has (insert1 va pte aid c) va' aid' e \<Longrightarrow> e = new va pte aid c \<or> has c va' aid' e"
    and insert_new: "has (insert1 va pte aid c) va aid (new va pte aid c)"
begin

text \<open>Everything the cache can answer satisfies \<open>P\<close>.\<close>

definition sound :: "(u64 \<Rightarrow> u16 \<Rightarrow> 'e \<Rightarrow> bool) \<Rightarrow> 'c \<Rightarrow> bool" where
  "sound P c \<longleftrightarrow> (\<forall>va aid e. has c va aid e \<longrightarrow> P va aid e)"

lemma sound_flush: "sound P (flush c)"
  by (simp add: sound_def has_flush)

lemma sound_insert:
  "sound P c \<Longrightarrow> (\<And>va' aid'. cov (new va pte aid c) va' aid' \<Longrightarrow> P va' aid' (new va pte aid c)) \<Longrightarrow>
   sound P (insert1 va pte aid c)"
  unfolding sound_def using has_insert has_cov by metis

lemma sound_inserts:
  assumes "\<And>va pte aid c va' aid'. (va, pte, aid) \<in> set rs \<Longrightarrow> cov (new va pte aid c) va' aid' \<Longrightarrow>
    P va' aid' (new va pte aid c)"
  shows "sound P (fold (\<lambda>(va, pte, aid). insert1 va pte aid) rs (flush c))"
proof -
  have "sound P (fold (\<lambda>(va, pte, aid). insert1 va pte aid) rs c)" if "sound P c" for c
    using that assms
  proof (induction rs arbitrary: c)
    case (Cons r rs)
    obtain va pte aid where r: "r = (va, pte, aid)" by (cases r) auto
    have "sound P (insert1 va pte aid c)"
      by (rule sound_insert [OF Cons.prems(1)]) (use Cons.prems(2) r in auto)
    with Cons r show ?case by simp
  qed simp
  then show ?thesis by (simp add: sound_flush)
qed

end

lemma tlb_victim_range:
  "r < n \<Longrightarrow> set is \<subseteq> {..<n} \<Longrightarrow> tlb_victim es is r u < n"
  by (induction es "is" r u rule: tlb_victim.induct) auto

lemma tlb_insert_victim: "tlb_victim es [1..<64] 0 u < 64"
  by (rule tlb_victim_range) auto

lemma set_entry_simps [simp]:
  "entries (tlb (set_entry i e c)) = (entries (tlb c))(i := e)"
  "privilege (set_entry i e c) = privilege c" "sum (set_entry i e c) = sum c" "mxr (set_entry i e c) = mxr c"
  "csr (set_entry i e c) = csr c" "asid (set_entry i e c) = asid c" "pc (set_entry i e c) = pc c"
  "gpr (set_entry i e c) = gpr c" "tlb_cnt (set_entry i e c) = tlb_cnt c" "cpu_bus (set_entry i e c) = cpu_bus c"
  by (simp_all add: set_entry_def)

lemma tlb_insert_entries:
  "entries (tlb (tlb_insert va pte aid c)) =
     (entries (tlb c))(tlb_victim (entries (tlb c)) [1..<64] 0 (e_last_used (entries (tlb c) 0)) :=
        tlb_entry va pte aid (tlb_cnt c))"
  unfolding tlb_insert_def Let_def by (simp del: One_nat_def add: set_entry_def)

lemma vpn26_tag: "make_tag (vpn26 va) aid AND 0x3FFFFFF = vpn26 va"
proof -
  have m: "(0x3FFFFFF :: u64) = mask 26" by (simp add: mask_eq_exp_minus_1)
  show ?thesis
    unfolding make_tag_def vpn26_def m by (rule bit_word_eqI) (auto simp: bit_simps)
qed

lemma vpn26_mask: "vpn26 va AND 0x3FFFFFF = vpn26 va"
  by (simp add: vpn26_def and.assoc)

lemma tlb_entry_covers_same:
  "covers (tlb_entry va pte aid now) va aid"
  by (simp add: covers_def tlb_match_def tlb_entry_def Let_def vpn26_mask)

lemma covers_vpn: "covers (tlb_entry va pte aid now) va' aid' \<Longrightarrow> vpn26 va' = vpn26 va"
  using vpn26_tag [of va aid] vpn26_tag [of va' aid']
  by (auto simp: covers_def tlb_match_def tlb_entry_def Let_def vpn26_mask split: if_splits)

interpretation tlb_cache: trans_cache cached covers tlb_insert
  "\<lambda>va pte aid c. tlb_entry va pte aid (tlb_cnt c)" tlb_flush
proof
  fix c va aid e and va' :: u64 and aid' :: u16 and pte :: u64
  show "covers e va aid" if "cached c va aid e" using that by (simp add: cached_def)
  show "\<not> cached (tlb_flush c) va aid e"
    by (auto simp: cached_def covers_def tlb_match_def tlb_flush_def)
  show "e = tlb_entry va pte aid (tlb_cnt c) \<or> cached c va' aid' e"
    if "cached (tlb_insert va pte aid c) va' aid' e"
    using that by (auto simp: cached_def tlb_insert_entries split: if_splits)
  show "cached (tlb_insert va pte aid c) va aid (tlb_entry va pte aid (tlb_cnt c))"
    unfolding cached_def tlb_insert_entries
    using tlb_insert_victim [of "entries (tlb c)" "e_last_used (entries (tlb c) 0)"] tlb_entry_covers_same
    by (intro conjI exI [of _ "tlb_victim (entries (tlb c)) [1..<64] 0 (e_last_used (entries (tlb c) 0))"])
       (simp_all del: One_nat_def)
qed

section \<open>The page table as a function of memory\<close>

text \<open>
  The specification of the walk: the entry that translates \<open>va\<close>, with its level, read off the
  bytes of memory alone; \<open>pt_wf\<close> says that the tables visited lie in guest memory and that the
  reserved bits of the entries are clear.
\<close>

definition pte_at :: "(u64 \<Rightarrow> u8) \<Rightarrow> u64 \<Rightarrow> u64" where
  "pte_at mem a = le_load mem (a - MEMORY_BASE) 8"

definition pte_leaf :: "u64 \<Rightarrow> bool" where
  "pte_leaf pte \<longleftrightarrow> bit pte 1 \<or> bit pte 3 \<or> bit pte 2"

fun pt_lookup :: "(u64 \<Rightarrow> u8) \<Rightarrow> u64 \<Rightarrow> nat \<Rightarrow> u64 \<Rightarrow> (nat \<times> u64) option" where
  "pt_lookup mem va i table =
     (let pte = pte_at mem (vpn_part va i * 8 + table) in
      if \<not> bit pte 0 \<or> bit pte 2 \<and> \<not> bit pte 1 then None
      else if pte_leaf pte then Some (i, pte)
      else (case i of 0 \<Rightarrow> None
            | Suc i' \<Rightarrow> pt_lookup mem va i' (push_bit 12 (drop_bit 10 pte AND mask 44))))"

fun pt_wf :: "(u64 \<Rightarrow> u8) \<Rightarrow> u64 \<Rightarrow> nat \<Rightarrow> u64 \<Rightarrow> bool" where
  "pt_wf mem va i table =
     (let pte = pte_at mem (vpn_part va i * 8 + table) in
      ram_addr (vpn_part va i * 8 + table) 8 \<and> drop_bit 54 pte = 0 \<and>
      (if \<not> bit pte 0 \<or> bit pte 2 \<and> \<not> bit pte 1 \<or> pte_leaf pte then True
       else (case i of 0 \<Rightarrow> True
             | Suc i' \<Rightarrow> pt_wf mem va i' (push_bit 12 (drop_bit 10 pte AND mask 44)))))"

declare pt_lookup.simps [simp del] pt_wf.simps [simp del]

lemma ppn_mask_host:
  assumes "h_shl44 (host m) = 0" "drop_bit 54 pte = 0"
  shows "drop_bit 10 pte AND ppn_mask m = drop_bit 10 pte AND mask 44"
proof -
  have "ppn_mask m = mask 64" using assms(1) by (simp add: ppn_mask_def mask_eq_exp_minus_1)
  moreover have "\<not> bit pte (10 + n)" if "44 \<le> n" for n
  proof -
    have "bit pte (10 + n) = bit (drop_bit 54 pte) (n - 44)" using that by (simp add: bit_simps)
    then show ?thesis using assms(2) by simp
  qed
  ultimately show ?thesis
    by (intro bit_word_eqI; case_tac "n < 44") (simp_all add: bit_simps)
qed

text \<open>What the walk does once it has found a leaf.\<close>

definition walk_end :: "nat \<Rightarrow> u64 \<Rightarrow> acc \<Rightarrow> nat \<times> u64 \<Rightarrow> machine \<Rightarrow> (u64 option \<times> machine) res" where
  "walk_end h va acc ip m =
     (let (i, pte) = ip; pa = leaf_pa m va i pte in
      if leaf_ok (cpus m h) acc i pte \<and> phys_ok pa 1
      then Inr (Some pa, upd_cpu h (tlb_insert va pte (asid (cpus m h))) m)
      else Inr (None, m))"

theorem sv39_walk_spec:
  assumes "cpu_bus (cpus m h) = emu_bus" "h_shl44 (host m) = 0" "pt_wf (memory m) va i table"
  shows "sv39_walk h va acc i table m =
    (case pt_lookup (memory m) va i table of None \<Rightarrow> Inr (None, m) | Some ip \<Rightarrow> walk_end h va acc ip m)"
  using assms(3)
proof (induction i arbitrary: table)
  case (0 table)
  let ?pte = "pte_at (memory m) (vpn_part va 0 * 8 + table)"
  from "0.prems" have w: "ram_addr (vpn_part va 0 * 8 + table) 8" "drop_bit 54 ?pte = 0"
    by (simp_all add: pt_wf.simps [of _ _ 0] Let_def)
  have rd: "phys_read_u64 h (vpn_part va 0 * 8 + table) m = Inr (?pte, m)"
    using w(1) by (simp add: phys_read_u64_def assms(1) bus_read_ram pte_at_def)
  show ?case
    unfolding sv39_walk.simps [of _ _ _ 0] rd pt_lookup.simps [of _ _ 0]
    by (auto simp: masks Let_def pte_leaf_def walk_end_def)
next
  case (Suc i table)
  let ?pte = "pte_at (memory m) (vpn_part va (Suc i) * 8 + table)"
  from Suc.prems have w: "ram_addr (vpn_part va (Suc i) * 8 + table) 8" "drop_bit 54 ?pte = 0"
    by (simp_all add: pt_wf.simps [of _ _ "Suc i"] Let_def)
  have rd: "phys_read_u64 h (vpn_part va (Suc i) * 8 + table) m = Inr (?pte, m)"
    using w(1) by (simp add: phys_read_u64_def assms(1) bus_read_ram pte_at_def)
  have nxt: "drop_bit 10 ?pte AND ppn_mask m = drop_bit 10 ?pte AND mask 44"
    by (rule ppn_mask_host [OF assms(2) w(2)])
  have IH: "sv39_walk h va acc i (push_bit 12 (drop_bit 10 ?pte AND mask 44)) m =
      (case pt_lookup (memory m) va i (push_bit 12 (drop_bit 10 ?pte AND mask 44)) of None \<Rightarrow> Inr (None, m)
       | Some ip \<Rightarrow> walk_end h va acc ip m)"
    if "bit ?pte 0" "\<not> (bit ?pte 2 \<and> \<not> bit ?pte 1)" "\<not> pte_leaf ?pte"
    by (rule Suc.IH) (use Suc.prems that in \<open>auto simp: pt_wf.simps [of _ _ "Suc i"] Let_def split: if_splits\<close>)
  show ?case
    unfolding sv39_walk.simps [of _ _ _ "Suc i"] rd pt_lookup.simps [of _ _ "Suc i"] rbind.simps prod.case nxt
    using IH by (auto simp: masks Let_def pte_leaf_def walk_end_def)
qed

section \<open>Coherence\<close>

text \<open>
  The cache agrees with the page table of the current \<open>satp\<close>: whatever an entry answers for an
  address below \<open>2 ^ 38\<close> is what the walk would find, on a 4 KiB page. (The tag has 26 bits of
  the page number, one less than Sv39: addresses that differ in bit 38 only share an entry.)
\<close>

definition root_table :: "CPU_State \<Rightarrow> u64" where
  "root_table c = push_bit 12 (csr c CSR_SATP AND mask 44)"

definition entry_sound :: "(u64 \<Rightarrow> u8) \<Rightarrow> u64 \<Rightarrow> u64 \<Rightarrow> u16 \<Rightarrow> TLBEntry \<Rightarrow> bool" where
  "entry_sound mem root va aid e \<longleftrightarrow> (va < 2 ^ 38 \<longrightarrow>
     (\<exists>pte. pt_lookup mem va 2 root = Some (0, pte) \<and> bit pte 0 \<and> e_ppn e = drop_bit 10 pte AND mask 44 \<and>
        (\<forall>k < 5. bit (e_flags e) k = bit pte k)))"

definition tlb_coherent :: "(u64 \<Rightarrow> u8) \<Rightarrow> CPU_State \<Rightarrow> bool" where
  "tlb_coherent mem c \<longleftrightarrow> (\<forall>va aid e. cached c va aid e \<longrightarrow> entry_sound mem (root_table c) va aid e)"

lemma root_table_privilege [simp]: "root_table (c\<lparr>privilege := p\<rparr>) = root_table c"
  by (simp add: root_table_def)

lemma tlb_coherent_sound: "tlb_coherent mem c = tlb_cache.sound (entry_sound mem (root_table c)) c"
  by (simp add: tlb_coherent_def tlb_cache.sound_def)

lemma bit_below_38: "va < 2 ^ 38 \<Longrightarrow> 38 \<le> n \<Longrightarrow> \<not> bit (va :: u64) n"
proof -
  assume "va < 2 ^ 38" "38 \<le> n"
  then have "va AND mask 38 = va" by (intro less_mask_eq)
  then have "bit va n = bit (va AND mask 38) n" by simp
  with \<open>38 \<le> n\<close> show ?thesis by (simp add: bit_simps)
qed

lemma vpn26_bit: "bit (vpn26 va) n \<longleftrightarrow> n < 26 \<and> bit va (12 + n)"
proof -
  have m: "(0x3FFFFFF :: u64) = mask 26" by (simp add: mask_eq_exp_minus_1)
  show ?thesis unfolding vpn26_def m by (auto simp: bit_simps)
qed

lemma same_page_bits:
  assumes "vpn26 va = vpn26 va'" "va < 2 ^ 38" "va' < 2 ^ 38" "12 \<le> n"
  shows "bit va n = bit va' n"
proof (cases "n < 38")
  case True
  then have "n - 12 < 26" using assms(4) by arith
  moreover have "bit (vpn26 va) (n - 12) = bit (vpn26 va') (n - 12)" using assms(1) by simp
  ultimately show ?thesis using assms(4) by (simp add: vpn26_bit)
next
  case False
  then show ?thesis using bit_below_38 assms(2,3) by simp
qed

lemma same_page_parts:
  assumes "vpn26 va = vpn26 va'" "va < 2 ^ 38" "va' < 2 ^ 38"
  shows "vpn_part va i = vpn_part va' i"
proof -
  have m: "(0x1FF :: u64) = mask 9" by (simp add: mask_eq_exp_minus_1)
  have "drop_bit k va AND mask 9 = drop_bit k va' AND mask 9" if "12 \<le> k" for k
    by (rule bit_word_eqI) (use that same_page_bits [OF assms] in \<open>simp add: bit_simps\<close>)
  then show ?thesis unfolding vpn_part_def m by simp
qed

lemma pt_lookup_same_page:
  assumes "vpn26 va = vpn26 va'" "va < 2 ^ 38" "va' < 2 ^ 38"
  shows "pt_lookup mem va i table = pt_lookup mem va' i table"
proof (induction i arbitrary: table)
  case 0
  show ?case by (subst (1 2) pt_lookup.simps) (simp add: Let_def same_page_parts [OF assms])
next
  case (Suc i)
  then show ?case by (subst (1 2) pt_lookup.simps) (simp add: Let_def same_page_parts [OF assms])
qed

text \<open>A lookup finds nothing, or checks one entry that covers the address.\<close>

lemma tlb_lookup_cases:
  obtains (miss) "tlb_lookup va acc aid c = (TLB_MISS, c)" "\<And>e. \<not> cached c va aid e"
  | (hit) i e where "i < 64" "cached c va aid (entries (tlb c) i)"
      "e = (entries (tlb c) i)\<lparr>e_last_used := tlb_cnt c\<rparr>"
      "tlb_lookup va acc aid c =
        (case tlb_check (c\<lparr>tlb_cnt := tlb_cnt c + 1\<rparr>) acc e of
           None \<Rightarrow> (TLB_FAULT, set_entry i e (c\<lparr>tlb_cnt := tlb_cnt c + 1\<rparr>))
         | Some e' \<Rightarrow> (TLB_OK (push_bit 12 (e_ppn e') OR (va AND 0xFFF)),
             set_entry i e' (c\<lparr>tlb_cnt := tlb_cnt c + 1\<rparr>)))"
proof (cases "find (\<lambda>i. tlb_match (vpn26 va) (make_tag (vpn26 va) aid) (entries (tlb c) i)) [0..<64]")
  case None
  then have "\<not> cached c va aid e" for e
    by (auto simp: find_None_iff cached_def covers_def)
  with None show ?thesis by (intro miss) (simp_all add: tlb_lookup_def Let_def)
next
  case (Some i)
  then have "i < 64" "tlb_match (vpn26 va) (make_tag (vpn26 va) aid) (entries (tlb c) i)"
    by (auto simp: find_Some_iff)
  with Some show ?thesis
    by (intro hit [of i]) (auto simp: cached_def covers_def tlb_lookup_def Let_def)
qed

text \<open>Touching an entry (recency, accessed and dirty bits) keeps the cache coherent.\<close>

lemma coherent_touch:
  assumes "tlb_coherent mem c" "csr c' = csr c"
    and "entries (tlb c') = (entries (tlb c))(i := e)"
    and "e_tag e = e_tag (entries (tlb c) i)" "e_ppn e = e_ppn (entries (tlb c) i)"
      "e_valid e = e_valid (entries (tlb c) i)" "e_global e = e_global (entries (tlb c) i)"
      "\<And>k. k < 5 \<Longrightarrow> bit (e_flags e) k = bit (e_flags (entries (tlb c) i)) k"
  shows "tlb_coherent mem c'"
  unfolding tlb_coherent_def
proof (intro allI impI)
  fix va aid f assume f: "cached c' va aid f"
  have r: "root_table c' = root_table c" using assms(2) by (simp add: root_table_def)
  from f obtain j where j: "j < 64" "entries (tlb c') j = f" "covers f va aid" by (auto simp: cached_def)
  show "entry_sound mem (root_table c') va aid f"
  proof (cases "j = i")
    case True
    with j assms have "cached c va aid (entries (tlb c) i)"
      by (auto simp: cached_def covers_def tlb_match_def)
    with assms(1) have "entry_sound mem (root_table c) va aid (entries (tlb c) i)"
      by (simp add: tlb_coherent_def)
    with True j assms show ?thesis by (simp add: entry_sound_def r)
  next
    case False
    with j assms(3) have "cached c va aid f" by (auto simp: cached_def)
    with assms(1) show ?thesis by (simp add: tlb_coherent_def r)
  qed
qed

lemma coherent_insert:
  assumes "tlb_coherent mem c" "va < 2 ^ 38" "pt_lookup mem va 2 (root_table c) = Some (0, pte)" "bit pte 0"
  shows "tlb_coherent mem (tlb_insert va pte aid c)"
proof -
  have r: "root_table (tlb_insert va pte aid c) = root_table c"
    by (simp add: root_table_def tlb_insert_def Let_def)
  have m: "(0xFFFFFFFFFFF :: u64) = mask 44" by (simp add: mask_eq_exp_minus_1)
  have "entry_sound mem (root_table c) va' aid' (tlb_entry va pte aid (tlb_cnt c))"
    if "covers (tlb_entry va pte aid (tlb_cnt c)) va' aid'" for va' aid'
    unfolding entry_sound_def
  proof (intro impI exI [of _ pte] conjI allI)
    assume "va' < 2 ^ 38"
    with covers_vpn [OF that] assms(2,3) show "pt_lookup mem va' 2 (root_table c) = Some (0, pte)"
      using pt_lookup_same_page [of va' va] by simp
    show "e_ppn (tlb_entry va pte aid (tlb_cnt c)) = drop_bit 10 pte AND mask 44"
      by (simp add: tlb_entry_def Let_def m)
    fix k :: nat assume "k < 5"
    then have "k \<in> {0, 1, 2, 3, 4}" by auto
    then show "bit (e_flags (tlb_entry va pte aid (tlb_cnt c))) k = bit pte k"
      by (simp add: tlb_entry_def Let_def pte_flags_bit) blast
  qed (use assms(4) in simp)
  with assms(1) show ?thesis
    unfolding tlb_coherent_sound r by (intro tlb_cache.sound_insert)
qed

text \<open>A translation of a hart that runs on the emulator's bus, under Sv39, with its tables in memory.\<close>

definition sv39_setup :: "nat \<Rightarrow> u64 \<Rightarrow> machine \<Rightarrow> bool" where
  "sv39_setup h va m \<longleftrightarrow> cpu_bus (cpus m h) = emu_bus \<and> h_shl44 (host m) = 0 \<and>
     drop_bit 60 (csr (cpus m h) CSR_SATP) = 8 \<and> va < 2 ^ 38 \<and>
     pt_wf (memory m) va 2 (root_table (cpus m h)) \<and> tlb_coherent (memory m) (cpus m h)"

text \<open>The physical address of \<open>va\<close> on the 4 KiB page of \<open>pte\<close>.\<close>

definition page_pa :: "u64 \<Rightarrow> u64 \<Rightarrow> u64" where
  "page_pa pte va = push_bit 12 (drop_bit 10 pte AND mask 44) OR (va AND 0xFFF)"

lemma pt_lookup_wf_reserved:
  "pt_wf mem va i table \<Longrightarrow> pt_lookup mem va i table = Some (j, pte) \<Longrightarrow> drop_bit 54 pte = 0 \<and> bit pte 0"
proof (induction i arbitrary: table)
  case 0
  then show ?case
    by (subst (asm) pt_wf.simps, subst (asm) pt_lookup.simps) (auto simp: Let_def split: if_splits)
next
  case (Suc i)
  from Suc.prems show ?case
    by (subst (asm) pt_wf.simps, subst (asm) pt_lookup.simps)
       (auto simp: Let_def split: if_splits dest: Suc.IH)
qed

text \<open>On a miss the answer is that of the page table, and the new entry is coherent.\<close>

lemma get_pa_miss:
  assumes s: "sv39_setup h va m" and miss: "tlb_lookup va acc (asid (cpus m h)) (cpus m h) = (TLB_MISS, cpus m h)"
  defines "n \<equiv> upd_cpu h (\<lambda>c. c\<lparr>satp := csr c CSR_SATP\<rparr>) m"
  shows "get_pa h va acc m =
    (case pt_lookup (memory m) va 2 (root_table (cpus m h)) of
       None \<Rightarrow> Inr (0, upd_cpu h (handle_fault va acc) n)
     | Some ip \<Rightarrow> rbind (walk_end h va acc ip n) (\<lambda>(r, m). case r of Some pa \<Rightarrow> Inr (pa, m)
               | None \<Rightarrow> Inr (0, upd_cpu h (handle_fault va acc) m)))"
proof -
  have same: "upd_cpu h (\<lambda>_. cpus m h) m = m" by (simp add: upd_cpu_def)
  have mode: "drop_bit 60 (csr (cpus m h) CSR_SATP) AND 0xF \<noteq> 0"
    using s by (simp add: sv39_setup_def)
  have "sv39_translate h va acc m = sv39_walk h va acc 2 (root_table (cpus m h)) n"
    using s by (simp add: sv39_translate_def Let_def n_def sv39_setup_def root_table_def)
  moreover have "sv39_walk h va acc 2 (root_table (cpus m h)) n =
    (case pt_lookup (memory n) va 2 (root_table (cpus m h)) of None \<Rightarrow> Inr (None, n)
     | Some ip \<Rightarrow> walk_end h va acc ip n)"
    by (rule sv39_walk_spec) (use s in \<open>simp_all add: n_def sv39_setup_def\<close>)
  ultimately show ?thesis
    using mode by (simp add: get_pa_def miss same) (simp add: n_def split: option.split)
qed

lemma leaf_pa_page:
  "h_shl44 (host m) = 0 \<Longrightarrow> drop_bit 54 pte = 0 \<Longrightarrow> leaf_pa m va 0 pte = page_pa pte va"
  by (simp add: leaf_pa_def page_pa_def ppn_mask_host)

lemma leaf_ok_cong:
  "privilege c = privilege c' \<Longrightarrow> sum c = sum c' \<Longrightarrow> mxr c = mxr c' \<Longrightarrow> leaf_ok c acc i pte = leaf_ok c' acc i pte"
  by (simp only: leaf_ok_def)

lemma perm_ok_state:
  "privilege c = privilege c' \<Longrightarrow> sum c = sum c' \<Longrightarrow> mxr c = mxr c' \<Longrightarrow> perm_ok c acc b = perm_ok c' acc b"
  by (cases acc) (simp_all add: perm_ok_def)

lemma perm_leaf_ok:
  assumes "perm_ok c acc (bit pte)" "sum c = 0"
  shows "leaf_ok c acc 0 pte"
  using assms by (cases acc) (auto simp: leaf_ok_def perm_ok_def masks)

text \<open>On a hit the entry decides, and it says what the page table says.\<close>

lemma get_pa_hit:
  assumes s: "sv39_setup h va m" and hit: "cached (cpus m h) va (asid (cpus m h)) e0"
  obtains pte where "pt_lookup (memory m) va 2 (root_table (cpus m h)) = Some (0, pte)" "bit pte 0"
    "e_ppn e0 = drop_bit 10 pte AND mask 44" "\<And>k. k < 5 \<Longrightarrow> bit (e_flags e0) k = bit pte k"
  using s hit unfolding sv39_setup_def tlb_coherent_def entry_sound_def by metis

text \<open>The registers, the program counter, the CSRs and everything outside the hart stay as they are.\<close>

definition same_but_tlb :: "nat \<Rightarrow> machine \<Rightarrow> machine \<Rightarrow> bool" where
  "same_but_tlb h m m' \<longleftrightarrow> m' = m\<lparr>cpus := (cpus m)(h := (cpus m h)\<lparr>tlb := tlb (cpus m' h),
     tlb_cnt := tlb_cnt (cpus m' h), satp := satp (cpus m' h), mem_fault := mem_fault (cpus m' h)\<rparr>)\<rparr>"

lemma same_but_tlbD:
  assumes "same_but_tlb h m m'"
  shows "memory m' = memory m" "gpr (cpus m' k) = gpr (cpus m k)" "pc (cpus m' k) = pc (cpus m k)"
    "csr (cpus m' k) = csr (cpus m k)" "privilege (cpus m' k) = privilege (cpus m k)"
    "cpu_bus (cpus m' k) = cpu_bus (cpus m k)" "halted (cpus m' k) = halted (cpus m k)" "host m' = host m"
  using assms by (subst assms [unfolded same_but_tlb_def], simp)+

lemma tlb_lookup_same:
  assumes "tlb_lookup va acc aid c = (r, c')"
  shows "c' = c\<lparr>tlb := tlb c', tlb_cnt := tlb_cnt c'\<rparr>"
  using assms
  by (cases rule: tlb_lookup_cases [of va acc aid c]) (auto simp: set_entry_def split: option.splits)

lemma get_pa_sv39:
  assumes s: "sv39_setup h va m"
    and pt: "pt_lookup (memory m) va 2 (root_table (cpus m h)) = Some (0, pte)"
    and ok: "leaf_ok (cpus m h) acc 0 pte" and pa: "phys_ok (page_pa pte va) 1"
  shows "\<exists>m'. get_pa h va acc m = Inr (page_pa pte va, m') \<and> same_but_tlb h m m' \<and>
    tlb_coherent (memory m') (cpus m' h)"
proof (cases rule: tlb_lookup_cases [of va acc "asid (cpus m h)" "cpus m h"])
  case miss
  let ?n = "upd_cpu h (\<lambda>c. c\<lparr>satp := csr c CSR_SATP\<rparr>) m"
  let ?m' = "upd_cpu h (tlb_insert va pte (asid (cpus m h))) ?n"
  have r: "drop_bit 54 pte = 0" "bit pte 0"
    using s pt pt_lookup_wf_reserved by (auto simp: sv39_setup_def)
  have "leaf_pa ?n va 0 pte = page_pa pte va"
    by (rule leaf_pa_page) (use s r in \<open>simp_all add: sv39_setup_def\<close>)
  moreover have "leaf_ok (cpus ?n h) acc 0 pte"
    using ok by (subst leaf_ok_cong [of _ "cpus m h"]) simp_all
  ultimately have "get_pa h va acc m = Inr (page_pa pte va, ?m')"
    using get_pa_miss [OF s miss(1)] pt pa by (simp add: walk_end_def Let_def)
  moreover have "same_but_tlb h m ?m'"
    unfolding same_but_tlb_def
    by (rule machine.equality)
       (auto simp: tlb_insert_def Let_def set_entry_def intro!: ext CPU_State.equality)
  moreover have "tlb_coherent (memory ?m') (cpus ?m' h)"
  proof -
    have "tlb_coherent (memory m) (cpus ?n h)"
      using s by (simp add: sv39_setup_def tlb_coherent_def cached_def root_table_def)
    then show ?thesis
      using s pt r by (auto simp: sv39_setup_def root_table_def intro!: coherent_insert)
  qed
  ultimately show ?thesis by blast
next
  case (hit i e)
  let ?c = "(cpus m h)\<lparr>tlb_cnt := tlb_cnt (cpus m h) + 1\<rparr>"
  from get_pa_hit [OF s hit(2)] pt have e0: "e_ppn (entries (tlb (cpus m h)) i) = drop_bit 10 pte AND mask 44"
    "\<And>k. k < 5 \<Longrightarrow> bit (e_flags (entries (tlb (cpus m h)) i)) k = bit pte k" "bit pte 0"
    by fastforce+
  have "perm_ok ?c acc (bit (e_flags e)) = perm_ok (cpus m h) acc (bit pte)"
    using e0(2) hit(3) by (subst perm_ok_state [of _ "cpus m h"]) (auto intro!: perm_ok_cong)
  then obtain e' where e': "tlb_check ?c acc e = Some e'"
    using leaf_ok_perm [OF ok e0(3)] tlb_check_perm [of ?c acc e] by auto
  note k = tlb_check_entry [OF e']
  let ?m' = "upd_cpu h (\<lambda>_. set_entry i e' ?c) m"
  have mode: "drop_bit 60 (csr (cpus m h) CSR_SATP) AND 0xF \<noteq> 0"
    using s by (simp add: sv39_setup_def)
  have "get_pa h va acc m = Inr (page_pa pte va, ?m')"
    using mode hit(3,4) e' k e0 by (simp add: get_pa_def page_pa_def)
  moreover have "same_but_tlb h m ?m'"
    unfolding same_but_tlb_def
    by (rule machine.equality) (auto simp: set_entry_def intro!: ext CPU_State.equality)
  moreover have "tlb_coherent (memory ?m') (cpus ?m' h)"
    using s k hit(3)
    by (simp add: sv39_setup_def) (rule coherent_touch [of _ "cpus m h" _ i e'], auto)
  ultimately show ?thesis by blast
qed

text \<open>
  C8. Under Sv39, with the cache coherent and the page tables in guest memory, for an address that
  the table maps by a leaf of level 0, a 4 KiB page, \<open>get_pa\<close> returns exactly the physical address that the
  table gives for a permitted access, whether the cache hits or misses, and the cache is
  coherent afterwards; nothing but the translation state of the hart changes. The mask
  \<open>(1 << 44) - 1\<close> of the code is undefined; the setup takes the answer 0 for the shift, which makes
  the mask all ones. Leaves of the upper levels are another matter: see
  \<open>superpage_translates_to_zero\<close>.
\<close>

theorem get_pa_translates:
  assumes s: "sv39_setup h va m"
    and pt: "pt_lookup (memory m) va 2 (root_table (cpus m h)) = Some (0, pte)"
    and ok: "leaf_ok (cpus m h) acc 0 pte" and pa: "phys_ok (page_pa pte va) 1"
  shows "\<exists>m'. get_pa h va acc m = Inr (page_pa pte va, m') \<and> same_but_tlb h m m' \<and>
    tlb_coherent (memory m') (cpus m' h)"
  by (rule get_pa_sv39 [OF assms])

text \<open>A machine with one three-level path: root table at 0x80000000, pages behind it.\<close>

definition paged_machine :: machine where
  "paged_machine = le_store poke 0x2000 0x200000CF 8 (le_store poke 0x1000 0x20000801 8
     (le_store poke 0 0x20000401 8 (upd_cpu 0 (\<lambda>c. c\<lparr>cpu_bus := emu_bus, privilege := 1,
        csr := (csr c)(CSR_SATP := 0x8000000000080000)\<rparr>) blank)))"

lemma load_other_page:
  assumes "unat a + 8 \<le> unat b \<or> unat b + 8 \<le> unat a" "unat a < 0x10000" "unat b < 0x10000"
  shows "le_load (memory (le_store poke a v 8 m)) b 8 = le_load (memory m) b 8"
  by (rule host_mem.load_after_disjoint_store, rule disjoint_offsets [of a 8 b 8])
     (use assms in \<open>simp_all add: in_ram_def\<close>)

lemma paged_machine_ptes:
  "pte_at (memory paged_machine) 0x80000000 = 0x20000401"
  "pte_at (memory paged_machine) 0x80001000 = 0x20000801"
  "pte_at (memory paged_machine) 0x80002000 = 0x200000CF"
  by (simp_all add: paged_machine_def pte_at_def load_other_page host_mem.load_after_store
      take_bit_eq_mask mask_eq_exp_minus_1)

lemma paged_machine_cpu:
  "cpu_bus (cpus paged_machine 0) = emu_bus" "csr (cpus paged_machine 0) CSR_SATP = 0x8000000000080000"
  "privilege (cpus paged_machine 0) = 1" "sum (cpus paged_machine 0) = 0"
  "tlb (cpus paged_machine 0) = zero_tlb" "h_shl44 (host paged_machine) = 0"
  by (simp_all add: paged_machine_def frame blank_def zero_machine_def zero_cpu_def)

lemma pte_bits:
  "bit (0x20000401 :: u64) 0" "\<not> bit (0x20000401 :: u64) 1" "\<not> bit (0x20000401 :: u64) 2" "\<not> bit (0x20000401 :: u64) 3"
  "bit (0x20000801 :: u64) 0" "\<not> bit (0x20000801 :: u64) 1" "\<not> bit (0x20000801 :: u64) 2" "\<not> bit (0x20000801 :: u64) 3"
  "bit (0x200000CF :: u64) 0" "bit (0x200000CF :: u64) 1" "bit (0x200000CF :: u64) 2" "bit (0x200000CF :: u64) 3"
  "\<not> bit (0x200000CF :: u64) 4"
  by (simp_all add: bit_iff_odd_drop_bit drop_bit_eq_div)

lemma paged_machine_root: "root_table (cpus paged_machine 0) = 0x80000000"
  by (simp add: root_table_def paged_machine_cpu mask_eq_exp_minus_1 push_bit_eq_mult)

text \<open>One level of the table: a pointer entry, and a leaf.\<close>

lemma pt_pointer:
  assumes "pte_at mem (vpn_part va (Suc i) * 8 + table) = pte" "bit pte 0" "\<not> pte_leaf pte"
    "push_bit 12 (drop_bit 10 pte AND mask 44) = next"
  shows "pt_lookup mem va (Suc i) table = pt_lookup mem va i next"
    and "ram_addr (vpn_part va (Suc i) * 8 + table) 8 \<Longrightarrow> drop_bit 54 pte = 0 \<Longrightarrow>
      pt_wf mem va (Suc i) table = pt_wf mem va i next"
  using assms by (simp_all add: pt_lookup.simps [of _ _ "Suc i"] pt_wf.simps [of _ _ "Suc i"] Let_def pte_leaf_def)

lemma pt_leaf_entry:
  assumes "pte_at mem (vpn_part va i * 8 + table) = pte" "bit pte 0" "bit pte 1"
  shows "pt_lookup mem va i table = Some (i, pte)"
    and "ram_addr (vpn_part va i * 8 + table) 8 \<Longrightarrow> drop_bit 54 pte = 0 \<Longrightarrow> pt_wf mem va i table"
  using assms
  by (simp add: pt_lookup.simps [of _ _ i] Let_def pte_leaf_def,
      simp add: pt_wf.simps [of _ _ i] Let_def pte_leaf_def)

lemma page_walk:
  assumes "va < 0x1000" "pte_at mem 0x80000000 = 0x20000401" "pte_at mem 0x80001000 = 0x20000801"
    "pte_at mem 0x80002000 = 0x200000CF"
  shows "pt_lookup mem va 2 0x80000000 = Some (0, 0x200000CF)"
    and "pt_wf mem va 2 0x80000000"
proof -
  have "drop_bit k va = 0" if "12 \<le> k" for k
  proof (rule bit_word_eqI)
    fix n
    have "va AND mask 12 = va" using assms(1) by (intro less_mask_eq) simp
    then have "bit va (k + n) = bit (va AND mask 12) (k + n)" by simp
    with that show "bit (drop_bit k va) n = bit (0 :: u64) n" by (simp add: bit_simps)
  qed
  then have p: "vpn_part va i = 0" for i by (simp add: vpn_part_def)
  have t: "push_bit 12 (drop_bit 10 (0x20000401 :: u64) AND mask 44) = 0x80001000"
    "push_bit 12 (drop_bit 10 (0x20000801 :: u64) AND mask 44) = 0x80002000"
    by (simp_all add: mask_eq_exp_minus_1 push_bit_eq_mult drop_bit_eq_div)
  note leafs = pte_leaf_def pte_bits
  have 1: "pt_lookup mem va (Suc 1) 0x80000000 = pt_lookup mem va 1 0x80001000"
    "pt_wf mem va (Suc 1) 0x80000000 = pt_wf mem va 1 0x80001000"
    using pt_pointer [of mem va 1 "0x80000000" "0x20000401", OF _ _ _ t(1)]
    by (simp_all add: p assms(2-4) leafs ram_addr_def drop_bit_eq_div)
  have 2: "pt_lookup mem va (Suc 0) 0x80001000 = pt_lookup mem va 0 0x80002000"
    "pt_wf mem va (Suc 0) 0x80001000 = pt_wf mem va 0 0x80002000"
    using pt_pointer [of mem va 0 "0x80001000" "0x20000801", OF _ _ _ t(2)]
    by (simp_all add: p assms(2-4) leafs ram_addr_def drop_bit_eq_div)
  have 3: "pt_lookup mem va 0 0x80002000 = Some (0, 0x200000CF)" "pt_wf mem va 0 0x80002000"
    using pt_leaf_entry [of mem va 0 "0x80002000" "0x200000CF"]
    by (simp_all add: p assms(2-4) leafs ram_addr_def drop_bit_eq_div)
  have two: "(2 :: nat) = Suc 1" "(1 :: nat) = Suc 0" by simp_all
  show "pt_lookup mem va 2 0x80000000 = Some (0, 0x200000CF)"
    unfolding two(1) 1 unfolding two(2) 2 3 ..
  show "pt_wf mem va 2 0x80000000"
    unfolding two(1) 1 unfolding two(2) 2 by (rule 3(2))
qed

lemmas paged_machine_walk = page_walk [OF _ paged_machine_ptes]

lemma paged_machine_setup: "va < 0x1000 \<Longrightarrow> sv39_setup 0 va paged_machine"
proof -
  assume va: "va < 0x1000"
  then have "va < 2 ^ 38" by (rule less_trans) simp
  moreover have "tlb_coherent mem (cpus paged_machine 0)" for mem
    by (auto simp: tlb_coherent_def cached_def covers_def tlb_match_def paged_machine_cpu zero_tlb_def zero_entry_def)
  ultimately show ?thesis
    using paged_machine_walk(2) [OF va]
    by (simp add: sv39_setup_def paged_machine_cpu paged_machine_root drop_bit_eq_div)
qed

lemma paged_machine_leaf: "acc \<noteq> ACC_FETCH \<Longrightarrow> leaf_ok (cpus paged_machine 0) acc 0 0x200000CF"
  by (simp add: leaf_ok_def paged_machine_cpu masks pte_bits)

theorem get_pa_translates_witness:
  "\<exists>m'. get_pa 0 0x123 ACC_LOAD paged_machine = Inr (0x80000123, m')"
proof -
  have "page_pa 0x200000CF 0x123 = 0x80000123"
    by (simp add: page_pa_def mask_eq_exp_minus_1 push_bit_eq_mult drop_bit_eq_div)
  then show ?thesis
    using get_pa_translates [of 0 "0x123" paged_machine "0x200000CF" ACC_LOAD]
      paged_machine_walk(1) [of "0x123"] paged_machine_setup [of "0x123"] paged_machine_leaf [of ACC_LOAD]
    by (auto simp: paged_machine_root phys_ok_def)
qed

text \<open>
  C9. An access that the page table does not allow (no valid entry, or a leaf whose permissions
  refuse it) gets the address 0 and leaves a record of the fault in \<open>mem_fault\<close>. That is all that
  happens: the program counter, the CSRs and the privilege mode stay as they are, so no
  page-fault exception reaches the guest.
\<close>

theorem get_pa_denied:
  assumes s: "sv39_setup h va m" and sum: "sum (cpus m h) = 0"
    and no: "\<And>i pte. pt_lookup (memory m) va 2 (root_table (cpus m h)) = Some (i, pte) \<Longrightarrow>
      \<not> leaf_ok (cpus m h) acc i pte"
  shows "\<exists>m'. get_pa h va acc m = Inr (0, m') \<and> same_but_tlb h m m' \<and>
    f_valid (mem_fault (cpus m' h)) = 1 \<and> f_vaddr (mem_fault (cpus m' h)) = va \<and>
    f_acc_type (mem_fault (cpus m' h)) = acc_code acc \<and>
    pc (cpus m' h) = pc (cpus m h) \<and> csr (cpus m' h) = csr (cpus m h) \<and>
    privilege (cpus m' h) = privilege (cpus m h)"
proof (cases rule: tlb_lookup_cases [of va acc "asid (cpus m h)" "cpus m h"])
  case miss
  let ?n = "upd_cpu h (\<lambda>c. c\<lparr>satp := csr c CSR_SATP\<rparr>) m"
  let ?m' = "upd_cpu h (handle_fault va acc) ?n"
  have "leaf_ok (cpus ?n h) acc i pte = leaf_ok (cpus m h) acc i pte" for i pte
    by (rule leaf_ok_cong) simp_all
  then have "get_pa h va acc m = Inr (0, ?m')"
    using get_pa_miss [OF s miss(1)] no
    by (cases "pt_lookup (memory m) va 2 (root_table (cpus m h))") (auto simp: walk_end_def Let_def)
  moreover have "same_but_tlb h m ?m'"
    unfolding same_but_tlb_def
    by (rule machine.equality) (auto simp: handle_fault_def intro!: ext CPU_State.equality)
  ultimately show ?thesis by (auto simp: handle_fault_def)
next
  case (hit i e)
  let ?c = "(cpus m h)\<lparr>tlb_cnt := tlb_cnt (cpus m h) + 1\<rparr>"
  from get_pa_hit [OF s hit(2)] obtain pte where
    pt: "pt_lookup (memory m) va 2 (root_table (cpus m h)) = Some (0, pte)"
    and e0: "\<And>k. k < 5 \<Longrightarrow> bit (e_flags (entries (tlb (cpus m h)) i)) k = bit pte k" by metis
  have "perm_ok ?c acc (bit (e_flags e)) = perm_ok (cpus m h) acc (bit pte)"
    using e0 hit(3) by (subst perm_ok_state [of _ "cpus m h"]) (auto intro!: perm_ok_cong)
  moreover have "\<not> perm_ok (cpus m h) acc (bit pte)"
    using no [OF pt] perm_leaf_ok sum by blast
  ultimately have n: "tlb_check ?c acc e = None" using tlb_check_perm by metis
  let ?m' = "upd_cpu h (\<lambda>_. handle_fault va acc (set_entry i e ?c)) m"
  have mode: "drop_bit 60 (csr (cpus m h) CSR_SATP) AND 0xF \<noteq> 0"
    using s by (simp add: sv39_setup_def)
  have "get_pa h va acc m = Inr (0, ?m')"
    using mode hit(4) n by (simp add: get_pa_def)
  moreover have "same_but_tlb h m ?m'"
    unfolding same_but_tlb_def
    by (rule machine.equality) (auto simp: handle_fault_def set_entry_def intro!: ext CPU_State.equality)
  ultimately show ?thesis by (auto simp: handle_fault_def set_entry_def)
qed

theorem get_pa_denied_witness:
  "\<exists>m'. get_pa 0 0x123 ACC_LOAD (upd_cpu 0 (\<lambda>c. c\<lparr>privilege := 0\<rparr>) paged_machine) = Inr (0, m') \<and>
     f_valid (mem_fault (cpus m' 0)) = 1"
proof -
  let ?m = "upd_cpu 0 (\<lambda>c. c\<lparr>privilege := 0\<rparr>) paged_machine"
  have r: "root_table (cpus ?m 0) = 0x80000000" by (simp add: paged_machine_root)
  have "sv39_setup 0 0x123 ?m"
    using paged_machine_setup [of "0x123"]
    by (simp add: sv39_setup_def paged_machine_root tlb_coherent_def cached_def)
  moreover have "\<not> leaf_ok (cpus ?m 0) ACC_LOAD 0 0x200000CF"
    by (simp add: leaf_ok_def masks pte_bits)
  ultimately show ?thesis
    using get_pa_denied [of 0 "0x123" ?m ACC_LOAD] paged_machine_walk(1) [of "0x123"]
    by (auto simp: paged_machine_root paged_machine_cpu)
qed

text \<open>
  Large pages: when the page table maps the address by a permitted, correctly aligned leaf at
  level 1 or 2 (a 2 MiB or 1 GiB page), the translation succeeds but yields physical address 0
  for every address of the page, because the two address computations are commented out.
\<close>

theorem superpage_translates_to_zero:
  assumes s: "sv39_setup h va m"
    and pt: "pt_lookup (memory m) va 2 (root_table (cpus m h)) = Some (Suc i, pte)"
    and ok: "leaf_ok (cpus m h) acc (Suc i) pte"
  shows "\<exists>m'. get_pa h va acc m = Inr (0, m') \<and> same_but_tlb h m m' \<and>
    mem_fault (cpus m' h) = mem_fault (cpus m h)"
proof -
  have "\<not> cached (cpus m h) va (asid (cpus m h)) e" for e
    using get_pa_hit [OF s] pt by (metis option.inject prod.inject nat.distinct(1))
  then have miss: "tlb_lookup va acc (asid (cpus m h)) (cpus m h) = (TLB_MISS, cpus m h)"
    by (cases rule: tlb_lookup_cases [of va acc "asid (cpus m h)" "cpus m h"]) auto
  let ?n = "upd_cpu h (\<lambda>c. c\<lparr>satp := csr c CSR_SATP\<rparr>) m"
  let ?m' = "upd_cpu h (tlb_insert va pte (asid (cpus m h))) ?n"
  have "leaf_ok (cpus ?n h) acc (Suc i) pte"
    using ok by (subst leaf_ok_cong [of _ "cpus m h"]) simp_all
  then have "get_pa h va acc m = Inr (0, ?m')"
    using get_pa_miss [OF s miss] pt by (simp add: walk_end_def Let_def leaf_pa_def phys_ok_def)
  moreover have "same_but_tlb h m ?m'"
    unfolding same_but_tlb_def
    by (rule machine.equality)
       (auto simp: tlb_insert_def Let_def set_entry_def intro!: ext CPU_State.equality)
  moreover have "mem_fault (cpus ?m' h) = mem_fault (cpus m h)"
    by (simp add: tlb_insert_def Let_def set_entry_def)
  ultimately show ?thesis by blast
qed

definition superpage_machine :: machine where
  "superpage_machine = le_store poke 0 0x200000CF 8 (upd_cpu 0 (\<lambda>c. c\<lparr>cpu_bus := emu_bus,
     privilege := 1, csr := (csr c)(CSR_SATP := 0x8000000000080000)\<rparr>) blank)"

theorem superpage_translates_to_zero_witness:
  "\<exists>m'. get_pa 0 0x123 ACC_LOAD superpage_machine = Inr (0, m') \<and>
     f_valid (mem_fault (cpus m' 0)) = 0"
proof -
  have cpu: "cpu_bus (cpus superpage_machine 0) = emu_bus"
    "csr (cpus superpage_machine 0) CSR_SATP = 0x8000000000080000" "privilege (cpus superpage_machine 0) = 1"
    "sum (cpus superpage_machine 0) = 0" "tlb (cpus superpage_machine 0) = zero_tlb"
    "h_shl44 (host superpage_machine) = 0" "f_valid (mem_fault (cpus superpage_machine 0)) = 0"
    by (simp_all add: superpage_machine_def frame blank_def zero_machine_def zero_cpu_def)
  have r: "root_table (cpus superpage_machine 0) = 0x80000000"
    by (simp add: root_table_def cpu mask_eq_exp_minus_1 push_bit_eq_mult)
  have e: "pte_at (memory superpage_machine) 0x80000000 = 0x200000CF"
    by (simp add: superpage_machine_def pte_at_def host_mem.load_after_store take_bit_eq_mask mask_eq_exp_minus_1)
  have p: "vpn_part 0x123 2 = 0" by (simp add: vpn_part_def drop_bit_eq_div)
  have w: "pt_lookup (memory superpage_machine) 0x123 2 0x80000000 = Some (2, 0x200000CF)"
    "pt_wf (memory superpage_machine) 0x123 2 0x80000000"
    using pt_leaf_entry [of "memory superpage_machine" "0x123" 2 "0x80000000" "0x200000CF"]
    by (simp_all add: p e pte_bits ram_addr_def drop_bit_eq_div)
  have "sv39_setup 0 0x123 superpage_machine"
    using w by (auto simp: sv39_setup_def cpu r drop_bit_eq_div tlb_coherent_def cached_def covers_def
        tlb_match_def zero_tlb_def zero_entry_def)
  moreover have "leaf_ok (cpus superpage_machine 0) ACC_LOAD 2 0x200000CF"
    by (simp add: leaf_ok_def cpu masks pte_bits Let_def mask_eq_exp_minus_1 drop_bit_eq_div)
  ultimately show ?thesis
    using superpage_translates_to_zero [of 0 "0x123" superpage_machine 1 "0x200000CF" ACC_LOAD] w cpu
    by (auto simp: r numeral_2_eq_2)
qed

text \<open>
  C35. The translation cache on its own: after a flush every lookup misses; a translation that
  was just inserted (and was not cached before) is found again, subject to the permission bits of
  its page-table entry; and the same entry also answers for the address that differs in bit 38,
  since the tag leaves that bit of the page number out.
\<close>

theorem tlb_insert_lookup:
  assumes "\<And>e. \<not> cached c va aid e"
  shows "fst (tlb_lookup va' acc aid' (tlb_flush c)) = TLB_MISS \<and>
    fst (tlb_lookup va acc aid (tlb_insert va pte aid c)) =
      (if perm_ok c acc (bit pte) then TLB_OK (page_pa pte va) else TLB_FAULT) \<and>
    fst (tlb_lookup (va XOR push_bit 38 1) acc aid (tlb_insert va pte aid c)) =
      fst (tlb_lookup va acc aid (tlb_insert va pte aid c))"
proof (intro conjI)
  show "fst (tlb_lookup va' acc aid' (tlb_flush c)) = TLB_MISS"
    using tlb_cache.has_flush [of c va' aid']
    by (cases rule: tlb_lookup_cases [of va' acc aid' "tlb_flush c"]) auto
  let ?c = "tlb_insert va pte aid c" and ?e = "tlb_entry va pte aid (tlb_cnt c)"
  have m: "(0xFFFFFFFFFFF :: u64) = mask 44" by (simp add: mask_eq_exp_minus_1)
  show hit: "fst (tlb_lookup va acc aid ?c) = (if perm_ok c acc (bit pte) then TLB_OK (page_pa pte va) else TLB_FAULT)"
  proof (cases rule: tlb_lookup_cases [of va acc aid ?c])
    case miss
    then show ?thesis using tlb_cache.insert_new by blast
  next
    case (hit i e)
    then have e: "entries (tlb ?c) i = ?e"
      using tlb_cache.has_insert [of va pte aid c va aid "entries (tlb ?c) i"] assms by blast
    have "perm_ok (?c\<lparr>tlb_cnt := tlb_cnt ?c + 1\<rparr>) acc (bit (e_flags e)) = perm_ok c acc (bit (e_flags e))"
      by (rule perm_ok_state) (simp_all add: tlb_insert_def Let_def)
    also have "\<dots> = perm_ok c acc (bit pte)"
    proof (rule perm_ok_cong)
      fix k :: nat assume "k < 5"
      then have "k \<in> {0, 1, 2, 3, 4}" by auto
      then show "bit (e_flags e) k = bit pte k"
        by (simp add: hit(3) e tlb_entry_def Let_def pte_flags_bit) blast
    qed
    finally have p: "perm_ok (?c\<lparr>tlb_cnt := tlb_cnt ?c + 1\<rparr>) acc (bit (e_flags e)) = perm_ok c acc (bit pte)" .
    show ?thesis
    proof (cases "tlb_check (?c\<lparr>tlb_cnt := tlb_cnt ?c + 1\<rparr>) acc e")
      case None
      then have "\<not> perm_ok c acc (bit pte)"
        using p tlb_check_perm [of "?c\<lparr>tlb_cnt := tlb_cnt ?c + 1\<rparr>" acc e] by blast
      with None show ?thesis unfolding hit(4) by simp
    next
      case (Some e')
      have "e_ppn e' = drop_bit 10 pte AND mask 44"
        using tlb_check_entry(2) [OF Some] by (simp add: hit(3) e tlb_entry_def Let_def m)
      moreover have "perm_ok c acc (bit pte)"
        using p Some tlb_check_perm [of "?c\<lparr>tlb_cnt := tlb_cnt ?c + 1\<rparr>" acc e] by blast
      ultimately show ?thesis unfolding hit(4) using Some by (simp add: page_pa_def)
    qed
  qed
  have x: "bit (va XOR push_bit 38 1) k = bit va k" if "k \<noteq> 38" for k
    unfolding bit_xor_iff push_bit_of_1 bit_exp_iff using that by simp
  have v: "vpn26 (va XOR push_bit 38 1) = vpn26 va"
    by (rule bit_word_eqI) (auto simp only: vpn26_bit x)
  have m12: "(0xFFF :: u64) = mask 12" by (simp add: mask_eq_exp_minus_1)
  have o: "(va XOR push_bit 38 1) AND 0xFFF = va AND 0xFFF"
    unfolding m12 by (rule bit_word_eqI) (auto simp only: bit_and_iff bit_mask_iff x)
  show "fst (tlb_lookup (va XOR push_bit 38 1) acc aid ?c) = fst (tlb_lookup va acc aid ?c)"
    unfolding tlb_lookup_def Let_def v o ..
qed

theorem tlb_insert_lookup_witness:
  "fst (tlb_lookup 0x4000000123 ACC_LOAD 0 (tlb_insert 0x123 0x200000CF 0 (cpus paged_machine 0))) = TLB_OK 0x80000123"
proof -
  have "\<not> cached (cpus paged_machine 0) va aid e" for va aid e
    by (auto simp: cached_def covers_def tlb_match_def paged_machine_cpu zero_tlb_def zero_entry_def)
  moreover have "perm_ok (cpus paged_machine 0) ACC_LOAD (bit (0x200000CF :: u64))"
    by (simp add: perm_ok_def paged_machine_cpu pte_bits)
  moreover have "page_pa 0x200000CF 0x123 = 0x80000123" "(0x123 :: u64) XOR push_bit 38 1 = 0x4000000123"
    by (simp_all add: page_pa_def mask_eq_exp_minus_1 push_bit_eq_mult drop_bit_eq_div)
  ultimately show ?thesis
    using tlb_insert_lookup [of "cpus paged_machine 0" "0x123" 0 0 ACC_LOAD 0 "0x200000CF"] by simp
qed

end
