(* ===== verification/Alu.thy ===== *)
theory Alu
  imports Machine "HOL-Library.Signed_Division"
begin

text \<open>
  The instructions of \<open>instructions.c\<close> that work on registers only: immediate and register
  arithmetic, the 32-bit forms, branches and jumps, multiplication and division, and the moves
  between the two register files. A handler is a function of the instruction word and the hart.
  Values narrower than 64 bits are computed at their C width; \<open>int\<close> arithmetic wraps, as on the
  host.
\<close>

section \<open>Fields of an instruction word\<close>

definition rd_of :: "u32 \<Rightarrow> u8" where "rd_of i = ucast (drop_bit 7 i AND 0x1F)"
definition rs1_of :: "u32 \<Rightarrow> u8" where "rs1_of i = ucast (drop_bit 15 i AND 0x1F)"
definition rs2_of :: "u32 \<Rightarrow> u8" where "rs2_of i = ucast (drop_bit 20 i AND 0x1F)"
definition funct3_of :: "u32 \<Rightarrow> u8" where "funct3_of i = ucast (drop_bit 12 i AND 0x7)"
definition funct7_of :: "u32 \<Rightarrow> u8" where "funct7_of i = ucast (drop_bit 25 i AND 0x7F)"

text \<open>The immediates, as the handlers assemble them.\<close>

definition imm_i :: "u32 \<Rightarrow> u64" where
  "imm_i i = sx 20 (drop_bit 20 i AND 0xFFF)"

definition imm12_b :: "u32 \<Rightarrow> u32" where
  "imm12_b i = push_bit 12 (drop_bit 31 i AND 0x1) OR push_bit 5 (drop_bit 25 i AND 0x3F) OR
     push_bit 1 (drop_bit 8 i AND 0xF) OR push_bit 11 (drop_bit 7 i AND 0x1)"

definition imm_j :: "u32 \<Rightarrow> u64" where
  "imm_j i = sx 12 (push_bit 20 (drop_bit 31 i AND 0x1) OR push_bit 12 (drop_bit 12 i AND 0xFF) OR
     push_bit 11 (drop_bit 20 i AND 0x1) OR push_bit 1 (drop_bit 21 i AND 0x3FF))"

section \<open>Register updates\<close>

text \<open>\<open>cpu->gpr[rd] = v\<close>, and the same under the test \<open>rd != 0\<close>.\<close>

definition put_gpr :: "u8 \<Rightarrow> u64 \<Rightarrow> CPU_State \<Rightarrow> CPU_State" where
  "put_gpr rd v c = c\<lparr>gpr := (gpr c)(rd := v)\<rparr>"

definition write_gpr :: "u8 \<Rightarrow> u64 \<Rightarrow> CPU_State \<Rightarrow> CPU_State" where
  "write_gpr rd v c = (if rd \<noteq> 0 then put_gpr rd v c else c)"

definition advance :: "u64 \<Rightarrow> CPU_State \<Rightarrow> CPU_State" where
  "advance n c = c\<lparr>pc := pc c + n\<rparr>"

section \<open>Immediate instructions\<close>

definition exec_addi :: "u32 \<Rightarrow> CPU_State \<Rightarrow> CPU_State" where
  "exec_addi i c = advance 4 (write_gpr (rd_of i) (gpr c (rs1_of i) + imm_i i) c)"

definition exec_xori :: "u32 \<Rightarrow> CPU_State \<Rightarrow> CPU_State" where
  "exec_xori i c = advance 4 (write_gpr (rd_of i) (gpr c (rs1_of i) XOR sx 20 (drop_bit 20 i)) c)"

text \<open>
  The handlers' messages are not modelled, but this one reads outside an array: with
  \<open>log_enable\<close> set it prints \<open>cpu->gpr[rs1,imm]\<close>, where the comma operator makes \<open>imm\<close> the index. The
  value read, \<open>None\<close> when the index is not one of the 32 registers.
\<close>

definition xori_message_read :: "u32 \<Rightarrow> CPU_State \<Rightarrow> u64 option" where
  "xori_message_read i c =
     (let imm = sx 20 (drop_bit 20 i) in
      if unat imm < 32 then Some (gpr c (ucast imm)) else None)"

definition exec_ori :: "u32 \<Rightarrow> CPU_State \<Rightarrow> CPU_State" where
  "exec_ori i c =
     (let imm = scast (signed_drop_bit 20 (i AND 0xFFF00000))
      in advance 4 (write_gpr (rd_of i) (gpr c (rs1_of i) OR imm) c))"

definition exec_andi :: "u32 \<Rightarrow> CPU_State \<Rightarrow> CPU_State" where
  "exec_andi i c =
     (let imm = scast (signed_drop_bit 20 i)
      in advance 4 (write_gpr (rd_of i) (gpr c (rs1_of i) AND imm) c))"

definition exec_slti :: "u32 \<Rightarrow> CPU_State \<Rightarrow> CPU_State" where
  "exec_slti i c = advance 4 (write_gpr (rd_of i) (if gpr c (rs1_of i) <s imm_i i then 1 else 0) c)"

definition exec_sltiu :: "u32 \<Rightarrow> CPU_State \<Rightarrow> CPU_State" where
  "exec_sltiu i c = advance 4 (write_gpr (rd_of i) (if gpr c (rs1_of i) < imm_i i then 1 else 0) c)"

definition exec_slli :: "u32 \<Rightarrow> CPU_State \<Rightarrow> CPU_State" where
  "exec_slli i c =
     (let shamt = unat (drop_bit 20 i AND 0x3F)
      in advance 4 (write_gpr (rd_of i) (push_bit shamt (gpr c (rs1_of i))) c))"

definition exec_si :: "u32 \<Rightarrow> CPU_State \<Rightarrow> CPU_State" where
  "exec_si i c =
     (let funct7 = drop_bit 26 i AND 0x3F; shamt = unat (drop_bit 20 i AND 0x3F);
          c = (if funct7 = 0 then write_gpr (rd_of i) (drop_bit shamt (gpr c (rs1_of i))) c
               else if funct7 = 0x10 then write_gpr (rd_of i) (signed_drop_bit shamt (gpr c (rs1_of i))) c
               else c)
      in advance 4 c)"

definition exec_lui :: "u32 \<Rightarrow> CPU_State \<Rightarrow> CPU_State" where
  "exec_lui i c = advance 4 (write_gpr (rd_of i) (scast (i AND 0xFFFFF000)) c)"

definition exec_auipc :: "u32 \<Rightarrow> CPU_State \<Rightarrow> CPU_State" where
  "exec_auipc i c = advance 4 (write_gpr (rd_of i) (pc c + scast (i AND 0xFFFFF000)) c)"

text \<open>\<open>exec_iw\<close>: the 32-bit immediate forms.\<close>

definition exec_iw :: "u32 \<Rightarrow> CPU_State \<Rightarrow> CPU_State" where
  "exec_iw i c =
     (let imm = signed_drop_bit 20 (push_bit 20 (drop_bit 20 i AND 0xFFF));
          shamt = unat (drop_bit 20 i AND 0x1F);
          v = (ucast (gpr c (rs1_of i)) :: u32);
          c = (if funct3_of i = 0 then write_gpr (rd_of i) (scast (v + imm)) c
               else if funct3_of i = 1 then write_gpr (rd_of i) (scast (push_bit shamt v)) c
               else if funct3_of i = 5 then
                 (if funct7_of i = 0 then write_gpr (rd_of i) (scast (drop_bit shamt v)) c
                  else if funct7_of i = 0x20 then write_gpr (rd_of i) (scast (signed_drop_bit shamt v)) c
                  else c)
               else c)
      in advance 4 c)"

section \<open>Register instructions\<close>

definition r_op :: "(u64 \<Rightarrow> u64 \<Rightarrow> u64) \<Rightarrow> u32 \<Rightarrow> CPU_State \<Rightarrow> CPU_State" where
  "r_op f i c = advance 4 (write_gpr (rd_of i) (f (gpr c (rs1_of i)) (gpr c (rs2_of i))) c)"

definition exec_add :: "u32 \<Rightarrow> CPU_State \<Rightarrow> CPU_State" where
  "exec_add = r_op (+)"

definition exec_sub :: "u32 \<Rightarrow> CPU_State \<Rightarrow> CPU_State" where
  "exec_sub = r_op (-)"

definition exec_xor :: "u32 \<Rightarrow> CPU_State \<Rightarrow> CPU_State" where
  "exec_xor = r_op (XOR)"

definition exec_sltu :: "u32 \<Rightarrow> CPU_State \<Rightarrow> CPU_State" where
  "exec_sltu = r_op (\<lambda>a b. if a < b then 1 else 0)"

definition exec_and :: "u32 \<Rightarrow> CPU_State \<Rightarrow> CPU_State" where
  "exec_and i c = put_gpr 0 0 (r_op (AND) i c)"

definition exec_or :: "u32 \<Rightarrow> CPU_State \<Rightarrow> CPU_State" where
  "exec_or i c = put_gpr 0 0 (r_op (OR) i c)"

definition exec_srl :: "u32 \<Rightarrow> CPU_State \<Rightarrow> CPU_State" where
  "exec_srl = r_op (\<lambda>a b. drop_bit (unat (b AND 0x3F)) a)"

definition exec_mul :: "u32 \<Rightarrow> CPU_State \<Rightarrow> CPU_State" where
  "exec_mul = r_op (\<lambda>a b. (a * b) AND 0xFFFFFFFF)"

definition exec_remu :: "u32 \<Rightarrow> CPU_State \<Rightarrow> CPU_State" where
  "exec_remu = r_op (\<lambda>a b. if b = 0 then a else a mod b)"

definition exec_divu :: "u32 \<Rightarrow> CPU_State \<Rightarrow> CPU_State" where
  "exec_divu = r_op (\<lambda>a b. if b = 0 then 0xFFFFFFFFFFFFFFFF else a div b)"

text \<open>
  \<open>exec_div\<close>: the test \<open>rs2 == 0\<close> is on the register number. In that case the dividend is
  copied to \<open>gpr[rd]\<close> without a guard, and then overwritten with 0 unless \<open>rd\<close> is 0.
\<close>

definition exec_div :: "u32 \<Rightarrow> CPU_State \<Rightarrow> CPU_State" where
  "exec_div i c =
     (let rd = rd_of i; dividend = gpr c (rs1_of i); divisor = gpr c (rs2_of i);
          (result, c) =
            (if rs2_of i = 0 then (0, put_gpr rd (gpr c (rs1_of i)) c)
             else if divisor = 0 then (-1, c)
             else if sint dividend = - (2 ^ 63) \<and> sint divisor = -1 then (dividend, c)
             else (word_of_int (sint dividend sdiv sint divisor), c))
      in advance 4 (write_gpr rd result c))"

text \<open>
  \<open>exec_3b\<close>: the 32-bit register forms. \<open>sllw\<close> writes \<open>gpr[rd]\<close> without a guard; an unknown
  form does not move the program counter.
\<close>

definition exec_3b :: "u32 \<Rightarrow> CPU_State \<Rightarrow> CPU_State" where
  "exec_3b i c =
     (let funct7 = funct7_of i; funct3 = funct3_of i; rd = rd_of i;
          a = (ucast (gpr c (rs1_of i)) :: u32); b = (ucast (gpr c (rs2_of i)) :: u32) in
      if funct7 = 0 \<and> funct3 = 1 then
        advance 4 (put_gpr rd (scast (push_bit (unat (gpr c (rs2_of i) AND 0x1F)) a)) c)
      else if funct7 = 1 \<and> funct3 = 7 then
        advance 4 (write_gpr rd (scast (if b = 0 then a else a mod b)) c)
      else if funct7 = 1 \<and> funct3 = 5 then
        advance 4 (write_gpr rd (scast (if b = 0 then 0xFFFFFFFF else a div b)) c)
      else if funct7 = 0 \<and> funct3 = 0 then advance 4 (write_gpr rd (scast (a + b)) c)
      else if funct7 = 0x20 \<and> funct3 = 0 then advance 4 (write_gpr rd (scast (a - b)) c)
      else c)"

section \<open>Jumps and branches\<close>

definition exec_jal :: "u32 \<Rightarrow> CPU_State \<Rightarrow> CPU_State" where
  "exec_jal i c = advance (imm_j i) (write_gpr (rd_of i) (pc c + 4) c)"

definition exec_jalr :: "u32 \<Rightarrow> CPU_State \<Rightarrow> CPU_State" where
  "exec_jalr i c =
     (let addr = (gpr c (rs1_of i) + imm_i i) AND NOT 1
      in (write_gpr (rd_of i) (pc c + 4) c)\<lparr>pc := addr\<rparr>)"

definition branch :: "(u64 \<Rightarrow> u64 \<Rightarrow> bool) \<Rightarrow> nat \<Rightarrow> u32 \<Rightarrow> CPU_State \<Rightarrow> CPU_State" where
  "branch cond k i c =
     (if cond (gpr c (rs1_of i)) (gpr c (rs2_of i)) then advance (sx k (imm12_b i)) c else advance 4 c)"

definition exec_beq :: "u32 \<Rightarrow> CPU_State \<Rightarrow> CPU_State" where
  "exec_beq = branch (=) 19"

definition exec_bne :: "u32 \<Rightarrow> CPU_State \<Rightarrow> CPU_State" where
  "exec_bne = branch (\<noteq>) 19"

definition exec_bltu :: "u32 \<Rightarrow> CPU_State \<Rightarrow> CPU_State" where
  "exec_bltu = branch (<) 19"

definition exec_bgeu :: "u32 \<Rightarrow> CPU_State \<Rightarrow> CPU_State" where
  "exec_bgeu = branch (\<ge>) 19"

text \<open>\<open>exec_bge\<close> compares the \<open>uint64_t\<close> registers; \<open>exec_blt\<close> shifts by 20 instead of 19.\<close>

definition exec_bge :: "u32 \<Rightarrow> CPU_State \<Rightarrow> CPU_State" where
  "exec_bge = branch (\<ge>) 19"

definition exec_blt :: "u32 \<Rightarrow> CPU_State \<Rightarrow> CPU_State" where
  "exec_blt = branch (<s) 20"

section \<open>Fences and floating-point moves\<close>

definition exec_fence :: "u32 \<Rightarrow> CPU_State \<Rightarrow> CPU_State" where
  "exec_fence i c = (if funct3_of i = 0 then advance 4 c else if funct3_of i = 1 then advance 4 c else c)"

definition exec_float :: "u32 \<Rightarrow> CPU_State \<Rightarrow> CPU_State" where
  "exec_float i c =
     (let rd = rd_of i; rs1 = rs1_of i; ok = rs2_of i = 0 \<and> funct3_of i = 0;
          c = (if funct7_of i = 0x70 then (if ok then put_gpr rd (sext32 (fgpr c rs1 AND 0xFFFFFFFF)) c else c)
               else if funct7_of i = 0x78 then
                 (if ok then c\<lparr>fgpr := (fgpr c)(rd := gpr c rs1 AND 0xFFFFFFFF)\<rparr> else c)
               else if funct7_of i = 0x71 then (if ok then put_gpr rd (fgpr c rs1) c else c)
               else if funct7_of i = 0x79 then (if ok then c\<lparr>fgpr := (fgpr c)(rd := gpr c rs1)\<rparr> else c)
               else c)
      in advance 4 c)"

end
