(* ===== verification/Load_Store.thy ===== *)
theory Load_Store
  imports Mmu Alu
begin

text \<open>
  The instructions of \<open>instructions.c\<close> that access memory: loads, stores and atomics. They
  translate the address with \<open>get_pa\<close> and then go to the bus of their hart; a translation fault
  is only recorded, so the access still happens, at physical address 0.
\<close>

section \<open>Stores\<close>

definition cpu_store8_pa :: "nat \<Rightarrow> u64 \<Rightarrow> u8 \<Rightarrow> machine \<Rightarrow> machine res" where
  "cpu_store8_pa h pa v m = bus_write (cpu_bus (cpus m h)) pa (ucast v) 1 m"

definition cpu_store16_pa :: "nat \<Rightarrow> u64 \<Rightarrow> u16 \<Rightarrow> machine \<Rightarrow> machine res" where
  "cpu_store16_pa h pa v m = bus_write (cpu_bus (cpus m h)) pa (ucast v) 2 m"

definition cpu_store32_pa :: "nat \<Rightarrow> u64 \<Rightarrow> u32 \<Rightarrow> machine \<Rightarrow> machine res" where
  "cpu_store32_pa h pa v m = bus_write (cpu_bus (cpus m h)) pa (ucast v) 4 m"

definition cpu_store64_pa :: "nat \<Rightarrow> u64 \<Rightarrow> u64 \<Rightarrow> machine \<Rightarrow> machine res" where
  "cpu_store64_pa h pa v m = bus_write (cpu_bus (cpus m h)) pa v 8 m"

definition imm_s :: "u32 \<Rightarrow> u64" where
  "imm_s i = sx 20 (push_bit 5 (drop_bit 25 i AND 0x7F) OR (drop_bit 7 i AND 0x1F))"

definition exec_store :: "nat \<Rightarrow> u32 \<Rightarrow> machine \<Rightarrow> machine res" where
  "exec_store h i m =
     (let addr = gpr (cpus m h) (rs1_of i) + imm_s i;
          v = gpr (cpus m h) (rs2_of i); funct3 = funct3_of i
      in rbind (get_pa h addr ACC_STORE m) (\<lambda>(pa, m).
         rbind (if funct3 = 0 then cpu_store8_pa h pa (ucast (v AND 0xFF)) m
                else if funct3 = 1 then cpu_store16_pa h pa (ucast (v AND 0xFFFF)) m
                else if funct3 = 2 then cpu_store32_pa h pa (ucast (v AND 0xFFFFFFFF)) m
                else if funct3 = 3 then cpu_store64_pa h pa v m
                else Inr m) (\<lambda>m. Inr (upd_cpu h (advance 4) m))))"

section \<open>Loads\<close>

text \<open>Reading through the bus of the hart; the read happens even when \<open>rd\<close> is 0.\<close>

definition hart_read :: "nat \<Rightarrow> u64 \<Rightarrow> nat \<Rightarrow> machine \<Rightarrow> (u64 \<times> machine) res" where
  "hart_read h addr n m = bus_read (cpu_bus (cpus m h)) addr n m"

definition load_into :: "(u64 \<Rightarrow> u64) \<Rightarrow> nat \<Rightarrow> nat \<Rightarrow> u64 \<Rightarrow> u8 \<Rightarrow> machine \<Rightarrow> machine res" where
  "load_into conv n h addr rd m =
     rbind (hart_read h addr n m) (\<lambda>(v, m). Inr (upd_cpu h (write_gpr rd (conv v)) m))"

definition load_lb :: "nat \<Rightarrow> u64 \<Rightarrow> u8 \<Rightarrow> machine \<Rightarrow> machine res" where
  "load_lb = load_into (\<lambda>v. scast (ucast v :: u8)) 1"

definition load_lh :: "nat \<Rightarrow> u64 \<Rightarrow> u8 \<Rightarrow> machine \<Rightarrow> machine res" where
  "load_lh = load_into (\<lambda>v. scast (ucast v :: u16)) 2"

definition load_lbu :: "nat \<Rightarrow> u64 \<Rightarrow> u8 \<Rightarrow> machine \<Rightarrow> machine res" where
  "load_lbu = load_into (\<lambda>v. ucast (ucast v :: u32)) 1"

text \<open>\<open>load_lw\<close> casts to \<open>uint32_t\<close>, so the word is zero-extended.\<close>

definition load_lw :: "nat \<Rightarrow> u64 \<Rightarrow> u8 \<Rightarrow> machine \<Rightarrow> machine res" where
  "load_lw = load_into (\<lambda>v. ucast (ucast v :: u32)) 4"

definition exec_load :: "nat \<Rightarrow> u32 \<Rightarrow> machine \<Rightarrow> machine res" where
  "exec_load h i m =
     (let funct3 = funct3_of i; rd = rd_of i;
          addr = gpr (cpus m h) (rs1_of i) + imm_i i
      in rbind (get_pa h addr ACC_LOAD m) (\<lambda>(addr, m).
         rbind (if funct3 = 0 then load_lb h addr rd m
                else if funct3 = 1 then load_lh h addr rd m
                else if funct3 = 2 then load_lw h addr rd m
                else if funct3 = 3 then load_into (\<lambda>v. v) 8 h addr rd m
                else if funct3 = 4 then load_lbu h addr rd m
                else if funct3 = 5 then load_into (\<lambda>v. v AND 0xFFFF) 2 h addr rd m
                else if funct3 = 6 then load_into (\<lambda>v. ucast (ucast v :: u32)) 4 h addr rd m
                else Inr m) (\<lambda>m. Inr (upd_cpu h (advance 4) m))))"

section \<open>Atomics\<close>

text \<open>
  Only \<open>amoswap.w\<close> and \<open>amoadd.w\<close> exist; every other encoding translates the address and leaves
  the program counter where it is.
\<close>

definition exec_amo :: "nat \<Rightarrow> u32 \<Rightarrow> machine \<Rightarrow> machine res" where
  "exec_amo h i m =
     (let rd = rd_of i; funct3 = funct3_of i; rs1 = rs1_of i; rs2 = rs2_of i;
          funct5 = drop_bit 27 i AND 0x1F
      in rbind (get_pa h (gpr (cpus m h) rs1) ACC_STORE m) (\<lambda>(addr, m).
         if funct3 = 2 then
          (if funct5 = 1 then
            (if gpr (cpus m h) rs1 mod 4 \<noteq> 0 then Inr (upd_cpu h (\<lambda>c. c\<lparr>halted := True\<rparr>) m)
             else rbind (hart_read h addr 4 m) (\<lambda>(old, m).
                  rbind (bus_write (cpu_bus (cpus m h)) addr (gpr (cpus m h) rs2) 4 m) (\<lambda>m.
                  Inr (upd_cpu h (\<lambda>c. advance 4 (write_gpr rd (ucast (ucast old :: u32)) c)) m))))
           else if funct5 = 0 then
            (let v = gpr (cpus m h) rs2 in
             rbind (hart_read h addr 4 m) (\<lambda>(old, m).
             rbind (bus_write (cpu_bus (cpus m h)) addr (v + old) 4 m) (\<lambda>m.
             Inr (upd_cpu h (\<lambda>c. advance 4 (write_gpr rd (sext32 old) c)) m))))
           else Inr m)
         else Inr m))"

end
