(* ===== verification/Compressed.thy ===== *)
theory Compressed
  imports Load_Store
begin

text \<open>
  The 16-bit instructions: \<open>exec_c0\<close>, \<open>exec_c1\<close> and \<open>exec_c2\<close>, one quadrant each, with their
  immediates put together field by field as in the source. The instruction word is promoted to
  \<open>int\<close> before it is shifted, so fields are taken from its zero-extension.
\<close>

definition cfunct3 :: "u32 \<Rightarrow> u32" where
  "cfunct3 i = drop_bit 13 i AND 0x7"

text \<open>The three-bit register fields stand for x8 to x15.\<close>

definition creg :: "nat \<Rightarrow> u32 \<Rightarrow> u8" where
  "creg k i = ucast ((drop_bit k i AND 0x7) + 8)"

definition cfield :: "nat \<Rightarrow> u32 \<Rightarrow> nat \<Rightarrow> u32 \<Rightarrow> u32" where
  "cfield k w to i = push_bit to (drop_bit k i AND w)"

section \<open>Quadrant 0\<close>

definition c_addi4spn :: "u32 \<Rightarrow> CPU_State \<Rightarrow> CPU_State" where
  "c_addi4spn i c =
     (let rd = creg 2 i;
          imm10 = cfield 5 0x1 3 i OR cfield 6 0x1 2 i OR cfield 7 0xF 6 i OR cfield 11 0x3 4 i
      in advance 2 (if imm10 \<noteq> 0 then put_gpr rd (gpr c 2 + ucast imm10) c else c))"

definition imm_cw :: "u32 \<Rightarrow> u64" where
  "imm_cw i = ucast (cfield 10 0x7 3 i OR cfield 6 0x1 2 i OR cfield 5 0x1 6 i)"

definition imm_cd :: "u32 \<Rightarrow> u64" where
  "imm_cd i = ucast (cfield 10 0x7 3 i OR cfield 5 0x3 6 i)"

definition c_lw :: "nat \<Rightarrow> u32 \<Rightarrow> machine \<Rightarrow> machine res" where
  "c_lw h i m =
     rbind (get_pa h (gpr (cpus m h) (creg 7 i) + imm_cw i) ACC_LOAD m) (\<lambda>(pa, m).
     rbind (if creg 2 i \<noteq> 0 then load_into sext32 4 h pa (creg 2 i) m else Inr m) (\<lambda>m.
     Inr (upd_cpu h (advance 2) m)))"

definition c_sw :: "nat \<Rightarrow> u32 \<Rightarrow> machine \<Rightarrow> machine res" where
  "c_sw h i m =
     rbind (get_pa h (gpr (cpus m h) (creg 7 i) + imm_cw i) ACC_STORE m) (\<lambda>(pa, m).
     rbind (bus_write (cpu_bus (cpus m h)) pa (gpr (cpus m h) (creg 2 i)) 4 m) (\<lambda>m.
     Inr (upd_cpu h (advance 2) m)))"

definition c_sd :: "nat \<Rightarrow> u32 \<Rightarrow> machine \<Rightarrow> machine res" where
  "c_sd h i m =
     rbind (get_pa h (gpr (cpus m h) (creg 7 i) + imm_cd i) ACC_STORE m) (\<lambda>(pa, m).
     rbind (bus_write (cpu_bus (cpus m h)) pa (gpr (cpus m h) (creg 2 i)) 8 m) (\<lambda>m.
     Inr (upd_cpu h (advance 2) m)))"

definition c_ld :: "nat \<Rightarrow> u32 \<Rightarrow> machine \<Rightarrow> machine res" where
  "c_ld h i m =
     rbind (get_pa h (gpr (cpus m h) (creg 7 i) + imm_cd i) ACC_LOAD m) (\<lambda>(pa, m).
     rbind (hart_read h pa 8 m) (\<lambda>(v, m).
     Inr (upd_cpu h (\<lambda>c. advance 2 (put_gpr (creg 2 i) v c)) m)))"

definition exec_c0 :: "nat \<Rightarrow> u16 \<Rightarrow> machine \<Rightarrow> machine res" where
  "exec_c0 h instr m =
     (let i = ucast instr; funct3 = cfunct3 i in
      if funct3 = 0 then Inr (upd_cpu h (c_addi4spn i) m)
      else if funct3 = 2 then c_lw h i m
      else if funct3 = 6 then c_sw h i m
      else if funct3 = 7 then c_sd h i m
      else if funct3 = 3 then c_ld h i m
      else Inr m)"

section \<open>Quadrant 1\<close>

definition imm6_c :: "u32 \<Rightarrow> u32" where
  "imm6_c i = cfield 2 0x1F 0 i OR cfield 12 0x1 5 i"

definition c_addi :: "u32 \<Rightarrow> CPU_State \<Rightarrow> CPU_State" where
  "c_addi i c = (let rd = rd_of i in advance 2 (write_gpr rd (gpr c rd + sx 26 (imm6_c i)) c))"

definition imm_cj :: "u32 \<Rightarrow> u64" where
  "imm_cj i = sx 20 (cfield 2 0x1 5 i OR cfield 3 0x7 1 i OR cfield 6 0x1 7 i OR cfield 7 0x1 6 i OR
     cfield 8 0x1 10 i OR cfield 9 0x3 8 i OR cfield 11 0x1 4 i OR cfield 12 0x1 11 i)"

text \<open>\<open>c.addiw\<close> adds in 64 bits; with \<open>rd\<close> 0 the encoding is taken as \<open>c.jal\<close>.\<close>

definition c_addiw :: "u32 \<Rightarrow> CPU_State \<Rightarrow> CPU_State" where
  "c_addiw i c =
     (let rd = rd_of i in
      if rd \<noteq> 0 then advance 2 (put_gpr rd (gpr c rd + sx 26 (imm6_c i)) c)
      else advance (imm_cj i) (put_gpr 1 (pc c + 2) c))"

definition c_li :: "u32 \<Rightarrow> CPU_State \<Rightarrow> CPU_State" where
  "c_li i c = advance 2 (write_gpr (rd_of i) (sx 26 (imm6_c i)) c)"

definition c_lui_addi16sp :: "u32 \<Rightarrow> CPU_State \<Rightarrow> CPU_State" where
  "c_lui_addi16sp i c =
     (let rd = rd_of i in
      if rd \<noteq> 2 then
        (let imm = sx 14 (cfield 2 0x1F 12 i OR cfield 12 0x1 17 i)
         in advance 2 (if rd \<noteq> 0 \<and> rd \<noteq> 2 then put_gpr rd imm c else c))
      else
        (let imm = sx 22 (cfield 2 0x1 5 i OR cfield 3 0x3 7 i OR cfield 5 0x1 6 i OR cfield 6 0x1 4 i OR
                     cfield 12 0x1 9 i)
         in advance 2 (put_gpr rd (gpr c rd + imm) c)))"

definition c_alu :: "u32 \<Rightarrow> CPU_State \<Rightarrow> CPU_State" where
  "c_alu i c =
     (let rd = creg 7 i; rs2 = creg 2 i;
          funct2_56 = drop_bit 5 i AND 0x3; funct2_10_11 = drop_bit 10 i AND 0x3;
          shamt = unat (imm6_c i) in
      if funct2_10_11 = 0 then advance 2 (put_gpr rd (drop_bit shamt (gpr c rd)) c)
      else if funct2_10_11 = 1 then advance 2 (put_gpr rd (signed_drop_bit shamt (gpr c rd)) c)
      else if funct2_10_11 = 2 then advance 2 (put_gpr rd (gpr c rd AND sx 26 (imm6_c i)) c)
      else if funct2_56 = 3 then advance 2 (put_gpr rd (gpr c rd AND gpr c rs2) c)
      else if funct2_56 = 2 then advance 2 (put_gpr rd (gpr c rd OR gpr c rs2) c)
      else if funct2_56 = 0 then advance 2 (put_gpr rd (gpr c rd - gpr c rs2) c)
      else advance 2 (put_gpr rd (scast ((ucast (gpr c rd) :: u32) + ucast (gpr c rs2))) c))"

definition c_j :: "u32 \<Rightarrow> CPU_State \<Rightarrow> CPU_State" where
  "c_j i c = advance (imm_cj i) c"

definition imm_cb :: "u32 \<Rightarrow> u64" where
  "imm_cb i = sx 23 (cfield 3 0x3 1 i OR cfield 10 0x3 3 i OR cfield 2 0x1 5 i OR cfield 5 0x3 6 i OR
     cfield 12 0x1 8 i)"

definition c_branch :: "(u64 \<Rightarrow> bool) \<Rightarrow> u32 \<Rightarrow> CPU_State \<Rightarrow> CPU_State" where
  "c_branch cond i c = (if cond (gpr c (creg 7 i)) then advance (imm_cb i) c else advance 2 c)"

definition exec_c1 :: "u16 \<Rightarrow> CPU_State \<Rightarrow> CPU_State" where
  "exec_c1 instr c =
     (let i = ucast instr; funct3 = cfunct3 i in
      if funct3 = 0 then c_addi i c
      else if funct3 = 1 then c_addiw i c
      else if funct3 = 2 then c_li i c
      else if funct3 = 3 then c_lui_addi16sp i c
      else if funct3 = 4 then c_alu i c
      else if funct3 = 5 then c_j i c
      else if funct3 = 7 then c_branch (\<lambda>v. v \<noteq> 0) i c
      else c_branch (\<lambda>v. v = 0) i c)"

section \<open>Quadrant 2\<close>

definition crs2 :: "u32 \<Rightarrow> u8" where
  "crs2 i = ucast (drop_bit 2 i AND 0x1F)"

definition c_slli :: "u32 \<Rightarrow> CPU_State \<Rightarrow> CPU_State" where
  "c_slli i c = (let rd = rd_of i in advance 2 (write_gpr rd (push_bit (unat (imm6_c i)) (gpr c rd)) c))"

text \<open>\<open>c.lwsp\<close> translates its address as a store and zero-extends the word.\<close>

definition c_lwsp :: "nat \<Rightarrow> u32 \<Rightarrow> machine \<Rightarrow> machine res" where
  "c_lwsp h i m =
     (let rd = rd_of i; imm = ucast (cfield 4 0x7 2 i OR cfield 12 0x1 5 i OR cfield 2 0x3 6 i)
      in rbind (get_pa h (gpr (cpus m h) 2 + imm) ACC_STORE m) (\<lambda>(pa, m).
         rbind (if rd \<noteq> 0 then load_into (\<lambda>v. v) 4 h pa rd m else Inr m) (\<lambda>m.
         Inr (upd_cpu h (advance 2) m))))"

text \<open>\<open>c.ldsp\<close> writes \<open>gpr[rd]\<close> without a guard.\<close>

definition c_ldsp :: "nat \<Rightarrow> u32 \<Rightarrow> machine \<Rightarrow> machine res" where
  "c_ldsp h i m =
     (let rd = rd_of i; imm = ucast (cfield 2 0x7 6 i OR cfield 5 0x3 3 i OR cfield 12 0x1 5 i)
      in rbind (get_pa h (gpr (cpus m h) 2 + imm) ACC_LOAD m) (\<lambda>(pa, m).
         rbind (hart_read h pa 8 m) (\<lambda>(v, m).
         Inr (upd_cpu h (\<lambda>c. advance 2 (put_gpr rd v c)) m))))"

definition c_swsp :: "nat \<Rightarrow> u32 \<Rightarrow> machine \<Rightarrow> machine res" where
  "c_swsp h i m =
     (let imm = ucast (cfield 7 0x3 6 i OR cfield 9 0xF 2 i)
      in rbind (get_pa h (gpr (cpus m h) 2 + imm) ACC_STORE m) (\<lambda>(pa, m).
         rbind (bus_write (cpu_bus (cpus m h)) pa (gpr (cpus m h) (crs2 i)) 4 m) (\<lambda>m.
         Inr (upd_cpu h (advance 2) m))))"

definition c_sdsp :: "nat \<Rightarrow> u32 \<Rightarrow> machine \<Rightarrow> machine res" where
  "c_sdsp h i m =
     (let imm = ucast (cfield 7 0x7 6 i OR cfield 10 0x7 3 i)
      in rbind (get_pa h (gpr (cpus m h) 2 + imm) ACC_STORE m) (\<lambda>(pa, m).
         rbind (bus_write (cpu_bus (cpus m h)) pa (gpr (cpus m h) (crs2 i)) 8 m) (\<lambda>m.
         Inr (upd_cpu h (advance 2) m))))"

text \<open>
  \<open>c.jr\<close>, \<open>c.jalr\<close>, \<open>c.mv\<close> and \<open>c.add\<close>. With both register fields 0 the program counter does not
  move (\<open>c.ebreak\<close> only writes \<open>gpr[1]\<close>). \<open>c.jalr\<close> writes \<open>gpr[1]\<close> before it reads the target.
\<close>

definition c_jr_mv_add :: "u32 \<Rightarrow> CPU_State \<Rightarrow> CPU_State" where
  "c_jr_mv_add i c =
     (let rd = rd_of i; rs1 = rd_of i; rs2 = crs2 i; instr12 = drop_bit 12 i AND 0x1 in
      if rs2 = 0 then
        (if instr12 = 0 then (if rs1 \<noteq> 0 then c\<lparr>pc := gpr c rs1\<rparr> else c)
         else (let c = put_gpr 1 (pc c + 2) c
               in if rs1 \<noteq> 0 then c\<lparr>pc := gpr c rs1 AND NOT 1\<rparr> else c))
      else if rs1 \<noteq> 0 then
        (if instr12 = 0 then advance 2 (put_gpr rs1 (gpr c rs2) c)
         else advance 2 (put_gpr rd (gpr c rs1 + gpr c rs2) c))
      else c)"

definition exec_c2 :: "nat \<Rightarrow> u16 \<Rightarrow> machine \<Rightarrow> machine res" where
  "exec_c2 h instr m =
     (let i = ucast instr; funct3 = cfunct3 i in
      if funct3 = 0 then Inr (upd_cpu h (c_slli i) m)
      else if funct3 = 2 then c_lwsp h i m
      else if funct3 = 3 then c_ldsp h i m
      else if funct3 = 6 then c_swsp h i m
      else if funct3 = 4 then Inr (upd_cpu h (c_jr_mv_add i) m)
      else if funct3 = 7 then c_sdsp h i m
      else Inr m)"

end
