(* ===== verification/Trap.thy ===== *)
theory Trap
  imports Machine
begin

text \<open>
  Traps and interrupts (\<open>trap.c\<close>): entry into supervisor and machine mode, the return from machine
  mode, and the choice of the interrupt to take between two instructions. All of them change one
  hart only, so they are functions on its state. The masks of \<open>sstatus\<close> are \<open>int\<close>
  constants, whose complement is sign-extended; those of \<open>mstatus\<close> and \<open>mip\<close> are
  \<open>unsigned int\<close>, whose complement also clears the upper half of the register.
\<close>

abbreviation (input) IRQ_S_SOFT :: u64 where "IRQ_S_SOFT \<equiv> 1"
abbreviation (input) IRQ_M_SOFT :: u64 where "IRQ_M_SOFT \<equiv> 3"
abbreviation (input) IRQ_S_TIMER :: u64 where "IRQ_S_TIMER \<equiv> 5"
abbreviation (input) IRQ_M_TIMER :: u64 where "IRQ_M_TIMER \<equiv> 7"
abbreviation (input) IRQ_S_EXT :: u64 where "IRQ_S_EXT \<equiv> 9"
abbreviation (input) IRQ_M_EXT :: u64 where "IRQ_M_EXT \<equiv> 11"

definition should_delegate_to_smode :: "CPU_State \<Rightarrow> u64 \<Rightarrow> bool" where
  "should_delegate_to_smode c cause =
     (let mideleg = read_csr c CSR_MIDELEG in
      if cause = IRQ_S_SOFT \<or> cause = IRQ_S_TIMER \<or> cause = IRQ_S_EXT then True
      else if cause = IRQ_M_TIMER then drop_bit 5 mideleg AND 1 \<noteq> 0
      else if cause = IRQ_M_EXT then drop_bit 9 mideleg AND 1 \<noteq> 0
      else if cause = IRQ_M_SOFT then drop_bit 1 mideleg AND 1 \<noteq> 0
      else False)"

section \<open>Trap entry\<close>

definition trap_target :: "u64 \<Rightarrow> u64 \<Rightarrow> bool \<Rightarrow> u64" where
  "trap_target tvec cause is_interrupt =
     (let base = tvec AND NOT 3; md = tvec AND 3 in
      if md = 1 \<and> is_interrupt then base + push_bit 2 cause else base)"

definition take_smode_trap :: "u64 \<Rightarrow> bool \<Rightarrow> CPU_State \<Rightarrow> CPU_State" where
  "take_smode_trap cause is_interrupt c =
     (let c = write_csr CSR_SEPC (pc c) c;
          scause = (if is_interrupt then push_bit 63 1 OR (cause AND 0x7fffffff) else cause AND 0x7fffffff);
          c = write_csr CSR_SCAUSE scause c;
          c = write_csr CSR_STVAL 0 c;
          sstatus = read_csr c CSR_SSTATUS;
          sstatus = (if sstatus AND SSTATUS_SIE \<noteq> 0 then sstatus OR SSTATUS_SPIE
                     else sstatus AND NOT SSTATUS_SPIE);
          sstatus = sstatus AND NOT SSTATUS_SIE;
          spp = (if privilege c = 1 then 1 else 0);
          sstatus = (sstatus AND NOT SSTATUS_SPP) OR push_bit 8 spp;
          c = write_csr CSR_SSTATUS sstatus c;
          c = (if privilege c \<noteq> 1 then c\<lparr>privilege := 1\<rparr> else c);
          stvec = read_csr c CSR_STVEC
      in c\<lparr>pc := trap_target stvec cause is_interrupt\<rparr>)"

definition take_mmode_trap :: "host_answers \<Rightarrow> u64 \<Rightarrow> bool \<Rightarrow> CPU_State \<Rightarrow> CPU_State" where
  "take_mmode_trap ho cause is_interrupt c =
     (let c = write_csr CSR_MEPC (pc c) c;
          mcause = (if is_interrupt then ucast (h_shl63u ho) OR (cause AND 0x7fffffff) else cause AND 0x7fffffff);
          c = write_csr CSR_MCAUSE mcause c;
          c = write_csr CSR_MTVAL 0 c;
          mstatus = read_csr c CSR_MSTATUS;
          mstatus = (if mstatus AND ucast MSTATUS_MIE \<noteq> 0 then mstatus OR ucast MSTATUS_MPIE
                     else mstatus AND ucast (NOT MSTATUS_MPIE));
          mstatus = mstatus AND ucast (NOT MSTATUS_MIE);
          mstatus = (mstatus AND ucast (NOT MSTATUS_MPP_MASK)) OR push_bit 11 (word_of_int (privilege c) AND 3);
          c = write_csr CSR_MSTATUS mstatus c;
          mtvec = read_csr c CSR_MTVEC
      in c\<lparr>pc := trap_target mtvec cause is_interrupt\<rparr>)"

definition take_trap :: "host_answers \<Rightarrow> u64 \<Rightarrow> bool \<Rightarrow> CPU_State \<Rightarrow> CPU_State" where
  "take_trap ho cause is_interrupt c =
     (if privilege c \<le> 1 then take_smode_trap cause is_interrupt c
      else take_mmode_trap ho cause is_interrupt c)"

definition do_mret :: "CPU_State \<Rightarrow> CPU_State" where
  "do_mret c =
     (let mstatus = read_csr c CSR_MSTATUS;
          mpp = drop_bit 11 (mstatus AND ucast MSTATUS_MPP_MASK);
          mstatus = (if mstatus AND ucast MSTATUS_MPIE \<noteq> 0 then mstatus OR ucast MSTATUS_MIE
                     else mstatus AND ucast (NOT MSTATUS_MIE));
          mstatus = mstatus OR ucast MSTATUS_MPIE;
          mstatus = mstatus AND ucast (NOT MSTATUS_MPP_MASK);
          c = write_csr CSR_MSTATUS mstatus c;
          c = c\<lparr>privilege := uint mpp\<rparr>
      in c\<lparr>pc := read_csr c CSR_MEPC\<rparr>)"

section \<open>Interrupts\<close>

text \<open>The two halves of the selection; 0 is \<open>no interrupt\<close>.\<close>

definition mmode_cause :: "CPU_State \<Rightarrow> u64" where
  "mmode_cause c =
     (let mip = csr c CSR_MIP; mie = csr c CSR_MIE; sie = csr c CSR_SIE;
          mideleg = csr c CSR_MIDELEG; sstatus = csr c CSR_SSTATUS in
      if csr c CSR_MSTATUS AND ucast MSTATUS_MIE \<noteq> 0 then
        (if mip AND ucast MIP_MEIP \<noteq> 0 then
          (if mideleg AND 0x200 = 0 then (if mie AND 0x800 \<noteq> 0 then IRQ_M_EXT else 0)
           else if sstatus AND SSTATUS_SIE \<noteq> 0 \<and> sie AND SIE_SEIE \<noteq> 0 then IRQ_S_EXT
           else if mie AND 0x800 \<noteq> 0 then IRQ_M_EXT else 0)
         else if mip AND ucast MIP_MTIP \<noteq> 0 then
          (if mideleg AND 0x20 = 0 then (if mie AND 0x80 \<noteq> 0 then IRQ_M_TIMER else 0)
           else if sstatus AND SSTATUS_SIE \<noteq> 0 \<and> sie AND SIE_STIE \<noteq> 0 then IRQ_S_TIMER
           else if mie AND 0x80 \<noteq> 0 then IRQ_M_TIMER else 0)
         else if mip AND ucast MIP_MSIP \<noteq> 0 then
          (if mideleg AND 0x2 = 0 then (if mie AND 0x8 \<noteq> 0 then IRQ_M_SOFT else 0)
           else if sstatus AND SSTATUS_SIE \<noteq> 0 \<and> sie AND SIE_SSIE \<noteq> 0 then IRQ_S_SOFT
           else if mie AND 0x8 \<noteq> 0 then IRQ_M_SOFT else 0)
         else 0)
      else 0)"

definition smode_cause :: "CPU_State \<Rightarrow> u64" where
  "smode_cause c =
     (let mip = csr c CSR_MIP; sie = csr c CSR_SIE; mideleg = csr c CSR_MIDELEG;
          sip_seip = (if mip AND ucast MIP_MEIP \<noteq> 0 \<and> mideleg AND 0x200 \<noteq> 0 then 0x200 else 0 :: u64);
          sip_stip = (if mip AND ucast MIP_STIP \<noteq> 0 then 0x20 else 0 :: u64);
          sip_ssip = (if mip AND ucast MIP_MSIP \<noteq> 0 \<and> mideleg AND 0x2 \<noteq> 0 then 0x2 else 0 :: u64)
      in if sip_seip \<noteq> 0 \<and> sie AND SIE_SEIE \<noteq> 0 then IRQ_S_EXT
         else if sip_stip \<noteq> 0 \<and> sie AND SIE_STIE \<noteq> 0 then IRQ_S_TIMER
         else if sip_ssip \<noteq> 0 \<and> sie AND SIE_SSIE \<noteq> 0 then IRQ_S_SOFT
         else 0)"

definition check_and_handle_interrupts :: "host_answers \<Rightarrow> CPU_State \<Rightarrow> CPU_State" where
  "check_and_handle_interrupts ho c =
     (let current_privilege = (word_of_int (privilege c) :: u64) in
      if current_privilege = 1 \<and> csr c CSR_SSTATUS AND SSTATUS_SIE = 0 then c
      else
       (let cause = (if current_privilege = 3 then mmode_cause c
                     else if current_privilege \<le> 1 then smode_cause c else 0);
            c = (if cause = IRQ_M_SOFT \<or> cause = IRQ_S_SOFT
                 then c\<lparr>csr := (csr c)(CSR_MIP := csr c CSR_MIP AND ucast (NOT MIP_MSIP))\<rparr> else c)
        in if cause = IRQ_S_SOFT \<or> cause = IRQ_S_TIMER \<or> cause = IRQ_S_EXT
             then take_smode_trap cause True c
           else if cause = IRQ_M_TIMER \<or> cause = IRQ_M_EXT \<or> cause = IRQ_M_SOFT
             then take_mmode_trap ho cause True c
           else c))"

section \<open>What a trap leaves behind\<close>

lemma smode_trap_regs [simp]:
  "privilege (take_smode_trap k irq c) = 1"
  "pc (take_smode_trap k irq c) = trap_target (csr c CSR_STVEC) k irq"
  "gpr (take_smode_trap k irq c) = gpr c"
  "csr (take_smode_trap k irq c) CSR_SEPC = pc c"
  "csr (take_smode_trap k irq c) CSR_SCAUSE =
     (if irq then push_bit 63 1 OR (k AND 0x7fffffff) else k AND 0x7fffffff)"
  by (simp_all add: take_smode_trap_def Let_def write_csr_def read_csr_def)

lemma smode_trap_other [simp]:
  "tlb (take_smode_trap k irq c) = tlb c" "halted (take_smode_trap k irq c) = halted c"
  "running (take_smode_trap k irq c) = running c" "cpu_bus (take_smode_trap k irq c) = cpu_bus c"
  "fgpr (take_smode_trap k irq c) = fgpr c" "cycle_count (take_smode_trap k irq c) = cycle_count c"
  "clint (take_smode_trap k irq c) = clint c" "inst_count (take_smode_trap k irq c) = inst_count c"
  "asid (take_smode_trap k irq c) = asid c" "tlb_cnt (take_smode_trap k irq c) = tlb_cnt c"
  "satp (take_smode_trap k irq c) = satp c" "sum (take_smode_trap k irq c) = sum c"
  "mxr (take_smode_trap k irq c) = mxr c" "mem_fault (take_smode_trap k irq c) = mem_fault c"
  by (simp_all add: take_smode_trap_def Let_def write_csr_def)

text \<open>The constants of the status registers, bit by bit.\<close>

lemma bit_masks:
  "bit (2 :: int) n \<longleftrightarrow> n = 1" "bit (8 :: int) n \<longleftrightarrow> n = 3" "bit (0x20 :: int) n \<longleftrightarrow> n = 5"
  "bit (0x80 :: int) n \<longleftrightarrow> n = 7" "bit (0x100 :: int) n \<longleftrightarrow> n = 8"
  using bit_exp_iff [of 1 n, where 'a = int] bit_exp_iff [of 3 n, where 'a = int]
    bit_exp_iff [of 5 n, where 'a = int] bit_exp_iff [of 7 n, where 'a = int]
    bit_exp_iff [of 8 n, where 'a = int] by auto

lemma bit_not_8: "bit (0xFFFFFFF7 :: int) n \<longleftrightarrow> n < 32 \<and> n \<noteq> 3"
proof -
  have eq: "(0xFFFFFFF7 :: int) = mask 32 AND NOT (2 ^ 3)" by (simp add: mask_eq_exp_minus_1)
  show ?thesis unfolding eq bit_and_iff bit_or_iff bit_not_iff_eq bit_mask_iff bit_exp_iff by auto
qed

lemma bit_not_80: "bit (0xFFFFFF7F :: int) n \<longleftrightarrow> n < 32 \<and> n \<noteq> 7"
proof -
  have eq: "(0xFFFFFF7F :: int) = mask 32 AND NOT (2 ^ 7)" by (simp add: mask_eq_exp_minus_1)
  show ?thesis unfolding eq bit_and_iff bit_or_iff bit_not_iff_eq bit_mask_iff bit_exp_iff by auto
qed

lemma bit_not_1800: "bit (0xFFFFE7FF :: int) n \<longleftrightarrow> n < 32 \<and> n \<noteq> 11 \<and> n \<noteq> 12"
proof -
  have eq: "(0xFFFFE7FF :: int) = mask 32 AND NOT (2 ^ 11) AND NOT (2 ^ 12)" by (simp add: mask_eq_exp_minus_1)
  show ?thesis unfolding eq bit_and_iff bit_or_iff bit_not_iff_eq bit_mask_iff bit_exp_iff by auto
qed

lemma bit_1800: "bit (0x1800 :: int) n \<longleftrightarrow> n = 11 \<or> n = 12"
proof -
  have eq: "(0x1800 :: int) = 2 ^ 11 OR 2 ^ 12" by (simp add: mask_eq_exp_minus_1)
  show ?thesis unfolding eq bit_and_iff bit_or_iff bit_not_iff_eq bit_mask_iff bit_exp_iff by auto
qed

lemmas bit_complements = bit_not_8 bit_not_80 bit_not_1800 bit_1800

lemma smode_trap_sstatus:
  "bit (csr (take_smode_trap k irq c) CSR_SSTATUS) n \<longleftrightarrow>
     (if n = 1 then False else if n = 5 then bit (csr c CSR_SSTATUS) 1
      else if n = 8 then privilege c = 1 else bit (csr c CSR_SSTATUS) n)"
  by (auto simp: take_smode_trap_def Let_def write_csr_def read_csr_def masks bit_simps bit_masks
      dest: bit_imp_le_length)

lemma smode_trap_csr:
  "i \<notin> {CSR_SSTATUS, CSR_SEPC, CSR_SCAUSE, CSR_STVAL} \<Longrightarrow> csr (take_smode_trap k irq c) i = csr c i"
  by (simp add: take_smode_trap_def Let_def write_csr_def)

lemma mmode_trap_regs [simp]:
  "privilege (take_mmode_trap ho k irq c) = privilege c"
  "pc (take_mmode_trap ho k irq c) = trap_target (csr c CSR_MTVEC) k irq"
  "gpr (take_mmode_trap ho k irq c) = gpr c"
  "csr (take_mmode_trap ho k irq c) CSR_MEPC = pc c"
  by (simp_all add: take_mmode_trap_def Let_def write_csr_def read_csr_def)

lemma mmode_trap_other [simp]:
  "tlb (take_mmode_trap ho k irq c) = tlb c" "halted (take_mmode_trap ho k irq c) = halted c"
  "running (take_mmode_trap ho k irq c) = running c" "cpu_bus (take_mmode_trap ho k irq c) = cpu_bus c"
  "fgpr (take_mmode_trap ho k irq c) = fgpr c" "cycle_count (take_mmode_trap ho k irq c) = cycle_count c"
  "clint (take_mmode_trap ho k irq c) = clint c" "inst_count (take_mmode_trap ho k irq c) = inst_count c"
  "asid (take_mmode_trap ho k irq c) = asid c" "tlb_cnt (take_mmode_trap ho k irq c) = tlb_cnt c"
  "satp (take_mmode_trap ho k irq c) = satp c" "sum (take_mmode_trap ho k irq c) = sum c"
  "mxr (take_mmode_trap ho k irq c) = mxr c" "mem_fault (take_mmode_trap ho k irq c) = mem_fault c"
  by (simp_all add: take_mmode_trap_def Let_def write_csr_def)

lemma bit_and_3: "bit (x AND (3 :: u64)) n \<longleftrightarrow> n < 2 \<and> bit x n"
proof -
  have "(3 :: u64) = mask 2" by (simp add: mask_eq_exp_minus_1)
  then show ?thesis unfolding \<open>3 = mask 2\<close> by (auto simp: bit_simps)
qed

lemma mmode_trap_mstatus:
  "bit (csr (take_mmode_trap ho k irq c) CSR_MSTATUS) n \<longleftrightarrow>
     (if n = 3 \<or> 32 \<le> n then False else if n = 7 then bit (csr c CSR_MSTATUS) 3
      else if n = 11 then bit (privilege c) 0 else if n = 12 then bit (privilege c) 1
      else bit (csr c CSR_MSTATUS) n)"
proof -
  have "n - 11 < 2 \<Longrightarrow> 11 \<le> n \<Longrightarrow> n = 11 \<or> n = 12" by auto
  then show ?thesis
    by (auto simp: take_mmode_trap_def Let_def write_csr_def read_csr_def masks bit_simps bit_masks
        bit_complements bit_and_3 bit_word_of_int_iff dest: bit_imp_le_length)
qed

lemma mmode_trap_csr:
  "i \<notin> {CSR_MSTATUS, CSR_MEPC, CSR_MCAUSE, CSR_MTVAL} \<Longrightarrow> csr (take_mmode_trap ho k irq c) i = csr c i"
  by (simp add: take_mmode_trap_def Let_def write_csr_def)

section \<open>Properties\<close>

text \<open>
  The sources of a supervisor interrupt, by its number: which bits of \<open>mip\<close>, \<open>mideleg\<close> and
  \<open>sie\<close> make it ready. The timer line needs no delegation (Sstc).
\<close>

definition irq_ready :: "CPU_State \<Rightarrow> u64 \<Rightarrow> bool" where
  "irq_ready c k \<longleftrightarrow>
     k = 9 \<and> bit (csr c CSR_MIP) 11 \<and> bit (csr c CSR_MIDELEG) 9 \<and> bit (csr c CSR_SIE) 9 \<or>
     k = 5 \<and> bit (csr c CSR_MIP) 5 \<and> bit (csr c CSR_SIE) 5 \<or>
     k = 1 \<and> bit (csr c CSR_MIP) 3 \<and> bit (csr c CSR_MIDELEG) 1 \<and> bit (csr c CSR_SIE) 1"

lemma smode_cause_ready: "smode_cause c = (case find (irq_ready c) [9, 5, 1] of None \<Rightarrow> 0 | Some k \<Rightarrow> k)"
  by (simp add: smode_cause_def irq_ready_def Let_def masks)

lemma check_masked:
  "privilege c = 1 \<Longrightarrow> \<not> bit (csr c CSR_SSTATUS) 1 \<Longrightarrow> check_and_handle_interrupts ho c = c"
  unfolding check_and_handle_interrupts_def Let_def by (simp add: mask_bits(2))

definition ack_soft :: "CPU_State \<Rightarrow> CPU_State" where
  "ack_soft c = c\<lparr>csr := (csr c)(CSR_MIP := csr c CSR_MIP AND ucast (NOT MIP_MSIP))\<rparr>"

lemma ack_soft_simps [simp]:
  "privilege (ack_soft c) = privilege c" "pc (ack_soft c) = pc c" "gpr (ack_soft c) = gpr c"
  "i \<noteq> CSR_MIP \<Longrightarrow> csr (ack_soft c) i = csr c i"
  by (simp_all add: ack_soft_def)

lemma find_ready:
  "find (irq_ready c) [9, 5, 1] = Some k \<Longrightarrow> k = 9 \<or> k = 5 \<or> k = 1"
  by (auto split: if_splits)

lemma check_supervisor:
  assumes "privilege c = 0 \<or> privilege c = 1" "\<not> (privilege c = 1 \<and> \<not> bit (csr c CSR_SSTATUS) 1)"
  shows "check_and_handle_interrupts ho c = (case find (irq_ready c) [9, 5, 1] of None \<Rightarrow> c
      | Some k \<Rightarrow> take_smode_trap k True (if k = 1 then ack_soft c else c))"
proof -
  have p: "\<not> ((word_of_int (privilege c) :: u64) = 1 \<and> csr c CSR_SSTATUS AND SSTATUS_SIE = 0)"
    "(word_of_int (privilege c) :: u64) \<noteq> 3" "(word_of_int (privilege c) :: u64) \<le> 1"
    using assms by (auto simp: mask_bits(2))
  show ?thesis
    unfolding check_and_handle_interrupts_def Let_def smode_cause_ready
    using p find_ready [of c]
    by (cases "find (irq_ready c) [9, 5, 1]") (auto simp: ack_soft_def)
qed

text \<open>C20. In user or supervisor mode the interrupt taken is the first ready one in the order external,
  timer, software; user mode ignores \<open>SIE\<close>, supervisor mode needs it. Taking it saves the program
  counter, the cause, the mode and the enable bit, enters supervisor mode with interrupts off and jumps to
  the vector; the integer registers are untouched. Otherwise nothing changes.\<close>

theorem supervisor_interrupt:
  fixes ho :: host_answers
  assumes "privilege c = 0 \<or> privilege c = 1"
  defines "c' \<equiv> check_and_handle_interrupts ho c"
  shows "case (if privilege c = 1 \<and> \<not> bit (csr c CSR_SSTATUS) 1 then None else find (irq_ready c) [9, 5, 1]) of
      None \<Rightarrow> c' = c
    | Some k \<Rightarrow> privilege c' = 1 \<and> csr c' CSR_SEPC = pc c \<and> csr c' CSR_SCAUSE = push_bit 63 1 OR k \<and>
        \<not> bit (csr c' CSR_SSTATUS) 1 \<and> (bit (csr c' CSR_SSTATUS) 5 \<longleftrightarrow> bit (csr c CSR_SSTATUS) 1) \<and>
        (bit (csr c' CSR_SSTATUS) 8 \<longleftrightarrow> privilege c = 1) \<and>
        pc c' = trap_target (csr c CSR_STVEC) k True \<and> gpr c' = gpr c"
proof (cases "privilege c = 1 \<and> \<not> bit (csr c CSR_SSTATUS) 1")
  case True
  then have "c' = c" by (simp add: c'_def check_masked)
  with True show ?thesis by simp
next
  case False
  have c': "c' = (case find (irq_ready c) [9, 5, 1] of None \<Rightarrow> c
      | Some k \<Rightarrow> take_smode_trap k True (if k = 1 then ack_soft c else c))"
    unfolding c'_def by (rule check_supervisor [OF assms(1) False])
  show ?thesis
  proof (cases "find (irq_ready c) [9, 5, 1]")
    case None
    then show ?thesis unfolding c' if_not_P [OF False] by (simp del: find.simps)
  next
    case (Some k)
    from find_ready [OF this] have "k AND 0x7fffffff = k" by auto
    with Some show ?thesis
      unfolding c' if_not_P [OF False] by (simp add: smode_trap_sstatus del: find.simps)
  qed
qed

theorem supervisor_interrupt_witness:
  "pc (check_and_handle_interrupts (host blank) (zero_cpu\<lparr>privilege := 1, pc := 0x80001000,
     csr := (\<lambda>_. 0)(CSR_MIP := 0x20, CSR_SIE := 0x20, CSR_SSTATUS := 2, CSR_STVEC := 0x80000100)\<rparr>)) = 0x80000100"
  using supervisor_interrupt [of "zero_cpu\<lparr>privilege := 1, pc := 0x80001000,
     csr := (\<lambda>_. 0)(CSR_MIP := 0x20, CSR_SIE := 0x20, CSR_SSTATUS := 2, CSR_STVEC := 0x80000100)\<rparr>" "host blank"]
  by (simp add: irq_ready_def trap_target_def bit_simps)

text \<open>The check as selection followed by delivery.\<close>

definition selected_cause :: "CPU_State \<Rightarrow> u64" where
  "selected_cause c = (if (word_of_int (privilege c) :: u64) = 3 then mmode_cause c
     else if (word_of_int (privilege c) :: u64) \<le> 1 then smode_cause c else 0)"

definition deliver :: "host_answers \<Rightarrow> u64 \<Rightarrow> CPU_State \<Rightarrow> CPU_State" where
  "deliver ho k c =
     (if k = 1 \<or> k = 5 \<or> k = 9 then take_smode_trap k True c
      else if k = 7 \<or> k = 11 \<or> k = 3 then take_mmode_trap ho k True c else c)"

lemma check_deliver:
  "check_and_handle_interrupts ho c =
     (if (word_of_int (privilege c) :: u64) = 1 \<and> csr c CSR_SSTATUS AND SSTATUS_SIE = 0 then c
      else deliver ho (selected_cause c)
             (if selected_cause c = 3 \<or> selected_cause c = 1 then ack_soft c else c))"
  unfolding check_and_handle_interrupts_def Let_def ack_soft_def [symmetric]
    selected_cause_def [symmetric] deliver_def by (rule refl)

lemma if_in: "x \<in> S \<Longrightarrow> y \<in> S \<Longrightarrow> (if b then x else y) \<in> S"
  by simp

lemma mmode_cause_values: "mmode_cause c \<in> {0, 1, 3, 5, 7, 9, 11}"
  unfolding mmode_cause_def Let_def by (intro if_in) simp_all

lemma smode_cause_values: "smode_cause c \<in> {0, 1, 5, 9}"
  unfolding smode_cause_def Let_def by (intro if_in) simp_all

lemma selected_cause_mmode:
  "(word_of_int (privilege c) :: u64) \<noteq> 3 \<Longrightarrow>
   selected_cause c = 0 \<or> selected_cause c = 1 \<or> selected_cause c = 5 \<or> selected_cause c = 9"
  using smode_cause_values [of c] unfolding selected_cause_def by auto

lemma selected_cause_values: "selected_cause c \<in> {0, 1, 3, 5, 7, 9, 11}"
  using smode_cause_values [of c] mmode_cause_values [of c] unfolding selected_cause_def by auto

lemma check_cases:
  "check_and_handle_interrupts ho c = c \<or>
   (\<exists>k d. check_and_handle_interrupts ho c = take_smode_trap k True d) \<or>
   (\<exists>k d. word_of_int (privilege d) = (3 :: u64) \<and> check_and_handle_interrupts ho c = take_mmode_trap ho k True d)"
proof -
  define k where "k = selected_cause c"
  define d where "d = (if k = 3 \<or> k = 1 then ack_soft c else c)"
  have c: "check_and_handle_interrupts ho c = c \<or> check_and_handle_interrupts ho c = deliver ho k d"
    unfolding check_deliver k_def d_def by simp
  have d: "privilege d = privilege c" "k = 0 \<Longrightarrow> d = c" by (simp_all add: d_def)
  consider (s) "k = 1 \<or> k = 5 \<or> k = 9" | (m) "k = 7 \<or> k = 11 \<or> k = 3" | (n) "k = 0"
    using selected_cause_values [of c] unfolding k_def by auto
  then show ?thesis
  proof cases
    case s
    then have "deliver ho k d = take_smode_trap k True d" by (simp add: deliver_def)
    with c show ?thesis by metis
  next
    case m
    then have "deliver ho k d = take_mmode_trap ho k True d" by (auto simp: deliver_def)
    moreover have "(word_of_int (privilege d) :: u64) = 3"
      by (rule ccontr) (use m selected_cause_mmode [of c] in \<open>auto simp: k_def d(1)\<close>)
    ultimately show ?thesis using c by metis
  next
    case n
    then have "deliver ho k d = d" by (simp add: deliver_def)
    with c d(2) n show ?thesis by simp
  qed
qed

text \<open>C21. Interrupts do not nest: right after the check has run, running it again changes nothing,
  whatever the mode and the pending bits, because the trap it may have taken switched them off.\<close>

theorem interrupts_do_not_nest:
  "check_and_handle_interrupts ho (check_and_handle_interrupts ho c) = check_and_handle_interrupts ho c"
proof -
  have s: "check_and_handle_interrupts ho (take_smode_trap k True d) = take_smode_trap k True d" for k d
    by (rule check_masked) (simp_all add: smode_trap_sstatus)
  have m: "check_and_handle_interrupts ho (take_mmode_trap ho k True d) = take_mmode_trap ho k True d"
    if "word_of_int (privilege d) = (3 :: u64)" for k d
  proof -
    have "csr (take_mmode_trap ho k True d) CSR_MSTATUS AND ucast MSTATUS_MIE = 0"
      by (simp add: mask_bits(4) mmode_trap_mstatus)
    then have "mmode_cause (take_mmode_trap ho k True d) = 0" unfolding mmode_cause_def Let_def by simp
    with that show ?thesis by (simp add: check_and_handle_interrupts_def)
  qed
  from check_cases [of ho c] show ?thesis using s m by auto
qed

text \<open>In machine mode, what happens to the first pending interrupt \<open>k\<close> of \<open>mip\<close>.\<close>

definition goes_to_smode :: "CPU_State \<Rightarrow> nat \<Rightarrow> bool" where
  "goes_to_smode c k \<longleftrightarrow> bit (csr c CSR_MIDELEG) (k - 2) \<and> bit (csr c CSR_SSTATUS) 1 \<and> bit (csr c CSR_SIE) (k - 2)"

lemma mmode_cause_first:
  "mmode_cause c = (if \<not> bit (csr c CSR_MSTATUS) 3 then 0
    else case find (bit (csr c CSR_MIP)) [11, 7, 3] of None \<Rightarrow> 0
      | Some k \<Rightarrow> if goes_to_smode c k then of_nat (k - 2) else if bit (csr c CSR_MIE) k then of_nat k else 0)"
  by (simp add: mmode_cause_def goes_to_smode_def Let_def masks)

lemma check_machine:
  assumes "privilege c = 3"
  shows "check_and_handle_interrupts ho c =
    deliver ho (mmode_cause c) (if mmode_cause c = 3 \<or> mmode_cause c = 1 then ack_soft c else c)"
proof -
  have s: "selected_cause c = mmode_cause c" "\<not> ((word_of_int (privilege c) :: u64) = 1 \<and> csr c CSR_SSTATUS AND SSTATUS_SIE = 0)"
    using assms by (simp_all add: selected_cause_def)
  show ?thesis unfolding check_deliver if_not_P [OF s(2)] s(1) by (rule refl)
qed

lemma mmode_trap_mcause:
  "csr (take_mmode_trap ho k irq c) CSR_MCAUSE =
     (if irq then ucast (h_shl63u ho) OR (k AND 0x7fffffff) else k AND 0x7fffffff)"
  by (simp add: take_mmode_trap_def Let_def write_csr_def read_csr_def)

text \<open>
  C19. In machine mode with \<open>MIE\<close> set only the first pending interrupt in the order external,
  timer, software is considered. If it is delegated and the supervisor enables it, the supervisor
  takes it although the hart is in machine mode: cause \<open>k - 2\<close> with the interrupt bit,
  \<open>SPP\<close> clear, \<open>mstatus\<close> unchanged. Otherwise, if its bit in \<open>mie\<close> is set, it is a trap to machine
  mode: program counter, mode and enable bit are saved, interrupts are off, \<open>mcause\<close> is the
  number of the interrupt and what the host computes for the undefined \<open>1u << 63\<close>, an
  \<open>unsigned int\<close>, so that bit 63 is clear. Otherwise nothing happens, so a masked external
  interrupt also blocks an enabled timer. With \<open>MIE\<close> clear nothing happens. A software interrupt
  is acknowledged in \<open>mip\<close> when it is taken.
\<close>

theorem machine_interrupt:
  fixes ho :: host_answers
  assumes "privilege c = 3"
  defines "c' \<equiv> check_and_handle_interrupts ho c"
  shows "case (if bit (csr c CSR_MSTATUS) 3 then find (bit (csr c CSR_MIP)) [11, 7, 3] else None) of None \<Rightarrow> c' = c
    | Some k \<Rightarrow>
       (if goes_to_smode c k then
          privilege c' = 1 \<and> csr c' CSR_SEPC = pc c \<and> csr c' CSR_SCAUSE = push_bit 63 1 OR of_nat (k - 2) \<and>
          \<not> bit (csr c' CSR_SSTATUS) 1 \<and> bit (csr c' CSR_SSTATUS) 5 \<and> \<not> bit (csr c' CSR_SSTATUS) 8 \<and>
          csr c' CSR_MSTATUS = csr c CSR_MSTATUS \<and>
          pc c' = trap_target (csr c CSR_STVEC) (of_nat (k - 2)) True
        else if bit (csr c CSR_MIE) k then
          privilege c' = 3 \<and> csr c' CSR_MEPC = pc c \<and>
          csr c' CSR_MCAUSE = ucast (h_shl63u ho) OR of_nat k \<and> \<not> bit (csr c' CSR_MCAUSE) 63 \<and>
          \<not> bit (csr c' CSR_MSTATUS) 3 \<and> bit (csr c' CSR_MSTATUS) 7 \<and>
          bit (csr c' CSR_MSTATUS) 11 \<and> bit (csr c' CSR_MSTATUS) 12 \<and>
          pc c' = trap_target (csr c CSR_MTVEC) (of_nat k) True
        else c' = c) \<and>
       gpr c' = gpr c \<and>
       (c' \<noteq> c \<longrightarrow> csr c' CSR_MIP = (if k = 3 then csr c CSR_MIP AND ucast (NOT MIP_MSIP) else csr c CSR_MIP))"
proof -
  note c' = check_machine [OF assms(1), of ho, folded c'_def]
  show ?thesis
  proof (cases "if bit (csr c CSR_MSTATUS) 3 then find (bit (csr c CSR_MIP)) [11, 7, 3] else None")
    case None
    then have "mmode_cause c = 0" unfolding mmode_cause_first by (auto simp del: find.simps split: if_splits)
    then have "c' = c" unfolding c' by (simp add: deliver_def)
    with None show ?thesis by (simp del: find.simps)
  next
    case (Some k)
    then have k: "k = 11 \<or> k = 7 \<or> k = 3" by (auto split: if_splits)
    have d: "bit (3 :: int) 0" "bit (3 :: int) 1" by simp_all
    have b: "\<not> bit (ucast (h_shl63u ho) OR w :: u64) 63" if "\<not> bit w 63" for w
      using that by (auto simp: bit_simps dest: bit_imp_le_length)
    have t: "mmode_cause c = (if goes_to_smode c k then of_nat (k - 2) else if bit (csr c CSR_MIE) k then of_nat k else 0)"
      "bit (csr c CSR_MSTATUS) 3"
      using Some unfolding mmode_cause_first by (auto simp del: find.simps split: if_splits)
    have g: "goes_to_smode c k \<Longrightarrow> bit (csr c CSR_SSTATUS) (Suc 0)" by (simp add: goes_to_smode_def)
    from k d b g t(2) assms(1) show ?thesis
      unfolding Some c' t(1)
      by (elim disjE; cases "goes_to_smode c k"; cases "bit (csr c CSR_MIE) k")
        (simp_all add: deliver_def mmode_trap_mstatus mmode_trap_mcause smode_trap_sstatus mmode_trap_csr smode_trap_csr ack_soft_def)
  qed
qed

text \<open>A timer interrupt in machine mode, and an external one that the supervisor has been given.\<close>

theorem machine_interrupt_witness:
  "csr (check_and_handle_interrupts (host blank) (zero_cpu\<lparr>privilege := 3,
     csr := (\<lambda>_. 0)(CSR_MIP := 0x80, CSR_MIE := 0x80, CSR_MSTATUS := 8)\<rparr>)) CSR_MCAUSE =
     ucast (h_shl63u (host blank)) OR 7 \<and>
   privilege (check_and_handle_interrupts (host blank) (zero_cpu\<lparr>privilege := 3,
     csr := (\<lambda>_. 0)(CSR_MIP := 0x880, CSR_MIE := 0x80, CSR_MSTATUS := 8, CSR_MIDELEG := 0x200,
       CSR_SSTATUS := 2, CSR_SIE := 0x200)\<rparr>)) = 1"
  using machine_interrupt [of "zero_cpu\<lparr>privilege := 3,
     csr := (\<lambda>_. 0)(CSR_MIP := 0x80, CSR_MIE := 0x80, CSR_MSTATUS := 8)\<rparr>" "host blank"]
    machine_interrupt [of "zero_cpu\<lparr>privilege := 3, csr := (\<lambda>_. 0)(CSR_MIP := 0x880, CSR_MIE := 0x80,
       CSR_MSTATUS := 8, CSR_MIDELEG := 0x200, CSR_SSTATUS := 2, CSR_SIE := 0x200)\<rparr>" "host blank"]
  by (simp add: goes_to_smode_def)

end
