(* ===== verification/Privileged.thy ===== *)
theory Privileged
  imports Trap Alu
begin

text \<open>
  The privileged instructions of \<open>instructions.c\<close>: environment calls, trap returns, the CSR
  instructions, \<open>sfence.vma\<close> and \<open>wfi\<close>; and the contract between trap entry and trap return.
\<close>

definition exec_ecall :: "host_answers \<Rightarrow> u32 \<Rightarrow> CPU_State \<Rightarrow> CPU_State" where
  "exec_ecall ho i c =
     (let cause = (if privilege c = 0 then 8 else if privilege c = 1 then 9 else 11)
      in take_trap ho cause False c)"

definition exec_ebreak :: "u32 \<Rightarrow> CPU_State \<Rightarrow> CPU_State" where
  "exec_ebreak i c = c\<lparr>halted := True\<rparr>"

definition exec_wfi :: "u32 \<Rightarrow> CPU_State \<Rightarrow> CPU_State" where
  "exec_wfi i c = (advance 4 c)\<lparr>halted := True\<rparr>"

definition exec_mret :: "u32 \<Rightarrow> CPU_State \<Rightarrow> CPU_State" where
  "exec_mret i c =
     (let mpp = drop_bit 11 (csr c CSR_MSTATUS) AND 0x3;
          mstatus = csr c CSR_MSTATUS;
          mstatus = (if mstatus AND ucast MSTATUS_MPIE \<noteq> 0 then mstatus OR ucast MSTATUS_MIE
                     else mstatus AND ucast (NOT MSTATUS_MIE));
          mstatus = mstatus OR ucast MSTATUS_MPIE;
          c = (if mpp = 0 then c\<lparr>privilege := 0\<rparr> else if mpp = 1 then c\<lparr>privilege := 1\<rparr>
               else if mpp = 3 then c\<lparr>privilege := 3\<rparr> else c);
          mstatus = mstatus AND ucast (NOT MSTATUS_MPP_MASK);
          c = c\<lparr>csr := (csr c)(CSR_MSTATUS := mstatus)\<rparr>
      in c\<lparr>pc := csr c CSR_MEPC\<rparr>)"

definition exec_sret :: "u32 \<Rightarrow> CPU_State \<Rightarrow> CPU_State" where
  "exec_sret i c =
     (if privilege c < 1 then c
      else (let sepc = csr c CSR_SEPC in
        if sepc AND 0x1 \<noteq> 0 then c
        else (let c = c\<lparr>pc := sepc\<rparr>;
                  sstatus = csr c CSR_SSTATUS;
                  spp = drop_bit 8 sstatus AND 0x1;
                  c = c\<lparr>privilege := (if spp = 1 then 1 else 0)\<rparr>;
                  sstatus = sstatus AND NOT SSTATUS_SPP;
                  spie = drop_bit 5 sstatus AND 0x1;
                  sstatus = sstatus AND NOT SSTATUS_SIE;
                  sstatus = sstatus OR push_bit 1 spie;
                  sstatus = sstatus AND NOT SSTATUS_SPIE
              in c\<lparr>csr := (csr c)(CSR_SSTATUS := sstatus)\<rparr>)))"

definition invalidate :: "TLB \<Rightarrow> TLB" where
  "invalidate t = t\<lparr>entries := (\<lambda>i. if i < TLB_SIZE then (entries t i)\<lparr>e_valid := False\<rparr> else entries t i)\<rparr>"

text \<open>Both branches on \<open>rs1\<close>, \<open>rs2\<close> run the same loop.\<close>

definition exec_sfencevma :: "u32 \<Rightarrow> CPU_State \<Rightarrow> CPU_State" where
  "exec_sfencevma i c =
     advance 4 (c\<lparr>iTLB := invalidate (iTLB c), dTLB := invalidate (dTLB c), tlb := invalidate (tlb c)\<rparr>)"

text \<open>
  The CSR instructions. \<open>csrrs\<close> and \<open>csrrc\<close> write \<open>gpr[rd]\<close> before they read \<open>gpr[rs1]\<close>;
  \<open>csrrsi\<close> (\<open>funct3\<close> 6) has no case.
\<close>

definition exec_csr :: "u32 \<Rightarrow> CPU_State \<Rightarrow> CPU_State" where
  "exec_csr i c =
     (let funct3 = funct3_of i; rd = rd_of i; rs1 = rs1_of i; n = drop_bit 20 i AND 0xFFF;
          imm5 = ucast (drop_bit 15 i AND 0x1F);
          old = csr c n;
          c = (if funct3 = 1 then write_gpr rd old (c\<lparr>csr := (csr c)(n := gpr c rs1)\<rparr>)
               else if funct3 = 2 then
                 (let c = write_gpr rd (csr c n) c
                  in if rs1 \<noteq> 0 then c\<lparr>csr := (csr c)(n := csr c n OR gpr c rs1)\<rparr> else c)
               else if funct3 = 3 then
                 (let c = write_gpr rd (csr c n) c
                  in c\<lparr>csr := (csr c)(n := csr c n AND NOT (gpr c rs1))\<rparr>)
               else if funct3 = 5 then write_csr n imm5 (write_gpr rd (read_csr c n) c)
               else if funct3 = 7 then write_csr n (read_csr c n AND NOT imm5) (write_gpr rd (read_csr c n) c)
               else c)
      in advance 4 c)"

section \<open>Trap entry and return as a pair\<close>

text \<open>
  The contract of a pair of entry and return: \<open>ctx\<close> is what a trap must preserve (program
  counter, mode, enable bit), \<open>saved\<close> where the entry keeps it, and \<open>enabled\<close> says whether
  the hart takes interrupts. A return reads nothing but what is saved, so a handler may do
  anything else.
\<close>

locale trap_pair =
  fixes enter :: "'c \<Rightarrow> 'c"
    and leave :: "'c \<Rightarrow> 'c"
    and ctx :: "'c \<Rightarrow> 'x"
    and saved :: "'c \<Rightarrow> 's"
    and enabled :: "'c \<Rightarrow> bool"
    and src :: "'c \<Rightarrow> bool"
    and ok :: "'c \<Rightarrow> bool"
  assumes leave_saved: "saved c = saved c' \<Longrightarrow> ok c \<Longrightarrow> ctx (leave c) = ctx (leave c')"
    and ok_saved: "saved c = saved c' \<Longrightarrow> ok c = ok c'"
    and enter_ok: "src c \<Longrightarrow> ok (enter c)"
    and leave_enter: "src c \<Longrightarrow> ctx (leave (enter c)) = ctx c"
    and enter_masks: "\<not> enabled (enter c)"
begin

text \<open>A handler that keeps the saved context returns to the interrupted one.\<close>

lemma handler_returns:
  assumes "src c" "saved d = saved (enter c)"
  shows "ctx (leave d) = ctx c"
  using leave_saved [OF assms(2)] ok_saved [OF assms(2)] enter_ok [OF assms(1)] leave_enter [OF assms(1)] by simp

text \<open>
  A trap taken inside a handler and returned from leaves the context of the handler as it was;
  if the handler restores what the inner entry overwrote, it still returns to the outer context.
\<close>

lemma nested_returns:
  assumes "src c" "src d" "saved e = saved (enter d)" "saved (f (leave e)) = saved (enter c)"
  shows "ctx (leave e) = ctx d" and "ctx (leave (f (leave e))) = ctx c"
  using handler_returns [OF assms(2,3)] handler_returns [OF assms(1,4)] by simp_all

end

lemma drop_bit_and_1: "drop_bit k x AND 1 = of_bool (bit (x :: u64) k)"
  by (simp add: and_one_eq bit_iff_odd_drop_bit of_bool_def mod_2_eq_odd)

lemma sret_regs:
  assumes "1 \<le> privilege c" "\<not> bit (csr c CSR_SEPC) 0"
  shows "pc (exec_sret i c) = csr c CSR_SEPC"
    and "privilege (exec_sret i c) = (if bit (csr c CSR_SSTATUS) 8 then 1 else 0)"
    and "bit (csr (exec_sret i c) CSR_SSTATUS) n \<longleftrightarrow>
      (if n = 5 \<or> n = 8 then False else if n = 1 then bit (csr c CSR_SSTATUS) 5 else bit (csr c CSR_SSTATUS) n)"
    and "j \<noteq> CSR_SSTATUS \<Longrightarrow> csr (exec_sret i c) j = csr c j"
    and "gpr (exec_sret i c) = gpr c"
proof -
  have p: "\<not> privilege c < 1" using assms(1) by simp
  note [simp] = p assms(2)
  show "pc (exec_sret i c) = csr c CSR_SEPC" "gpr (exec_sret i c) = gpr c"
    "j \<noteq> CSR_SSTATUS \<Longrightarrow> csr (exec_sret i c) j = csr c j"
    "privilege (exec_sret i c) = (if bit (csr c CSR_SSTATUS) 8 then 1 else 0)"
    by (simp_all add: exec_sret_def Let_def mask_bits(1) drop_bit_and_1)
  show "bit (csr (exec_sret i c) CSR_SSTATUS) n \<longleftrightarrow>
      (if n = 5 \<or> n = 8 then False else if n = 1 then bit (csr c CSR_SSTATUS) 5 else bit (csr c CSR_SSTATUS) n)"
    by (auto simp: exec_sret_def Let_def mask_bits(1) drop_bit_and_1 bit_simps bit_masks dest: bit_imp_le_length)
qed

lemma mpp_bits: "drop_bit 11 (x :: u64) AND 3 = of_bool (bit x 11) + 2 * of_bool (bit x 12)"
proof -
  have "(3 :: u64) = mask 2" by (simp add: mask_eq_exp_minus_1)
  then have "drop_bit 11 x AND 3 = take_bit 2 (drop_bit 11 x)" by (simp only: take_bit_eq_mask)
  moreover have "drop_bit 12 x = drop_bit 11 x div 2"
    using drop_bit_Suc [of 11 x] by (simp add: drop_bit_half)
  then have "take_bit 2 (drop_bit 11 x) = of_bool (odd (drop_bit 11 x)) + 2 * of_bool (odd (drop_bit 12 x))"
    by (simp add: take_bit_Suc numeral_2_eq_2 of_bool_def mod_2_eq_odd)
  ultimately show ?thesis by (simp add: bit_iff_odd_drop_bit)
qed

lemma mret_regs:
  "pc (exec_mret i c) = csr c CSR_MEPC"
  "privilege (exec_mret i c) = (if bit (csr c CSR_MSTATUS) 12
     then (if bit (csr c CSR_MSTATUS) 11 then 3 else privilege c)
     else (if bit (csr c CSR_MSTATUS) 11 then 1 else 0))"
  "bit (csr (exec_mret i c) CSR_MSTATUS) n \<longleftrightarrow>
     (if n = 11 \<or> n = 12 \<or> 32 \<le> n then False else if n = 7 then True
      else if n = 3 then bit (csr c CSR_MSTATUS) 7 else bit (csr c CSR_MSTATUS) n)"
  "j \<noteq> CSR_MSTATUS \<Longrightarrow> csr (exec_mret i c) j = csr c j"
  "gpr (exec_mret i c) = gpr c"
proof -
  show "pc (exec_mret i c) = csr c CSR_MEPC" "gpr (exec_mret i c) = gpr c"
    "j \<noteq> CSR_MSTATUS \<Longrightarrow> csr (exec_mret i c) j = csr c j"
    by (simp_all add: exec_mret_def Let_def)
  show "privilege (exec_mret i c) = (if bit (csr c CSR_MSTATUS) 12
     then (if bit (csr c CSR_MSTATUS) 11 then 3 else privilege c)
     else (if bit (csr c CSR_MSTATUS) 11 then 1 else 0))"
    by (simp add: exec_mret_def Let_def mpp_bits)
  show "bit (csr (exec_mret i c) CSR_MSTATUS) n \<longleftrightarrow>
     (if n = 11 \<or> n = 12 \<or> 32 \<le> n then False else if n = 7 then True
      else if n = 3 then bit (csr c CSR_MSTATUS) 7 else bit (csr c CSR_MSTATUS) n)"
    by (auto simp: exec_mret_def Let_def masks bit_simps bit_masks bit_complements dest: bit_imp_le_length)
qed

section \<open>The two pairs of the emulator\<close>

definition s_ctx :: "CPU_State \<Rightarrow> u64 \<times> int \<times> bool" where
  "s_ctx c = (pc c, privilege c, bit (csr c CSR_SSTATUS) 1)"

definition s_saved :: "CPU_State \<Rightarrow> bool \<times> u64 \<times> bool \<times> bool" where
  "s_saved c = (1 \<le> privilege c, csr c CSR_SEPC, bit (csr c CSR_SSTATUS) 5, bit (csr c CSR_SSTATUS) 8)"

definition s_src :: "CPU_State \<Rightarrow> bool" where
  "s_src c \<longleftrightarrow> (privilege c = 0 \<or> privilege c = 1) \<and> \<not> bit (pc c) 0"

definition s_ok :: "CPU_State \<Rightarrow> bool" where
  "s_ok c \<longleftrightarrow> 1 \<le> privilege c \<and> \<not> bit (csr c CSR_SEPC) 0"

lemma s_ctx_sret: "s_ok c \<Longrightarrow> s_ctx (exec_sret i c) =
    (csr c CSR_SEPC, (if bit (csr c CSR_SSTATUS) 8 then 1 else 0), bit (csr c CSR_SSTATUS) 5)"
  by (simp add: s_ok_def s_ctx_def sret_regs)

lemma s_entry:
  "s_ok (take_smode_trap k irq c) \<longleftrightarrow> \<not> bit (pc c) 0"
  by (simp add: s_ok_def)

interpretation s_traps: trap_pair "take_smode_trap k irq" "exec_sret i" s_ctx s_saved
  "\<lambda>c. bit (csr c CSR_SSTATUS) 1" s_src s_ok
proof
  show "s_saved c = s_saved c' \<Longrightarrow> s_ok c \<Longrightarrow> s_ctx (exec_sret i c) = s_ctx (exec_sret i c')" for c c'
  proof -
    assume a: "s_saved c = s_saved c'" "s_ok c"
    then have "s_ok c'" by (simp add: s_saved_def s_ok_def)
    with a show ?thesis by (simp add: s_ctx_sret s_saved_def)
  qed
  show "s_saved c = s_saved c' \<Longrightarrow> s_ok c = s_ok c'" for c c'
    by (simp add: s_saved_def s_ok_def)
  show "s_src c \<Longrightarrow> s_ok (take_smode_trap k irq c)" for c
    by (simp add: s_entry s_src_def)
  show "s_src c \<Longrightarrow> s_ctx (exec_sret i (take_smode_trap k irq c)) = s_ctx c" for c
    by (subst s_ctx_sret) (auto simp: s_entry s_src_def s_ctx_def smode_trap_sstatus)
  show "\<not> bit (csr (take_smode_trap k irq c) CSR_SSTATUS) 1" for c
    by (simp add: smode_trap_sstatus)
qed

definition m_ctx :: "CPU_State \<Rightarrow> u64 \<times> int \<times> bool" where
  "m_ctx c = (pc c, privilege c, bit (csr c CSR_MSTATUS) 3)"

definition m_saved :: "CPU_State \<Rightarrow> u64 \<times> bool \<times> bool \<times> bool" where
  "m_saved c = (csr c CSR_MEPC, bit (csr c CSR_MSTATUS) 7, bit (csr c CSR_MSTATUS) 11, bit (csr c CSR_MSTATUS) 12)"

definition m_ok :: "CPU_State \<Rightarrow> bool" where
  "m_ok c \<longleftrightarrow> (bit (csr c CSR_MSTATUS) 12 \<longrightarrow> bit (csr c CSR_MSTATUS) 11)"

interpretation m_traps: trap_pair "take_mmode_trap ho k irq" "exec_mret i" m_ctx m_saved
  "\<lambda>c. bit (csr c CSR_MSTATUS) 3" "\<lambda>c. privilege c = 0 \<or> privilege c = 1 \<or> privilege c = 3" m_ok
proof
  have b: "bit (3 :: int) 0" "bit (3 :: int) 1" "\<not> bit (1 :: int) 1" by simp_all
  show "m_saved c = m_saved c' \<Longrightarrow> m_ok c \<Longrightarrow> m_ctx (exec_mret i c) = m_ctx (exec_mret i c')" for c c'
    by (auto simp: m_saved_def m_ok_def m_ctx_def mret_regs)
  show "m_saved c = m_saved c' \<Longrightarrow> m_ok c = m_ok c'" for c c'
    by (simp add: m_saved_def m_ok_def)
  show "privilege c = 0 \<or> privilege c = 1 \<or> privilege c = 3 \<Longrightarrow> m_ok (take_mmode_trap ho k irq c)" for c
    using b by (auto simp: m_ok_def mmode_trap_mstatus)
  show "privilege c = 0 \<or> privilege c = 1 \<or> privilege c = 3 \<Longrightarrow>
      m_ctx (exec_mret i (take_mmode_trap ho k irq c)) = m_ctx c" for c
    using b by (auto simp: m_ctx_def mret_regs mmode_trap_mstatus)
  show "\<not> bit (csr (take_mmode_trap ho k irq c) CSR_MSTATUS) 3" for c
    by (simp add: mmode_trap_mstatus)
qed

section \<open>Properties\<close>

text \<open>C17. A supervisor trap returns to where it was taken: from user or supervisor mode with an even
  program counter, whatever the handler does, if at its \<open>sret\<close> it still runs in supervisor mode with the
  \<open>sepc\<close> and \<open>sstatus\<close> the entry left, the program counter, the mode and the interrupt-enable bit are those
  of the interrupted code.\<close>

theorem supervisor_trap_return:
  assumes "privilege c = 0 \<or> privilege c = 1" "\<not> bit (pc c) 0"
    and "privilege d = 1" "csr d CSR_SEPC = csr (take_smode_trap k irq c) CSR_SEPC"
    and "csr d CSR_SSTATUS = csr (take_smode_trap k irq c) CSR_SSTATUS"
  shows "pc (exec_sret i d) = pc c \<and> privilege (exec_sret i d) = privilege c \<and>
    (bit (csr (exec_sret i d) CSR_SSTATUS) 1 \<longleftrightarrow> bit (csr c CSR_SSTATUS) 1)"
proof -
  have "s_ctx (exec_sret i d) = s_ctx c"
    by (rule s_traps.handler_returns) (use assms in \<open>simp_all add: s_src_def s_saved_def\<close>)
  then show ?thesis by (simp add: s_ctx_def)
qed

theorem supervisor_trap_return_witness:
  "privilege (exec_sret 0 (take_smode_trap 5 True zero_cpu)) = 0"
  using supervisor_trap_return [of zero_cpu "take_smode_trap 5 True zero_cpu" 5 True 0]
  by (simp add: zero_cpu_def)

text \<open>C18. A machine-mode trap returns to where it was taken: whatever the handler does, if at its
  \<open>mret\<close> the \<open>mepc\<close> and \<open>mstatus\<close> are those the entry left, the program counter, the mode and the
  interrupt-enable bit are restored; the upper half of \<open>mstatus\<close> is lost.\<close>

theorem machine_trap_return:
  assumes "privilege c = 0 \<or> privilege c = 1 \<or> privilege c = 3"
    and "csr d CSR_MEPC = csr (take_mmode_trap ho k irq c) CSR_MEPC"
    and "csr d CSR_MSTATUS = csr (take_mmode_trap ho k irq c) CSR_MSTATUS"
  shows "pc (exec_mret i d) = pc c \<and> privilege (exec_mret i d) = privilege c \<and>
    (bit (csr (exec_mret i d) CSR_MSTATUS) 3 \<longleftrightarrow> bit (csr c CSR_MSTATUS) 3) \<and>
    (\<forall>n. 32 \<le> n \<longrightarrow> \<not> bit (csr (exec_mret i d) CSR_MSTATUS) n)"
proof -
  have "m_ctx (exec_mret i d) = m_ctx c"
    by (rule m_traps.handler_returns) (use assms in \<open>simp_all add: m_saved_def\<close>)
  then show ?thesis by (simp add: m_ctx_def mret_regs(3))
qed

theorem machine_trap_return_witness:
  "privilege (exec_mret 0 (take_mmode_trap (host blank) 7 True (zero_cpu\<lparr>privilege := 3\<rparr>))) = 3"
  using machine_trap_return [of "zero_cpu\<lparr>privilege := 3\<rparr>"
      "take_mmode_trap (host blank) 7 True (zero_cpu\<lparr>privilege := 3\<rparr>)" "host blank" 7 True 0]
  by simp

text \<open>An external interrupt that is delegated and enabled in \<open>sie\<close> and \<open>sstatus\<close> is taken into
  supervisor mode even from machine mode. The entry records user mode as the previous one, so the matching
  \<open>sret\<close> continues the interrupted machine-mode code in user mode.\<close>

theorem machine_mode_lost:
  fixes ho :: host_answers
  assumes "privilege c = 3" "bit (csr c CSR_MSTATUS) 3" "\<not> bit (pc c) 0"
    and "bit (csr c CSR_MIP) 11" "bit (csr c CSR_MIDELEG) 9" "bit (csr c CSR_SSTATUS) 1" "bit (csr c CSR_SIE) 9"
  defines "d \<equiv> check_and_handle_interrupts ho c"
  shows "privilege d = 1 \<and> pc (exec_sret i d) = pc c \<and> privilege (exec_sret i d) = 0"
proof -
  have k: "selected_cause c = 9"
    using assms(1-7) by (simp add: selected_cause_def mmode_cause_def masks)
  have "d = deliver ho 9 c"
    using assms(1) unfolding d_def check_deliver k by simp
  then have d: "d = take_smode_trap 9 True c" by (simp add: deliver_def)
  have "s_ok d" using assms(3) by (simp add: d s_entry)
  from s_ctx_sret [OF this, of i] have "pc (exec_sret i d) = pc c" "privilege (exec_sret i d) = 0"
    using assms(1) by (simp_all add: s_ctx_def d smode_trap_sstatus)
  then show ?thesis by (simp add: d)
qed

theorem machine_mode_lost_witness:
  "privilege (exec_sret 0 (check_and_handle_interrupts (host blank) (zero_cpu\<lparr>privilege := 3,
     csr := (\<lambda>_. 0)(CSR_MIP := 0x800, CSR_MIDELEG := 0x200, CSR_SIE := 0x200, CSR_SSTATUS := 2,
       CSR_MSTATUS := 8)\<rparr>))) = 0"
  using machine_mode_lost [of "zero_cpu\<lparr>privilege := 3,
     csr := (\<lambda>_. 0)(CSR_MIP := 0x800, CSR_MIDELEG := 0x200, CSR_SIE := 0x200, CSR_SSTATUS := 2,
       CSR_MSTATUS := 8)\<rparr>" "host blank" 0]
  by (simp add: zero_cpu_def)

end
