(* ===== verification/Decode.thy ===== *)
theory Decode
  imports Compressed Privileged
begin

text \<open>
  The decoder (\<open>decode.c\<close>): the handler tables with the entries their \<open>init\<close> functions fill,
  the dispatch through them, and instruction fetch. A table entry that stays \<open>NULL\<close> is \<open>None\<close>;
  only \<open>handle_opcode\<close> tests for it, so a call through any other table may jump to address 0
  (\<open>NullCall\<close>). The 16-bit handlers are called through the table type, whose second parameter has
  32 bits, and take its low half.
\<close>

type_synonym instruction_handler = "nat \<Rightarrow> u32 \<Rightarrow> machine \<Rightarrow> machine res"

text \<open>A handler that touches its hart only.\<close>

definition on_cpu :: "(u32 \<Rightarrow> CPU_State \<Rightarrow> CPU_State) \<Rightarrow> instruction_handler" where
  "on_cpu f h i m = Inr (upd_cpu h (f i) m)"

definition call :: "instruction_handler option \<Rightarrow> instruction_handler" where
  "call f h i m = (case f of None \<Rightarrow> Inl NullCall | Some g \<Rightarrow> g h i m)"

section \<open>The tables\<close>

definition r_type_instruction :: "u32 \<Rightarrow> instruction_handler option" where
  "r_type_instruction = Map.empty
     (0x0 \<mapsto> on_cpu exec_add, 0x6 \<mapsto> on_cpu exec_or, 0x7 \<mapsto> on_cpu exec_and, 0x100 \<mapsto> on_cpu exec_sub,
      0x8 \<mapsto> on_cpu exec_mul, 0x3 \<mapsto> on_cpu exec_sltu, 0x4 \<mapsto> on_cpu exec_xor, 0xC \<mapsto> on_cpu exec_div,
      0x5 \<mapsto> on_cpu exec_srl, 0xF \<mapsto> on_cpu exec_remu, 0xD \<mapsto> on_cpu exec_divu)"

definition i_type_imm_instruction :: "u8 \<Rightarrow> instruction_handler option" where
  "i_type_imm_instruction = Map.empty
     (0 \<mapsto> on_cpu exec_addi, 1 \<mapsto> on_cpu exec_slli, 2 \<mapsto> on_cpu exec_slti, 3 \<mapsto> on_cpu exec_sltiu,
      5 \<mapsto> on_cpu exec_si, 6 \<mapsto> on_cpu exec_ori, 7 \<mapsto> on_cpu exec_andi, 4 \<mapsto> on_cpu exec_xori)"

definition b_type_instr :: "u8 \<Rightarrow> instruction_handler option" where
  "b_type_instr = Map.empty
     (0 \<mapsto> on_cpu exec_beq, 1 \<mapsto> on_cpu exec_bne, 6 \<mapsto> on_cpu exec_bltu, 5 \<mapsto> on_cpu exec_bge,
      4 \<mapsto> on_cpu exec_blt, 7 \<mapsto> on_cpu exec_bgeu)"

definition system_table :: "u32 \<Rightarrow> instruction_handler option" where
  "system_table = Map.empty
     (0 \<mapsto> (\<lambda>h i m. Inr (upd_cpu h (exec_ecall (host m) i) m)), 1 \<mapsto> on_cpu exec_ebreak,
      0x09 \<mapsto> on_cpu exec_sfencevma, 0xA \<mapsto> on_cpu exec_mret, 0x105 \<mapsto> on_cpu exec_wfi,
      0x102 \<mapsto> on_cpu exec_sret)"

definition csr_instr :: "u32 \<Rightarrow> instruction_handler option" where
  "csr_instr = Map.empty(1 \<mapsto> on_cpu exec_csr)"

section \<open>Dispatch\<close>

definition handle_i_imm_type :: instruction_handler where
  "handle_i_imm_type h i m = call (i_type_imm_instruction (funct3_of i)) h i m"

definition handle_r_type :: instruction_handler where
  "handle_r_type h i m =
     (let funct7 = (ucast (funct7_of i) :: u32); funct3 = (ucast (funct3_of i) :: u32)
      in call (r_type_instruction (push_bit 3 funct7 OR funct3)) h i m)"

definition hande_b_type :: instruction_handler where
  "hande_b_type h i m = call (b_type_instr (funct3_of i)) h i m"

definition handle_system :: instruction_handler where
  "handle_system h i m =
     (let funct3 = funct3_of i; funct7 = drop_bit 25 i AND 0x3F; imm12 = drop_bit 20 i AND 0xFFF
      in rbind (if funct3 = 0 then
                 (if imm12 = 0 then call (system_table imm12) h i m
                  else if imm12 = 1 then call (system_table imm12) h i m
                  else if imm12 = 0x302 then call (system_table 0xA) h i m
                  else if imm12 = 0x102 then call (system_table 0x102) h i m
                  else if imm12 = 0x002 then Inr m
                  else if imm12 = 0x105 then call (system_table 0x105) h i m
                  else Inr m)
                else Inr m) (\<lambda>m.
         rbind (if funct3 = 0 \<and> funct7 = 0x09 then call (system_table 0x09) h i m else Inr m) (\<lambda>m.
         if funct3 \<noteq> 0 then call (csr_instr 0x1) h i m else Inr m)))"

definition opcode_table :: "u32 \<Rightarrow> instruction_handler option" where
  "opcode_table = Map.empty
     (0x03 \<mapsto> exec_load, 0x13 \<mapsto> handle_i_imm_type, 0x1B \<mapsto> on_cpu exec_iw, 0x17 \<mapsto> on_cpu exec_auipc,
      0x23 \<mapsto> exec_store, 0x33 \<mapsto> handle_r_type, 0x3B \<mapsto> on_cpu exec_3b, 0x73 \<mapsto> handle_system,
      0x37 \<mapsto> on_cpu exec_lui, 0x6f \<mapsto> on_cpu exec_jal, 0x67 \<mapsto> on_cpu exec_jalr, 0x63 \<mapsto> hande_b_type,
      0x00 \<mapsto> (\<lambda>h i. exec_c0 h (ucast i)), 0x01 \<mapsto> on_cpu (\<lambda>i. exec_c1 (ucast i)),
      0x02 \<mapsto> (\<lambda>h i. exec_c2 h (ucast i)), 0x2F \<mapsto> exec_amo, 0x0F \<mapsto> on_cpu exec_fence,
      0x53 \<mapsto> on_cpu exec_float)"

definition opcode_of :: "u32 \<Rightarrow> u32" where
  "opcode_of i = (let half = i AND 0x3 in if half = 0x3 then i AND 0x7F else half)"

definition handle_opcode :: instruction_handler where
  "handle_opcode h i m =
     (case opcode_table (opcode_of i) of
        Some f \<Rightarrow> f h i m
      | None \<Rightarrow> Inr (upd_cpu h (\<lambda>c. c\<lparr>running := False\<rparr>) m))"

definition decode_and_execute :: instruction_handler where
  "decode_and_execute h i m =
     (if i = 0 then Inr (upd_cpu h (\<lambda>c. c\<lparr>running := False\<rparr>) m) else handle_opcode h i m)"

section \<open>Fetch\<close>

definition fetch_instruction :: "nat \<Rightarrow> machine \<Rightarrow> (u32 \<times> machine) res" where
  "fetch_instruction h m =
     rbind (get_pa h (pc (cpus m h)) ACC_FETCH m) (\<lambda>(pa, m).
       let (v, m) = memory_read pa 2 m; instr = (ucast (v AND 0xFFFF) :: u16) in
       if instr AND 0x3 = 0x3 then
         (let (v, m) = memory_read (pa + 2) 2 m; high = (ucast v :: u16)
          in Inr (push_bit 16 (ucast high) OR ucast instr, m))
       else Inr (ucast instr, m))"

end
