(* ===== verification/Disk.thy ===== *)
theory Disk
  imports Mmu
begin

text \<open>
  The host-facing half of the disk (\<open>virtio_blk.c\<close>): the block cache, the completion of a
  request (walking its descriptor chain, moving the data, updating the used ring, raising the
  interrupt), and \<open>virtio_disk_update\<close>, which the main loop calls after every instruction.
  The descriptor chain is followed by a loop with no bound: \<open>chain_walk\<close> is a partial function,
  and \<open>None\<close> means that the loop does not end. Accesses past the 1024 bytes of the cache or past
  the loaded image are accesses outside the bounds of host arrays.
\<close>

section \<open>The block cache\<close>

definition load_block :: "u64 \<Rightarrow> machine \<Rightarrow> machine res" where
  "load_block blockno m =
     (if bc_valid (bc m) \<and> bc_blockno (bc m) = blockno then Inr m
      else (let offset = blockno * BSIZE in
        if d_disk_len (dev m) < unat offset + 1024 then Inl OutOfBounds
        else Inr (m\<lparr>bc := \<lparr>bc_blockno = blockno,
               bc_data = (\<lambda>i. if unat i < 1024 then d_disk_data (dev m) (offset + i) else bc_data (bc m) i),
               bc_valid = True\<rparr>\<rparr>)))"

section \<open>The descriptor chain\<close>

abbreviation (input) VRING_DESC_F_NEXT :: u16 where "VRING_DESC_F_NEXT \<equiv> 1"

text \<open>
  The loop over the chain: it yields the address of the request header and of the data buffer
  and writes the status byte. Descriptor addresses are translated like loads of \<open>cpu[0]\<close>.
\<close>

partial_function (option) chain_walk ::
  "u16 \<Rightarrow> u16 \<Rightarrow> u64 \<Rightarrow> u64 \<Rightarrow> machine \<Rightarrow> (u64 \<times> u64 \<times> machine) res option" where
  "chain_walk head desc_idx req_addr data_addr m =
     (let desc_base = d_desc_addr (dev m) + ucast desc_idx * 16;
          (f_addr, m) = phys_read (desc_base + 0) 8 m
      in case get_pa 0 f_addr ACC_LOAD m of
           Inl e \<Rightarrow> Some (Inl e)
         | Inr (addr, m) \<Rightarrow>
            (let (len, m) = phys_read (desc_base + 8) 4 m;
                 (flags, m) = phys_read (desc_base + 12) 2 m;
                 (next, m) = phys_read (desc_base + 14) 2 m;
                 req_addr = (if desc_idx = head then addr else req_addr);
                 data_addr = (if desc_idx \<noteq> head \<and> ucast flags AND VRING_DESC_F_NEXT \<noteq> 0 then addr else data_addr)
             in if ucast flags AND VRING_DESC_F_NEXT = 0
                then Some (Inr (req_addr, data_addr, phys_write addr 0 1 m))
                else chain_walk head (ucast next) req_addr data_addr m))"

section \<open>Moving the data\<close>

text \<open>The two loops over 1024 bytes; the cache holds indices 0 to 1023.\<close>

definition disk_in_byte :: "u64 \<Rightarrow> u64 \<Rightarrow> nat \<Rightarrow> machine \<Rightarrow> machine res" where
  "disk_in_byte data_addr buf_offset i m =
     (if 1024 \<le> unat buf_offset + i then Inl OutOfBounds
      else bus_write (cpu_bus (cpus m 0)) (data_addr + of_nat i)
             (ucast (bc_data (bc m) (buf_offset + of_nat i))) 1 m)"

definition disk_out_byte :: "u64 \<Rightarrow> u64 \<Rightarrow> nat \<Rightarrow> machine \<Rightarrow> machine res" where
  "disk_out_byte data_addr buf_offset i m =
     rbind (bus_read (cpu_bus (cpus m 0)) (data_addr + of_nat i) 1 m) (\<lambda>(val, m).
       if 1024 \<le> unat buf_offset + i then Inl OutOfBounds
       else Inr (m\<lparr>bc := (bc m)\<lparr>bc_data := (bc_data (bc m))(buf_offset + of_nat i := ucast val)\<rparr>\<rparr>))"

text \<open>\<open>dev.disk_data[disk_offset + i] = bc.data[i]\<close> for the block.\<close>

definition disk_store_block :: "u64 \<Rightarrow> machine \<Rightarrow> machine res" where
  "disk_store_block blockno m =
     (let disk_offset = blockno * BSIZE in
      if d_disk_len (dev m) < unat disk_offset + 1024 then Inl OutOfBounds
      else Inr (upd_dev (\<lambda>d. d\<lparr>d_disk_data := (\<lambda>a. if unat (a - disk_offset) < 1024
             then bc_data (bc m) (a - disk_offset) else d_disk_data d a)\<rparr>) m))"

definition disk_io :: "u64 \<Rightarrow> u64 \<Rightarrow> machine \<Rightarrow> machine res" where
  "disk_io req_addr data_addr m =
     (if req_addr \<noteq> 0 \<and> data_addr \<noteq> 0 then
        (let (ty, m) = phys_read req_addr 4 m;
             (sector, m) = phys_read (req_addr + 8) 8 m;
             blockno = sector div 2;
             sector_in_block = sector mod 2;
             buf_offset = sector_in_block * 512
         in if (ucast ty :: u32) = 0 then
              rbind (load_block blockno m) (for_loop (disk_in_byte data_addr buf_offset) 1024)
            else if (ucast ty :: u32) = 1 then
              rbind (load_block blockno m) (\<lambda>m.
              rbind (for_loop (disk_out_byte data_addr buf_offset) 1024 m) (disk_store_block blockno))
            else Inr m)
      else Inr m)"

section \<open>Completion\<close>

definition push_used :: "u16 \<Rightarrow> machine \<Rightarrow> machine res" where
  "push_used head m =
     (let used_addr = d_used_ring (dev m);
          (v, m) = phys_read (used_addr + 2) 2 m;
          used_idx = (ucast v :: u16)
      in if d_queue_num (dev m) = 0 then Inl DivByZero
         else (let used_ring_offset = 4 + ucast (used_idx mod d_queue_num (dev m)) * 8;
                   m = phys_write (used_addr + used_ring_offset) (ucast head) 2 m;
                   m = phys_write (used_addr + used_ring_offset + 4) 512 4 m
               in Inr (phys_write (used_addr + 2) (ucast (used_idx + 1)) 2 m)))"

definition complete_disk_operation :: "disk_operation \<Rightarrow> machine \<Rightarrow> machine res" where
  "complete_disk_operation op m =
     (case chain_walk (op_head op) (op_head op) 0 0 m of
        None \<Rightarrow> Inl Diverges
      | Some (Inl e) \<Rightarrow> Inl e
      | Some (Inr (req_addr, data_addr, m)) \<Rightarrow>
          rbind (disk_io req_addr data_addr m) (\<lambda>m.
          rbind (push_used (op_head op) m) (\<lambda>m.
            Inr (plic_set_irq VIRTIO_IRQ 1 (upd_dev (\<lambda>d. d\<lparr>d_interrupt_status := 1\<rparr>) m)))))"

text \<open>
  \<open>virtio_disk_update\<close>: one pass over the list as it is at the start. Operations that a
  completion adds go to the head of the list, so the operation at hand is found by the number
  \<open>k\<close> of nodes behind it.
\<close>

definition list_remove :: "nat \<Rightarrow> 'a list \<Rightarrow> 'a list" where
  "list_remove k xs = take (length xs - Suc k) xs @ drop (length xs - k) xs"

fun disk_pass :: "nat \<Rightarrow> disk_operation list \<Rightarrow> machine \<Rightarrow> machine res" where
  "disk_pass h [] m = Inr m"
| "disk_pass h (op # ops) m =
     (if op_completion op \<le> cycle_count (cpus m h)
      then rbind (complete_disk_operation op m) (\<lambda>m.
             disk_pass h ops (m\<lparr>pending_ops := list_remove (length ops) (pending_ops m)\<rparr>))
      else disk_pass h ops m)"

definition virtio_disk_update :: "nat \<Rightarrow> machine \<Rightarrow> machine res" where
  "virtio_disk_update h m = disk_pass h (pending_ops m) m"

section \<open>Lemmas on the transfer\<close>

text \<open>The cached block is the block of the image; the transfer loops run over bytes in memory.\<close>

definition cache_ok :: "machine \<Rightarrow> bool" where
  "cache_ok m \<longleftrightarrow> (bc_valid (bc m) \<longrightarrow> (\<forall>i < 1024. bc_data (bc m) (of_nat i) =
     d_disk_data (dev m) (bc_blockno (bc m) * BSIZE + of_nat i)))"

definition block_in_image :: "u64 \<Rightarrow> machine \<Rightarrow> bool" where
  "block_in_image blockno m \<longleftrightarrow> unat (blockno * BSIZE) + 1024 \<le> d_disk_len (dev m)"

lemma unat_small: "i < 1024 \<Longrightarrow> unat (of_nat i :: u64) = i"
  by (simp add: unsigned_of_nat take_bit_nat_eq_self)

lemma load_block_ok:
  assumes "cache_ok m" "block_in_image b m"
  obtains m1 where "load_block b m = Inr m1" "m1 = m\<lparr>bc := bc m1\<rparr>" "cache_ok m1"
    "bc_valid (bc m1)" "bc_blockno (bc m1) = b"
proof (cases "bc_valid (bc m) \<and> bc_blockno (bc m) = b")
  case True
  with assms show ?thesis by (intro that [of m]) (simp_all add: load_block_def)
next
  case False
  let ?c = "\<lparr>bc_blockno = b, bc_data = (\<lambda>i. if unat i < 1024 then d_disk_data (dev m) (b * BSIZE + i)
    else bc_data (bc m) i), bc_valid = True\<rparr>"
  have "load_block b m = Inr (m\<lparr>bc := ?c\<rparr>)"
    using False assms(2) by (auto simp: load_block_def Let_def block_in_image_def)
  moreover have "cache_ok (m\<lparr>bc := ?c\<rparr>)" by (simp add: cache_ok_def unat_small)
  ultimately show ?thesis by (intro that [of "m\<lparr>bc := ?c\<rparr>"]) simp_all
qed

lemma ram_bytes:
  assumes "ram_addr a 1024" "i < 1024"
  shows "ram_range (a + of_nat i) 1" and "unat (a + of_nat i) = unat a + i"
proof -
  show u: "unat (a + of_nat i) = unat a + i"
    using assms unat_small [OF assms(2)] by (simp add: ram_addr_def unat_word_ariths)
  with assms show "ram_range (a + of_nat i) 1"
    by (simp add: ram_range_def ram_addr_def word_le_nat_alt)
qed

lemma bus_write_byte_frame:
  assumes "bus_write emu_bus a v 1 m = Inr m'" "ram_range a 1"
  shows "bc m' = bc m" "dev m' = dev m" "cpus m' = cpus m" "pending_ops m' = pending_ops m" "host m' = host m"
  using assms bus_write_ram [of a 1 v m] by (auto simp: ram_range_def frame)

lemma store_bytes_frame:
  assumes "ram_addr a 1024" "n \<le> 1024" "store_bytes (bus_write emu_bus) a d n m = Inr m'"
  shows "bc m' = bc m" "dev m' = dev m" "cpus m' = cpus m"
  using assms(2,3)
proof (induction n arbitrary: m')
  case (Suc n)
  {
    case 1
    then obtain t where "store_bytes (bus_write emu_bus) a d n m = Inr t"
      "bus_write emu_bus (a + of_nat n) (ucast (d n)) 1 t = Inr m'" by (auto simp: rbind_Inr_iff)
    with Suc.IH(1) [of t] 1 bus_write_byte_frame ram_bytes(1) [OF assms(1), of n] show ?case by simp
  next
    case 2
    then obtain t where "store_bytes (bus_write emu_bus) a d n m = Inr t"
      "bus_write emu_bus (a + of_nat n) (ucast (d n)) 1 t = Inr m'" by (auto simp: rbind_Inr_iff)
    with Suc.IH(2) [of t] 2 bus_write_byte_frame ram_bytes(1) [OF assms(1), of n] show ?case by simp
  next
    case 3
    then obtain t where "store_bytes (bus_write emu_bus) a d n m = Inr t"
      "bus_write emu_bus (a + of_nat n) (ucast (d n)) 1 t = Inr m'" by (auto simp: rbind_Inr_iff)
    with Suc.IH(3) [of t] 3 bus_write_byte_frame ram_bytes(1) [OF assms(1), of n] show ?case by simp
  }
qed simp_all

lemma disk_in_loop:
  assumes "ram_addr a 1024" "cpu_bus (cpus m 0) = emu_bus" "n \<le> 1024"
  shows "for_loop (disk_in_byte a 0) n m = store_bytes (bus_write emu_bus) a (\<lambda>i. bc_data (bc m) (of_nat i)) n m"
  using assms(3)
proof (induction n)
  case (Suc n)
  then have IH: "for_loop (disk_in_byte a 0) n m =
      store_bytes (bus_write emu_bus) a (\<lambda>i. bc_data (bc m) (of_nat i)) n m" by simp
  have "disk_in_byte a 0 n t = bus_write emu_bus (a + of_nat n) (ucast (bc_data (bc m) (of_nat n))) 1 t"
    if "store_bytes (bus_write emu_bus) a (\<lambda>i. bc_data (bc m) (of_nat i)) n m = Inr t" for t
    using store_bytes_frame [OF assms(1) _ that] Suc.prems assms(2) by (simp add: disk_in_byte_def)
  then show ?case
    unfolding for_loop.simps store_bytes.simps IH
    by (cases "store_bytes (bus_write emu_bus) a (\<lambda>i. bc_data (bc m) (of_nat i)) n m") auto
qed simp

lemma bus_read_byte:
  assumes "ram_addr a 1024" "i < 1024"
  shows "bus_read emu_bus (a + of_nat i) 1 m = Inr (ucast (memory m (a + of_nat i - MEMORY_BASE)), m)"
  using bus_read_ram [of "a + of_nat i" 1 m] ram_bytes(1) [OF assms] by (simp add: ram_range_def)

lemma ucast_byte: "(ucast (ucast (b :: u8) :: u64) :: u8) = b"
  by (rule bit_word_eqI) (auto simp: bit_simps)

lemma disk_out_loop:
  assumes "ram_addr a 1024" "cpu_bus (cpus m 0) = emu_bus" "n \<le> 1024"
  shows "\<exists>m'. for_loop (disk_out_byte a 0) n m = Inr m' \<and> m' = m\<lparr>bc := (bc m)\<lparr>bc_data := bc_data (bc m')\<rparr>\<rparr> \<and>
    (\<forall>i < n. bc_data (bc m') (of_nat i) = memory m (a + of_nat i - MEMORY_BASE))"
  using assms(3)
proof (induction n)
  case 0
  then show ?case by simp
next
  case (Suc n)
  then obtain t where t: "for_loop (disk_out_byte a 0) n m = Inr t" "t = m\<lparr>bc := (bc m)\<lparr>bc_data := bc_data (bc t)\<rparr>\<rparr>"
    "\<forall>i < n. bc_data (bc t) (of_nat i) = memory m (a + of_nat i - MEMORY_BASE)" by force
  let ?m' = "t\<lparr>bc := (bc t)\<lparr>bc_data := (bc_data (bc t))(of_nat n := memory m (a + of_nat n - MEMORY_BASE))\<rparr>\<rparr>"
  have c: "cpus t = cpus m" "memory t = memory m" by (subst t(2), simp)+
  have step: "disk_out_byte a 0 n t = Inr ?m'"
    using Suc.prems assms(2) bus_read_byte [OF assms(1), of n t]
    by (simp add: disk_out_byte_def c ucast_byte)
  moreover have "?m' = m\<lparr>bc := (bc m)\<lparr>bc_data := bc_data (bc ?m')\<rparr>\<rparr>"
    by (subst (1 2) t(2)) simp
  moreover have "(of_nat i :: u64) \<noteq> of_nat n" if "i < n" for i
    using of_nat_neq_64 [OF that] Suc.prems by simp
  then have "\<forall>i < Suc n. bc_data (bc ?m') (of_nat i) = memory m (a + of_nat i - MEMORY_BASE)"
    using t(3) by (auto simp: less_Suc_eq)
  moreover have "for_loop (disk_out_byte a 0) (Suc n) m = Inr ?m'"
    using t(1) step by simp
  ultimately show ?case by (intro exI [of _ ?m'] conjI)
qed

text \<open>The fields of the request header at \<open>req\<close>.\<close>

definition req_type :: "machine \<Rightarrow> u64 \<Rightarrow> u32" where
  "req_type m req = ucast (le_load (memory m) (req - MEMORY_BASE) 4)"

definition req_sector :: "machine \<Rightarrow> u64 \<Rightarrow> u64" where
  "req_sector m req = le_load (memory m) (req + 8 - MEMORY_BASE) 8"

lemma ram_addr_nonzero: "ram_addr a n \<Longrightarrow> a \<noteq> 0"
  by (auto simp: ram_addr_def)

lemma disk_io_eq:
  assumes "ram_addr req 16" "ram_addr data 1024"
  shows "disk_io req data m =
    (let blockno = req_sector m req div 2; off = req_sector m req mod 2 * 512 in
     if req_type m req = 0 then rbind (load_block blockno m) (for_loop (disk_in_byte data off) 1024)
     else if req_type m req = 1 then rbind (load_block blockno m) (\<lambda>m.
       rbind (for_loop (disk_out_byte data off) 1024 m) (disk_store_block blockno))
     else Inr m)"
proof -
  have "unat (req + 8) = unat req + 8"
    using assms(1) by (simp add: ram_addr_def unat_word_ariths)
  then have r: "ram_addr req 4" "ram_addr (req + 8) 8"
    using assms(1) by (simp_all add: ram_addr_def word_le_nat_alt)
  have "phys_read req 4 m = (le_load (memory m) (req - MEMORY_BASE) 4, m)"
    "phys_read (req + 8) 8 m = (le_load (memory m) (req + 8 - MEMORY_BASE) 8, m)"
    by (simp_all add: phys_read_ram r)
  with assms show ?thesis
    by (simp add: disk_io_def Let_def req_type_def req_sector_def ram_addr_nonzero)
qed

lemma block_offset: "even s \<Longrightarrow> s div 2 * BSIZE = s * 512" for s :: u64
proof -
  assume "even s"
  then have "s = s div 2 * 2" using div_mult_mod_eq [of s 2] by (simp add: even_iff_mod_2_eq_zero)
  then have "s * 512 = s div 2 * 2 * 512" by simp
  then show ?thesis by (simp add: mult.assoc)
qed

text \<open>The transfer loops return as long as they stay inside the cache, and fail once they leave it.\<close>

definition io_inv :: "machine \<Rightarrow> machine \<Rightarrow> bool" where
  "io_inv m t \<longleftrightarrow> cpu_bus (cpus t 0) = emu_bus \<and> dev t = dev m"

lemma disk_in_byte_ok:
  assumes "ram_addr a 1024" "i < 1024" "unat off + i < 1024" "io_inv m t"
  shows "\<exists>t'. disk_in_byte a off i t = Inr t' \<and> io_inv m t'"
proof -
  have r: "ram_range (a + of_nat i) 1" by (rule ram_bytes(1) [OF assms(1,2)])
  then obtain t' where "bus_write emu_bus (a + of_nat i) (ucast (bc_data (bc t) (off + of_nat i))) 1 t = Inr t'"
    using guest_ram.st_then_ld by blast
  with assms(3,4) bus_write_byte_frame [OF this r] show ?thesis by (simp add: disk_in_byte_def io_inv_def)
qed

lemma disk_out_byte_ok:
  assumes "ram_addr a 1024" "i < 1024" "unat off + i < 1024" "io_inv m t"
  shows "\<exists>t'. disk_out_byte a off i t = Inr t' \<and> io_inv m t'"
  using assms bus_read_byte [OF assms(1,2), of t] by (simp add: disk_out_byte_def io_inv_def)

lemma unat_half: "unat (s mod 2 * 512 :: u64) = (if even s then 0 else 512)"
proof -
  have "s mod 2 = (if even s then 0 else 1)" using mod_2_eq_odd [of s] by (simp add: of_bool_def)
  then show ?thesis by simp
qed

lemma transfer_ok:
  assumes "even s" "ram_addr a 1024" "io_inv m t"
  shows "\<exists>t'. for_loop (disk_in_byte a (s mod 2 * 512)) 1024 t = Inr t' \<and> io_inv m t'"
    and "\<exists>t'. for_loop (disk_out_byte a (s mod 2 * 512)) 1024 t = Inr t' \<and> io_inv m t'"
proof -
  have u: "unat (s mod 2 * 512) = 0" using assms(1) unat_half by simp
  show "\<exists>t'. for_loop (disk_in_byte a (s mod 2 * 512)) 1024 t = Inr t' \<and> io_inv m t'"
    by (rule for_loop_ok [OF disk_in_byte_ok [OF assms(2)] assms(3)]) (simp_all add: u)
  show "\<exists>t'. for_loop (disk_out_byte a (s mod 2 * 512)) 1024 t = Inr t' \<and> io_inv m t'"
    by (rule for_loop_ok [OF disk_out_byte_ok [OF assms(2)] assms(3)]) (simp_all add: u)
qed

lemma transfer_overrun:
  assumes "odd s" "ram_addr a 1024" "io_inv m t"
  shows "for_loop (disk_in_byte a (s mod 2 * 512)) 1024 t = Inl OutOfBounds"
    and "for_loop (disk_out_byte a (s mod 2 * 512)) 1024 t = Inl OutOfBounds"
proof -
  have u: "unat (s mod 2 * 512) = 512" using assms(1) unat_half by simp
  have "\<exists>t'. for_loop (disk_in_byte a (s mod 2 * 512)) 512 t = Inr t' \<and> io_inv m t'"
    by (rule for_loop_ok [OF disk_in_byte_ok [OF assms(2)] assms(3)]) (simp_all add: u)
  then obtain t1 where "for_loop (disk_in_byte a (s mod 2 * 512)) 512 t = Inr t1" by blast
  then show "for_loop (disk_in_byte a (s mod 2 * 512)) 1024 t = Inl OutOfBounds"
    by (rule for_loop_fails) (simp_all add: disk_in_byte_def u)
  have "\<exists>t'. for_loop (disk_out_byte a (s mod 2 * 512)) 512 t = Inr t' \<and> io_inv m t'"
    by (rule for_loop_ok [OF disk_out_byte_ok [OF assms(2)] assms(3)]) (simp_all add: u)
  then obtain t2 where t2: "for_loop (disk_out_byte a (s mod 2 * 512)) 512 t = Inr t2" "io_inv m t2" by blast
  from t2(1) show "for_loop (disk_out_byte a (s mod 2 * 512)) 1024 t = Inl OutOfBounds"
    by (rule for_loop_fails) (use t2(2) bus_read_byte [OF assms(2), of 512 t2] in
      \<open>simp_all add: disk_out_byte_def u io_inv_def\<close>)
qed

text \<open>Loading a block fails exactly when it is neither cached nor inside the image.\<close>

definition cache_in_image :: "machine \<Rightarrow> bool" where
  "cache_in_image m \<longleftrightarrow> (bc_valid (bc m) \<longrightarrow> block_in_image (bc_blockno (bc m)) m)"

lemma load_block_cases:
  assumes "cache_in_image m"
  shows "\<not> block_in_image b m \<Longrightarrow> load_block b m = Inl OutOfBounds"
    and "block_in_image b m \<Longrightarrow> \<exists>m1. load_block b m = Inr m1 \<and> dev m1 = dev m \<and> cpus m1 = cpus m"
  using assms by (auto simp: load_block_def cache_in_image_def block_in_image_def Let_def)

section \<open>Properties\<close>

text \<open>
  A read request for a block (even sector) inside the image, with the data buffer in guest
  memory, succeeds and leaves in the buffer exactly the 1024 bytes of the image that start at
  the sector; the image is unchanged and the cache stays a copy of one of its blocks.
\<close>

theorem disk_read_block:
  assumes "cpu_bus (cpus m 0) = emu_bus" "cache_ok m" "ram_addr req 16" "ram_addr data 1024"
    and "req_type m req = 0" "even (req_sector m req)" "block_in_image (req_sector m req div 2) m"
  shows "\<exists>m'. disk_io req data m = Inr m' \<and> dev m' = dev m \<and> cpus m' = cpus m \<and> cache_ok m' \<and>
    (\<forall>i < 1024. bus_read emu_bus (data + of_nat i) 1 m' =
       Inr (ucast (d_disk_data (dev m) (req_sector m req * 512 + of_nat i)), m'))"
proof -
  let ?b = "req_sector m req div 2"
  from load_block_ok [OF assms(2,7)] obtain m1 where m1: "load_block ?b m = Inr m1" "m1 = m\<lparr>bc := bc m1\<rparr>"
    "cache_ok m1" "bc_valid (bc m1)" "bc_blockno (bc m1) = ?b" by blast
  have c1: "cpus m1 = cpus m" "dev m1 = dev m" by (subst m1(2), simp)+
  let ?d = "\<lambda>i. bc_data (bc m1) (of_nat i)"
  have "\<exists>m'. store_bytes (bus_write emu_bus) data ?d 1024 m1 = Inr m'"
    by (rule guest_ram.store_bytes_ok) (rule ram_bytes(1) [OF assms(4)])
  then obtain m' where m': "store_bytes (bus_write emu_bus) data ?d 1024 m1 = Inr m'" by blast
  have "req_sector m req mod 2 * 512 = 0"
    using assms(6) by (simp add: even_iff_mod_2_eq_zero)
  then have io: "disk_io req data m = Inr m'"
    using disk_io_eq [OF assms(3,4), of m] assms(5) m1(1) m' disk_in_loop [OF assms(4), of m1 1024] assms(1)
    by (simp add: Let_def c1)
  have fr: "bc m' = bc m1" "dev m' = dev m" "cpus m' = cpus m"
    using store_bytes_frame [OF assms(4) _ m'] c1 by simp_all
  have "bus_read emu_bus (data + of_nat i) 1 m' = Inr (ucast (d_disk_data (dev m) (req_sector m req * 512 + of_nat i)), m')"
    if "i < 1024" for i
  proof -
    have "bus_read emu_bus (data + of_nat i) 1 m' = Inr (ucast (?d i), m')"
      by (rule guest_ram.store_bytes_ld [OF _ m' that]) (use ram_bytes [OF assms(4)] in blast)
    moreover have "?d i = d_disk_data (dev m) (req_sector m req * 512 + of_nat i)"
      using m1(3,4,5) that block_offset [OF assms(6)] by (simp add: cache_ok_def c1)
    ultimately show ?thesis by simp
  qed
  moreover have "cache_ok m'" using m1(3) by (simp add: cache_ok_def fr c1)
  ultimately show ?thesis using io fr by blast
qed

text \<open>A machine with a two-block image (every byte 7) and a read request for sector 2 at 0x80000100.\<close>

definition disk_machine :: machine where
  "disk_machine = (upd_cpu 0 (\<lambda>c. c\<lparr>cpu_bus := emu_bus\<rparr>) blank)
     \<lparr>dev := zero_dev\<lparr>d_disk_data := (\<lambda>_. 7), d_disk_len := 2048\<rparr>, memory := (\<lambda>_. 0)(0x108 := 2)\<rparr>"

lemma disk_machine_simps:
  "cpu_bus (cpus disk_machine 0) = emu_bus" "cache_ok disk_machine" "d_disk_len (dev disk_machine) = 2048"
  "d_disk_data (dev disk_machine) = (\<lambda>_. 7)" "memory disk_machine = (\<lambda>_. 0)(0x108 := 2)"
  by (simp_all add: disk_machine_def cache_ok_def blank_def zero_machine_def)

lemma disk_machine_req: "req_type disk_machine 0x80000100 = 0" "req_sector disk_machine 0x80000100 = 2"
  by (simp_all add: req_type_def req_sector_def disk_machine_simps le_load_4 le_load_8)

theorem disk_read_block_witness:
  "\<exists>m'. disk_io 0x80000100 0x80001000 disk_machine = Inr m' \<and>
     (\<forall>i < 1024. bus_read emu_bus (0x80001000 + of_nat i) 1 m' = Inr (7, m'))"
  using disk_read_block [of disk_machine "0x80000100" "0x80001000"]
  by (auto simp: disk_machine_simps disk_machine_req ram_addr_def block_in_image_def)

text \<open>A write changes the cache and the image, and nothing else.\<close>

lemma disk_out_exact:
  assumes "cpu_bus (cpus m 0) = emu_bus" "cache_ok m" "ram_addr req 16" "ram_addr data 1024"
    and "req_type m req = 1" "even (req_sector m req)" "block_in_image (req_sector m req div 2) m"
  obtains c f where "disk_io req data m = Inr (m\<lparr>bc := c, dev := (dev m)\<lparr>d_disk_data := f\<rparr>\<rparr>)"
    "cache_ok (m\<lparr>bc := c, dev := (dev m)\<lparr>d_disk_data := f\<rparr>\<rparr>)"
    "\<And>i. i < 1024 \<Longrightarrow> f (req_sector m req * 512 + of_nat i) = memory m (data + of_nat i - MEMORY_BASE)"
    "\<And>a. 1024 \<le> unat (a - req_sector m req * 512) \<Longrightarrow> f a = d_disk_data (dev m) a"
proof -
  let ?b = "req_sector m req div 2"
  from load_block_ok [OF assms(2,7)] obtain m1 where m1: "load_block ?b m = Inr m1" "m1 = m\<lparr>bc := bc m1\<rparr>"
    "bc_blockno (bc m1) = ?b" by blast
  have c1: "cpus m1 = cpus m" "dev m1 = dev m" "memory m1 = memory m" by (subst m1(2), simp)+
  have "cpu_bus (cpus m1 0) = emu_bus" by (simp add: c1 assms(1))
  from disk_out_loop [OF assms(4) this order_refl] obtain m2 where m2:
    "for_loop (disk_out_byte data 0) 1024 m1 = Inr m2" "m2 = m1\<lparr>bc := (bc m1)\<lparr>bc_data := bc_data (bc m2)\<rparr>\<rparr>"
    "\<forall>i < 1024. bc_data (bc m2) (of_nat i) = memory m (data + of_nat i - MEMORY_BASE)"
    by (auto simp: c1)
  have c2: "dev m2 = dev m" "bc_blockno (bc m2) = ?b" by (subst m2(2), simp add: c1 m1(3))+
  let ?o = "req_sector m req * 512"
  let ?f = "\<lambda>a. if unat (a - ?o) < 1024 then bc_data (bc m2) (a - ?o) else d_disk_data (dev m) a"
  let ?m' = "m\<lparr>bc := bc m2, dev := (dev m)\<lparr>d_disk_data := ?f\<rparr>\<rparr>"
  have bo: "?b * BSIZE = ?o" by (rule block_offset [OF assms(6)])
  have "bc m2 = (bc m1)\<lparr>bc_data := bc_data (bc m2)\<rparr>" by (subst (1) m2(2)) simp
  note x = arg_cong [OF this, of "\<lambda>x. m1\<lparr>bc := x\<rparr>"]
  have "m2 = m1\<lparr>bc := bc m2\<rparr>" by (rule trans [OF m2(2) x [symmetric]])
  also have "\<dots> = m\<lparr>bc := bc m2\<rparr>" by (subst m1(2)) simp
  finally have x2: "m2 = m\<lparr>bc := bc m2\<rparr>" .
  have "upd_dev g m2 = m\<lparr>bc := bc m2, dev := g (dev m)\<rparr>" for g by (subst x2) (simp add: upd_dev_def)
  then have "upd_dev (\<lambda>d. d\<lparr>d_disk_data := ?f\<rparr>) m2 = ?m'" by simp
  moreover have "disk_store_block ?b m2 = Inr (upd_dev (\<lambda>d. d\<lparr>d_disk_data := ?f\<rparr>) m2)"
    using assms(7) by (simp add: disk_store_block_def Let_def block_in_image_def c2 bo upd_dev_def cong: if_cong)
  moreover have "req_sector m req mod 2 * 512 = 0"
    using assms(6) by (simp add: even_iff_mod_2_eq_zero)
  ultimately have io: "disk_io req data m = Inr ?m'"
    using disk_io_eq [OF assms(3,4), of m] assms(5) m1(1) m2(1) by (simp add: Let_def)
  have "cache_ok ?m'" by (simp add: cache_ok_def c2 bo unat_small)
  with io m2(3) show ?thesis by (intro that [of ?f "bc m2"]) (simp_all add: unat_small)
qed

text \<open>
  A write request for a block (even sector) inside the image, with the buffer in guest
  memory, succeeds: the 1024 bytes of the buffer are in the image at the sector, every other
  byte of the image is unchanged, guest memory is unchanged, and the cache agrees with the image.
\<close>

theorem disk_write_block:
  assumes "cpu_bus (cpus m 0) = emu_bus" "cache_ok m" "ram_addr req 16" "ram_addr data 1024"
    and "req_type m req = 1" "even (req_sector m req)" "block_in_image (req_sector m req div 2) m"
  shows "\<exists>m'. disk_io req data m = Inr m' \<and> memory m' = memory m \<and> cpus m' = cpus m \<and> cache_ok m' \<and>
    (\<forall>i < 1024. d_disk_data (dev m') (req_sector m req * 512 + of_nat i) = memory m (data + of_nat i - MEMORY_BASE)) \<and>
    (\<forall>a. 1024 \<le> unat (a - req_sector m req * 512) \<longrightarrow> d_disk_data (dev m') a = d_disk_data (dev m) a)"
proof (rule disk_out_exact [OF assms])
  fix c f
  assume e: "disk_io req data m = Inr (m\<lparr>bc := c, dev := (dev m)\<lparr>d_disk_data := f\<rparr>\<rparr>)"
    "cache_ok (m\<lparr>bc := c, dev := (dev m)\<lparr>d_disk_data := f\<rparr>\<rparr>)"
    "\<And>i. i < 1024 \<Longrightarrow> f (req_sector m req * 512 + of_nat i) = memory m (data + of_nat i - MEMORY_BASE)"
    "\<And>a. 1024 \<le> unat (a - req_sector m req * 512) \<Longrightarrow> f a = d_disk_data (dev m) a"
  show ?thesis by (rule exI, intro conjI allI impI, rule e(1)) (simp_all add: e(2-))
qed

theorem disk_write_block_witness:
  "\<exists>m'. disk_io 0x80000100 0x80001000 (disk_machine\<lparr>memory := (\<lambda>_. 0)(0x100 := 1, 0x108 := 2, 0x1000 := 9)\<rparr>) = Inr m' \<and>
     d_disk_data (dev m') 1024 = 9"
proof -
  let ?m = "disk_machine\<lparr>memory := (\<lambda>_. 0)(0x100 := 1, 0x108 := 2, 0x1000 := 9)\<rparr>"
  have "req_type ?m 0x80000100 = 1" "req_sector ?m 0x80000100 = 2"
    by (simp_all add: req_type_def req_sector_def le_load_4 le_load_8)
  moreover have "cache_ok ?m" using disk_machine_simps(2) by (simp add: cache_ok_def)
  moreover have "block_in_image 1 ?m" "cpu_bus (cpus ?m 0) = emu_bus"
    by (simp_all add: block_in_image_def disk_machine_simps)
  moreover have "ram_addr 0x80000100 16" "ram_addr 0x80001000 1024" by (simp_all add: ram_addr_def)
  ultimately obtain m' where "disk_io 0x80000100 0x80001000 ?m = Inr m'"
    "\<forall>i < 1024. d_disk_data (dev m') (2 * 512 + of_nat i) = memory ?m (0x80001000 + of_nat i - MEMORY_BASE)"
    using disk_write_block [of ?m "0x80000100" "0x80001000"] by force
  moreover from this(2) [rule_format, of 0] have "d_disk_data (dev m') 1024 = 9" by simp
  ultimately show ?thesis by blast
qed

text \<open>
  C38. The transfer touches host memory outside the block cache or the image exactly when the
  request starts at an odd sector or names a block that the image does not contain: nothing checks
  the sector of a request, and a transfer always moves 1024 bytes.
\<close>

theorem disk_io_overruns:
  assumes "cpu_bus (cpus m 0) = emu_bus" "cache_in_image m" "ram_addr req 16" "ram_addr data 1024"
    and "req_type m req = 0 \<or> req_type m req = 1"
  shows "disk_io req data m = Inl OutOfBounds \<longleftrightarrow>
    odd (req_sector m req) \<or> \<not> block_in_image (req_sector m req div 2) m"
proof (cases "block_in_image (req_sector m req div 2) m")
  case False
  with load_block_cases(1) [OF assms(2) False] assms(5) show ?thesis
    by (auto simp: disk_io_eq [OF assms(3,4)] Let_def)
next
  case True
  then obtain m1 where m1: "load_block (req_sector m req div 2) m = Inr m1" "dev m1 = dev m" "cpus m1 = cpus m"
    using load_block_cases(2) [OF assms(2)] by blast
  have i1: "io_inv m m1" by (simp add: io_inv_def m1 assms(1))
  show ?thesis
  proof (cases "even (req_sector m req)")
    case False
    with assms(5) True transfer_overrun [OF False assms(4) i1] show ?thesis
      by (auto simp: disk_io_eq [OF assms(3,4)] Let_def m1)
  next
    case even: True
    from transfer_ok [OF this assms(4) i1] obtain t1 t2 where
      "for_loop (disk_in_byte data (req_sector m req mod 2 * 512)) 1024 m1 = Inr t1"
      "for_loop (disk_out_byte data (req_sector m req mod 2 * 512)) 1024 m1 = Inr t2" "io_inv m t2" by blast
    with assms(5) True even show ?thesis
      by (auto simp: disk_io_eq [OF assms(3,4)] Let_def m1 disk_store_block_def block_in_image_def io_inv_def)
  qed
qed

theorem disk_io_overruns_witness:
  "disk_io 0x80000100 0x80001000 (disk_machine\<lparr>memory := (\<lambda>_. 0)(0x108 := 1)\<rparr>) = Inl OutOfBounds"
  using disk_io_overruns [of "disk_machine\<lparr>memory := (\<lambda>_. 0)(0x108 := 1)\<rparr>" "0x80000100" "0x80001000"]
  by (simp add: disk_machine_simps ram_addr_def cache_in_image_def req_type_def req_sector_def le_load_4 le_load_8)
    (simp add: disk_machine_def blank_def zero_machine_def)

text \<open>Descriptor \<open>i\<close> of the table in guest memory: its flags, its successor, and whether it can be read.\<close>

definition desc_flags :: "machine \<Rightarrow> u16 \<Rightarrow> u64" where
  "desc_flags m i = le_load (memory m) (d_desc_addr (dev m) + ucast i * 16 + 12 - MEMORY_BASE) 2"

definition desc_next :: "machine \<Rightarrow> u16 \<Rightarrow> u16" where
  "desc_next m i = ucast (le_load (memory m) (d_desc_addr (dev m) + ucast i * 16 + 14 - MEMORY_BASE) 2)"

definition desc_in_ram :: "machine \<Rightarrow> u16 \<Rightarrow> bool" where
  "desc_in_ram m i \<longleftrightarrow> ram_addr (d_desc_addr (dev m) + ucast i * 16) 16"

lemma desc_reads:
  assumes "desc_in_ram m i"
  defines "base \<equiv> d_desc_addr (dev m) + ucast i * 16"
  shows "phys_read base 8 m = (le_load (memory m) (base - MEMORY_BASE) 8, m)"
    "phys_read (base + 8) 4 m = (le_load (memory m) (base + 8 - MEMORY_BASE) 4, m)"
    "phys_read (base + 12) 2 m = (desc_flags m i, m)"
    "phys_read (base + 14) 2 m = (le_load (memory m) (base + 14 - MEMORY_BASE) 2, m)"
proof -
  have u: "unat (base + of_nat k) = unat base + k" if "k < 16" for k
  proof -
    have "unat (of_nat k :: u64) = k" using that by (simp add: unsigned_of_nat take_bit_nat_eq_self)
    with assms(1) that show ?thesis unfolding base_def
      by (auto simp: desc_in_ram_def ram_addr_def unat_word_ariths(1) [of _ "of_nat k"])
  qed
  have r: "ram_addr base 8" "ram_addr (base + 8) 4" "ram_addr (base + 12) 2" "ram_addr (base + 14) 2"
    using assms(1) u [of 8] u [of 12] u [of 14] unfolding desc_in_ram_def base_def [symmetric]
    by (simp_all add: ram_addr_def word_le_nat_alt)
  then show "phys_read base 8 m = (le_load (memory m) (base - MEMORY_BASE) 8, m)"
    "phys_read (base + 8) 4 m = (le_load (memory m) (base + 8 - MEMORY_BASE) 4, m)"
    "phys_read (base + 12) 2 m = (desc_flags m i, m)"
    "phys_read (base + 14) 2 m = (le_load (memory m) (base + 14 - MEMORY_BASE) 2, m)"
    by (simp_all add: phys_read_ram desc_flags_def base_def)
qed

lemma chain_walk_stays:
  assumes "\<forall>i\<in>S. desc_in_ram m i \<and> desc_next m i \<in> S \<and> (ucast (desc_flags m i) :: u16) AND 1 \<noteq> 0"
    and "drop_bit 60 (csr (cpus m 0) CSR_SATP) AND 0xF = 0" "i \<in> S"
  shows "chain_walk head i ra da m = None"
proof -
  have "m' = m \<longrightarrow> i \<notin> S" if "chain_walk head i ra da m' = Some r" for i ra da m' r
  proof (rule chain_walk.raw_induct [where P = "\<lambda>h i ra da m' r. m' = m \<longrightarrow> i \<notin> S", OF _ that])
    fix f and h i :: u16 and ra da :: u64 and m' :: machine and r
    assume 1: "\<And>h i ra da m' r. f h i ra da m' = Some r \<Longrightarrow> m' = m \<longrightarrow> i \<notin> S"
      "(let desc_base = d_desc_addr (dev m') + ucast i * 16;
          (f_addr, m) = phys_read (desc_base + 0) 8 m'
      in case get_pa 0 f_addr ACC_LOAD m of
           Inl e \<Rightarrow> Some (Inl e)
         | Inr (addr, m) \<Rightarrow>
            (let (len, m) = phys_read (desc_base + 8) 4 m;
                 (flags, m) = phys_read (desc_base + 12) 2 m;
                 (next, m) = phys_read (desc_base + 14) 2 m;
                 req_addr = (if i = h then addr else ra);
                 data_addr = (if i \<noteq> h \<and> ucast flags AND VRING_DESC_F_NEXT \<noteq> 0 then addr else da)
             in if ucast flags AND VRING_DESC_F_NEXT = 0
                then Some (Inr (req_addr, data_addr, phys_write addr 0 1 m))
                else f h (ucast next) req_addr data_addr m)) = Some r"
    show "m' = m \<longrightarrow> i \<notin> S"
    proof (intro impI notI)
      assume m': "m' = m" and i: "i \<in> S"
      with assms(1) have d: "desc_in_ram m i" "desc_next m i \<in> S" "(ucast (desc_flags m i) :: u16) AND 1 \<noteq> 0"
        by auto
      from 1(2) d(3) assms(2) obtain ra' da' where "f h (desc_next m i) ra' da' m = Some r"
        by (auto simp: m' Let_def get_pa_def desc_reads [OF d(1)] desc_next_def)
      from 1(1) [OF this] d(2) show False by simp
    qed
  qed
  with assms(3) show ?thesis by (cases "chain_walk head i ra da m") auto
qed

text \<open>
  C39. A chain of descriptors in guest memory that runs into a set of descriptors closed under
  \<open>next\<close>, all with the NEXT flag, is never left (addresses untranslated): completing such a
  request hangs the emulator. The driver in the guest can cause this at will.
\<close>

theorem descriptor_cycle_hangs:
  assumes "op_head op \<in> S"
    and "\<forall>i\<in>S. desc_in_ram m i \<and> desc_next m i \<in> S \<and> (ucast (desc_flags m i) :: u16) AND 1 \<noteq> 0"
    and "drop_bit 60 (csr (cpus m 0) CSR_SATP) AND 0xF = 0"
  shows "complete_disk_operation op m = Inl Diverges"
  using chain_walk_stays [OF assms(2,3,1)] by (simp add: complete_disk_operation_def)

text \<open>Descriptor 0 of a table at 0x80000000 with flags NEXT and successor 0.\<close>

theorem descriptor_cycle_hangs_witness:
  "complete_disk_operation \<lparr>op_head = 0, op_start = 0, op_completion = 0, op_type = 0, op_sector = 0\<rparr>
     (blank\<lparr>dev := zero_dev\<lparr>d_desc_addr := 0x80000000\<rparr>, memory := (\<lambda>_. 0)(12 := 1)\<rparr>) = Inl Diverges"
proof -
  let ?m = "blank\<lparr>dev := zero_dev\<lparr>d_desc_addr := 0x80000000\<rparr>, memory := (\<lambda>_. 0)(12 := 1)\<rparr>"
  have "desc_in_ram ?m 0" "desc_next ?m 0 = 0" "(ucast (desc_flags ?m 0) :: u16) AND 1 \<noteq> 0"
    by (simp_all add: desc_in_ram_def desc_next_def desc_flags_def ram_addr_def le_load_2)
  moreover have "drop_bit 60 (csr (cpus ?m 0) CSR_SATP) AND 0xF = 0"
    by (simp add: blank_def zero_machine_def zero_cpu_def)
  ultimately show ?thesis
    by (intro descriptor_cycle_hangs [where S = "{0}"]) simp_all
qed

end
