(* ===== verification/Trap_Vector.thy ===== *)
theory Trap_Vector
  imports Mmu Alu
begin

text \<open>
  The simulated system calls (\<open>trap_vector.c\<close>): a handler table with one entry, and
  \<open>trap_handler\<close>, which runs an entry on behalf of the guest and returns behind the trapping
  instruction. \<open>uart_table[UART_IRQ_NUM]\<close> is a pointer that \<open>main\<close> sets and \<open>cpu_init\<close> clears
  again; the argument \<open>uart_set\<close> says whether it is set.
\<close>

definition write_mem :: "nat \<Rightarrow> machine \<Rightarrow> machine res" where
  "write_mem h m = phys_write_u32 (gpr (cpus m h) 10) (gpr (cpus m h) 11) m"

definition init_syscall :: "u64 \<Rightarrow> (nat \<Rightarrow> machine \<Rightarrow> machine res) option" where
  "init_syscall = Map.empty(0x1001 \<mapsto> write_mem)"

definition mmio_trap_handler :: "bool \<Rightarrow> nat \<Rightarrow> machine \<Rightarrow> machine res" where
  "mmio_trap_handler uart_set h m =
     (if \<not> uart_set then Inl NullCall
      else rbind (uart_lock m) (\<lambda>m.
        let m = (if u_irq_status (g_uart m) AND 0x1 \<noteq> 0
                 then upd_uart (\<lambda>u. u\<lparr>u_irq_status := u_irq_status u AND NOT 0x1\<rparr>) m else m);
            m = (if u_irq_status (g_uart m) AND 0x2 \<noteq> 0
                 then upd_uart (\<lambda>u. u\<lparr>u_irq_status := u_irq_status u AND NOT 0x2\<rparr>) m else m);
            m = uart_unlock m
        in Inr (upd_cpu h (\<lambda>c. c\<lparr>csr := (csr c)(CSR_MIP := csr c CSR_MIP AND ucast (NOT (0x400 :: u32)))\<rparr>) m)))"

definition trap_handler :: "bool \<Rightarrow> nat \<Rightarrow> machine \<Rightarrow> machine res" where
  "trap_handler uart_set h m =
     (let mcause = csr (cpus m h) CSR_MCAUSE AND 0x7fffffff;
          syscall = gpr (cpus m h) 17;
          cause_flag = drop_bit 31 (csr (cpus m h) CSR_MCAUSE) AND 0x1
      in rbind (if cause_flag = 0 then
                  (if syscall < 0xFFFF then (case init_syscall syscall of Some f \<Rightarrow> f h m | None \<Rightarrow> Inr m)
                   else Inr m)
                else if mcause = 10 then mmio_trap_handler uart_set h m
                else Inr m) (\<lambda>m.
         Inr (upd_cpu h (\<lambda>c. c\<lparr>pc := read_csr c CSR_MEPC + 4\<rparr>) m)))"

end
