(* ===== verification/Elf.thy ===== *)
theory Elf
  imports Ram
begin

text \<open>
  The kernel loader (\<open>elf_load.c\<close>). A file is the list of its bytes, \<open>None\<close> one that cannot be
  opened. \<open>fread\<close> returns what is left of the file when it is shorter than asked for, \<open>fseek\<close>
  refuses a negative position only. The layouts of the header records are those of the ELF
  specification (\<open>elf.h\<close>); of their fields only those the loader reads are kept. Bytes written
  past the end of the memory block are \<open>OutOfBounds\<close>.
\<close>

section \<open>Files and header records\<close>

abbreviation (input) PT_LOAD :: u32 where "PT_LOAD \<equiv> 1"
abbreviation (input) ET_DYN :: u16 where "ET_DYN \<equiv> 3"
abbreviation (input) EM_RISCV :: u16 where "EM_RISCV \<equiv> 243"
abbreviation (input) ELFCLASS32 :: u8 where "ELFCLASS32 \<equiv> 1"
abbreviation (input) ELFCLASS64 :: u8 where "ELFCLASS64 \<equiv> 2"
abbreviation (input) ELFDATA2LSB :: u8 where "ELFDATA2LSB \<equiv> 1"
abbreviation (input) EI_CLASS :: nat where "EI_CLASS \<equiv> 4"
abbreviation (input) EI_DATA :: nat where "EI_DATA \<equiv> 5"

definition ELFMAG :: "u8 list" where "ELFMAG = [0x7f, 0x45, 0x4c, 0x46]"

definition file_read :: "u8 list \<Rightarrow> u64 \<Rightarrow> nat \<Rightarrow> u8 list" where
  "file_read f pos n = take n (drop (unat pos) f)"

text \<open>\<open>fread(&x, 1, sizeof x, f) == sizeof x\<close>: the bytes of a whole record.\<close>

definition read_record :: "u8 list \<Rightarrow> u64 \<Rightarrow> nat \<Rightarrow> u8 list option" where
  "read_record f pos n = (let b = file_read f pos n in if length b = n then Some b else None)"

text \<open>The little-endian field of \<open>n\<close> bytes at offset \<open>k\<close> of a record.\<close>

definition field :: "u8 list \<Rightarrow> nat \<Rightarrow> nat \<Rightarrow> u64" where
  "field b k n = le_load (\<lambda>a. b ! unat a) (of_nat k) n"

record Elf64_Ehdr =
  e_ident :: "u8 list"
  e_type :: u16
  e_machine :: u16
  e_entry :: u64
  e_phoff :: u64
  e_phentsize :: u16
  e_phnum :: u16

record Elf64_Phdr =
  p_type :: u32
  p_offset :: u64
  p_vaddr :: u64
  p_filesz :: u64
  p_memsz :: u64

definition read_ehdr64 :: "u8 list \<Rightarrow> Elf64_Ehdr option" where
  "read_ehdr64 f = map_option (\<lambda>b. \<lparr>e_ident = take 16 b, e_type = ucast (field b 16 2),
     e_machine = ucast (field b 18 2), e_entry = field b 24 8, e_phoff = field b 32 8,
     e_phentsize = ucast (field b 54 2), e_phnum = ucast (field b 56 2)\<rparr>) (read_record f 0 64)"

definition read_phdr64 :: "u8 list \<Rightarrow> u64 \<Rightarrow> Elf64_Phdr option" where
  "read_phdr64 f pos = map_option (\<lambda>b. \<lparr>p_type = ucast (field b 0 4), p_offset = field b 8 8,
     p_vaddr = field b 16 8, p_filesz = field b 32 8, p_memsz = field b 40 8\<rparr>) (read_record f pos 56)"

section \<open>Writing to the memory block\<close>

text \<open>\<open>fread(memory + off, 1, n, f)\<close> with the bytes it delivers, and
  \<open>memset(memory + off, 0, n)\<close>, for a block of \<open>block\<close> bytes.\<close>

definition host_put :: "u64 \<Rightarrow> u64 \<Rightarrow> u8 list \<Rightarrow> machine \<Rightarrow> machine res" where
  "host_put block off bs m =
     (if bs = [] then Inr m
      else if unat block < unat off + length bs then Inl OutOfBounds
      else Inr (put_bytes off bs m))"

definition host_zero :: "u64 \<Rightarrow> u64 \<Rightarrow> u64 \<Rightarrow> machine \<Rightarrow> machine res" where
  "host_zero block off n m =
     (if n = 0 then Inr m
      else if unat block < unat off + unat n then Inl OutOfBounds
      else Inr (m\<lparr>memory := (\<lambda>a. if off \<le> a \<and> a < off + n then 0 else memory m a)\<rparr>))"

section \<open>The 64-bit loader\<close>

text \<open>Where a segment goes: as linked, or moved by the base of a position-independent file.\<close>

definition seg_start :: "Elf64_Ehdr \<Rightarrow> u64 \<Rightarrow> Elf64_Phdr \<Rightarrow> u64" where
  "seg_start eh load_base ph = (if e_type eh = ET_DYN then p_vaddr ph + load_base else p_vaddr ph)"

definition load_segment :: "u8 list \<Rightarrow> u64 \<Rightarrow> Elf64_Phdr \<Rightarrow> machine \<Rightarrow> machine res" where
  "load_segment f phys_addr ph m =
     rbind (if 0 < p_filesz ph
            then host_put MEMORY_SIZE (phys_addr - MEMORY_BASE) (file_read f (p_offset ph) (unat (p_filesz ph))) m
            else Inr m) (\<lambda>m.
     if p_filesz ph < p_memsz ph
     then host_zero MEMORY_SIZE (phys_addr - MEMORY_BASE + p_filesz ph) (p_memsz ph - p_filesz ph) m
     else Inr m)"

text \<open>One turn of the loop over the program headers; every \<open>continue\<close> leaves the state alone.\<close>

definition load_phdr64 :: "u8 list \<Rightarrow> Elf64_Ehdr \<Rightarrow> u64 \<Rightarrow> nat \<Rightarrow> int \<times> machine \<Rightarrow> (int \<times> machine) res" where
  "load_phdr64 f eh load_base i = (\<lambda>(segments_loaded, m).
     let ph_off = e_phoff eh + of_nat i * ucast (e_phentsize eh) in
     if ph_off <s 0 then Inr (segments_loaded, m)
     else case read_phdr64 f ph_off of
       None \<Rightarrow> Inr (segments_loaded, m)
     | Some ph \<Rightarrow>
        if p_type ph \<noteq> PT_LOAD then Inr (segments_loaded, m)
        else
         (let phys_addr = seg_start eh load_base ph in
          if phys_addr < MEMORY_BASE \<or> MEMORY_BASE + MEMORY_SIZE < phys_addr + p_memsz ph
          then Inr (segments_loaded, m)
          else if 0 < p_filesz ph \<and> p_offset ph <s 0 then Inr (segments_loaded, m)
          else rbind (load_segment f phys_addr ph m) (\<lambda>m. Inr (segments_loaded + 1, m))))"

definition load_phdrs64 :: "u8 list \<Rightarrow> Elf64_Ehdr \<Rightarrow> u64 \<Rightarrow> nat \<Rightarrow> machine \<Rightarrow> (int \<times> machine) res" where
  "load_phdrs64 f eh load_base n m = fold (\<lambda>i r. rbind r (load_phdr64 f eh load_base i)) [0..<n] (Inr (0, m))"

text \<open>The checks on the header, in the order of the code.\<close>

definition elf64_ok :: "Elf64_Ehdr \<Rightarrow> bool" where
  "elf64_ok eh \<longleftrightarrow> take 4 (e_ident eh) = ELFMAG \<and> e_ident eh ! EI_CLASS = ELFCLASS64 \<and> e_machine eh = EM_RISCV"

definition elf64_base :: "Elf64_Ehdr \<Rightarrow> u64" where
  "elf64_base eh = (if e_type eh = ET_DYN then 0x80000000 else 0)"

definition elf64_entry :: "Elf64_Ehdr \<Rightarrow> u64" where
  "elf64_entry eh =
     (if e_type eh = ET_DYN then (if e_entry eh = 0 then elf64_base eh else e_entry eh + elf64_base eh)
      else e_entry eh)"

text \<open>The result is the return value, \<open>*entry_point\<close> (unchanged when -1 is returned) and the machine.\<close>

definition load_elf64_SBI :: "u8 list option \<Rightarrow> u64 \<Rightarrow> machine \<Rightarrow> (int \<times> u64 \<times> machine) res" where
  "load_elf64_SBI kern entry_point m =
     (case kern of None \<Rightarrow> Inr (-1, entry_point, m)
      | Some f \<Rightarrow>
         (case read_ehdr64 f of None \<Rightarrow> Inr (-1, entry_point, m)
          | Some eh \<Rightarrow>
             if \<not> elf64_ok eh then Inr (-1, entry_point, m)
             else rbind (load_phdrs64 f eh (elf64_base eh) (unat (e_phnum eh)) m) (\<lambda>(n, m).
                  Inr (n, elf64_entry eh, m))))"

section \<open>What the loader promises\<close>

text \<open>The header of index \<open>i\<close>, if it can be read, and the list of the loadable segments.\<close>

definition phdr64 :: "u8 list \<Rightarrow> Elf64_Ehdr \<Rightarrow> nat \<Rightarrow> Elf64_Phdr option" where
  "phdr64 f eh i = (let ph_off = e_phoff eh + of_nat i * ucast (e_phentsize eh)
     in if ph_off <s 0 then None else read_phdr64 f ph_off)"

definition loadable :: "u8 list \<Rightarrow> Elf64_Ehdr \<Rightarrow> nat \<Rightarrow> Elf64_Phdr option" where
  "loadable f eh i = (case phdr64 f eh i of None \<Rightarrow> None
     | Some ph \<Rightarrow> if p_type ph = PT_LOAD then Some ph else None)"

definition segments :: "u8 list \<Rightarrow> Elf64_Ehdr \<Rightarrow> Elf64_Phdr list" where
  "segments f eh = List.map_filter (loadable f eh) [0..<unat (e_phnum eh)]"

text \<open>A segment that lies in guest memory and in the file.\<close>

definition seg_ok :: "u8 list \<Rightarrow> Elf64_Ehdr \<Rightarrow> Elf64_Phdr \<Rightarrow> bool" where
  "seg_ok f eh ph \<longleftrightarrow> (let s = seg_start eh (elf64_base eh) ph in
     MEMORY_BASE \<le> s \<and> unat s + unat (p_memsz ph) \<le> unat (MEMORY_BASE + MEMORY_SIZE) \<and>
     p_filesz ph \<le> p_memsz ph \<and> unat (p_offset ph) + unat (p_filesz ph) \<le> length f)"

text \<open>The guest addresses a segment covers, and the bytes it has there: those of the file, then zeros.\<close>

definition covers :: "Elf64_Ehdr \<Rightarrow> Elf64_Phdr \<Rightarrow> u64 \<Rightarrow> bool" where
  "covers eh ph pa \<longleftrightarrow> (let s = seg_start eh (elf64_base eh) ph in s \<le> pa \<and> unat pa < unat s + unat (p_memsz ph))"

definition seg_byte :: "u8 list \<Rightarrow> Elf64_Ehdr \<Rightarrow> Elf64_Phdr \<Rightarrow> u64 \<Rightarrow> u8" where
  "seg_byte f eh ph pa = (let k = unat (pa - seg_start eh (elf64_base eh) ph)
     in if k < unat (p_filesz ph) then f ! (unat (p_offset ph) + k) else 0)"

definition place :: "u8 list \<Rightarrow> Elf64_Ehdr \<Rightarrow> Elf64_Phdr \<Rightarrow> machine \<Rightarrow> machine" where
  "place f eh ph m = m\<lparr>memory := (\<lambda>a. if covers eh ph (a + MEMORY_BASE) then seg_byte f eh ph (a + MEMORY_BASE)
     else memory m a)\<rparr>"

text \<open>Filling \<open>n\<close> bytes of the block from offset \<open>lo\<close>.\<close>

definition fill :: "u64 \<Rightarrow> nat \<Rightarrow> (u64 \<Rightarrow> u8) \<Rightarrow> machine \<Rightarrow> machine" where
  "fill lo n g m = m\<lparr>memory := (\<lambda>b. if lo \<le> b \<and> unat b < unat lo + n then g b else memory m b)\<rparr>"

lemma fill_0 [simp]: "fill lo 0 g m = m"
proof -
  have "(\<lambda>b. if lo \<le> b \<and> unat b < unat lo + 0 then g b else memory m b) = memory m"
    by (auto simp: fun_eq_iff word_le_nat_alt)
  then show ?thesis unfolding fill_def by simp
qed

lemma unat_u64_less: "unat (w :: u64) < 2 ^ 64"
proof -
  have "unat w < 2 ^ LENGTH(64)" by (rule unsigned_less)
  then show ?thesis by simp
qed

lemma host_put_ok:
  assumes "unat off + length bs \<le> unat block"
  shows "host_put block off bs m = Inr (fill off (length bs) (\<lambda>b. bs ! (unat b - unat off)) m)"
proof (cases "bs = []")
  case False
  have "put_bytes off bs m = m\<lparr>memory := memory (put_bytes off bs m)\<rparr>"
    by (induction off bs m rule: put_bytes.induct) (simp_all add: poke_def)
  moreover have "memory (put_bytes off bs m) = (\<lambda>b. if off \<le> b \<and> unat b < unat off + length bs
      then bs ! (unat b - unat off) else memory m b)"
    using assms unat_u64_less [of block] by (intro ext memory_put_bytes) simp
  ultimately show ?thesis using False assms by (simp add: host_put_def fill_def)
qed (simp add: host_put_def)

lemma host_zero_ok:
  assumes "unat off + unat n \<le> unat block"
  shows "host_zero block off n m = Inr (fill off (unat n) (\<lambda>_. 0) m)"
proof (cases "n = 0")
  case False
  have "unat (off + n) = unat off + unat n" using assms unat_u64_less [of block] by (simp add: unat_word_ariths)
  with False assms show ?thesis by (simp add: host_zero_def fill_def word_less_nat_alt)
qed (simp add: host_zero_def)

text \<open>The same range of bytes, as guest addresses and as offsets into the block.\<close>

lemma guest_range:
  assumes "MEMORY_BASE \<le> s" and "unat s + n \<le> unat (MEMORY_BASE + MEMORY_SIZE)"
  shows "s \<le> a + MEMORY_BASE \<and> unat (a + MEMORY_BASE) < unat s + n \<longleftrightarrow>
    s - MEMORY_BASE \<le> a \<and> unat a < unat (s - MEMORY_BASE) + n"
proof -
  have s: "unat (s - MEMORY_BASE) = unat s - 0x80000000" "0x80000000 \<le> unat s"
    using assms(1) by (simp_all add: unat_sub word_le_nat_alt)
  show ?thesis
  proof (cases "unat a + 0x80000000 < 2 ^ 64")
    case True
    then have "unat (a + MEMORY_BASE) = unat a + 0x80000000" by (simp add: unat_word_ariths)
    with s assms show ?thesis by (auto simp: word_le_nat_alt)
  next
    case False
    have l: "unat a < 2 ^ 64" by (rule unat_u64_less)
    with False have "unat (a + MEMORY_BASE) = unat a + 0x80000000 - 2 ^ 64"
      by (simp add: unat_word_ariths le_mod_geq)
    with s assms False l show ?thesis by (auto simp: word_le_nat_alt)
  qed
qed

lemma load_segment_place:
  assumes "seg_ok f eh ph"
  shows "load_segment f (seg_start eh (elf64_base eh) ph) ph m = Inr (place f eh ph m)"
proof -
  define s z n where "s = seg_start eh (elf64_base eh) ph" and "z = p_filesz ph" and "n = p_memsz ph"
  define off bs where "off = s - MEMORY_BASE" and "bs = file_read f (p_offset ph) (unat z)"
  have ok: "MEMORY_BASE \<le> s" "unat s + unat n \<le> unat (MEMORY_BASE + MEMORY_SIZE)" "z \<le> n"
    "unat (p_offset ph) + unat z \<le> length f"
    using assms by (simp_all add: seg_ok_def s_def z_def n_def Let_def)
  have len: "length bs = unat z" using ok(4) by (simp add: bs_def file_read_def)
  have nth: "bs ! k = f ! (unat (p_offset ph) + k)" if "k < unat z" for k
    using that ok(4) by (simp add: bs_def file_read_def)
  have off: "unat off = unat s - 0x80000000" "0x80000000 \<le> unat s"
    using ok(1) by (simp_all add: off_def unat_sub word_le_nat_alt)
  have zn: "unat z \<le> unat n" using ok(3) by (simp add: word_le_nat_alt)
  have offz: "unat (off + z) = unat off + unat z" and nz: "unat (n - z) = unat n - unat z"
    using off ok(2,3) zn by (simp_all add: unat_word_ariths unat_sub)
  have put: "(if 0 < z then host_put MEMORY_SIZE off bs m else Inr m) = Inr (fill off (unat z) (\<lambda>b. bs ! (unat b - unat off)) m)"
    using host_put_ok [of off bs MEMORY_SIZE m] off ok(2) zn len by (auto simp: word_neq_0_conv [symmetric])
  have zero: "(if z < n then host_zero MEMORY_SIZE (off + z) (n - z) m' else Inr m') = Inr (fill (off + z) (unat n - unat z) (\<lambda>_. 0) m')" for m'
    using host_zero_ok [of "off + z" "n - z" MEMORY_SIZE m'] off offz nz ok(2,3) zn by auto
  have range: "covers eh ph (a + MEMORY_BASE) \<longleftrightarrow> unat off \<le> unat a \<and> unat a < unat off + unat n" for a
    using guest_range [OF ok(1,2)] by (simp add: covers_def s_def n_def off_def Let_def word_le_nat_alt)
  have byte: "seg_byte f eh ph (a + MEMORY_BASE) = (if unat a < unat off + unat z then bs ! (unat a - unat off) else 0)"
    if le: "unat off \<le> unat a" for a
  proof -
    have e: "a + MEMORY_BASE - s = a - off" by (simp add: off_def)
    have u: "unat (a + MEMORY_BASE - s) = unat a - unat off" unfolding e using le by (simp add: unat_sub word_le_nat_alt)
    show ?thesis
      unfolding seg_byte_def Let_def s_def [symmetric] z_def [symmetric] u
      using nth [of "unat a - unat off"] le by auto
  qed
  have "fill (off + z) (unat n - unat z) (\<lambda>_. 0) (fill off (unat z) (\<lambda>b. bs ! (unat b - unat off)) m) = place f eh ph m"
  proof -
    have "memory (fill (off + z) (unat n - unat z) (\<lambda>_. 0) (fill off (unat z) (\<lambda>b. bs ! (unat b - unat off)) m))
        = memory (place f eh ph m)"
      using zn by (auto simp: fun_eq_iff fill_def place_def range byte offz word_le_nat_alt)
    then show ?thesis by (simp add: fill_def place_def)
  qed
  then show ?thesis
    unfolding load_segment_def s_def [symmetric] z_def [symmetric] n_def [symmetric] off_def [symmetric]
      bs_def [symmetric] put by (simp add: zero)
qed

text \<open>A header counts when it is read and loadable; otherwise the turn changes nothing.\<close>

lemma load_phdr64_skip: "loadable f eh i = None \<Longrightarrow> load_phdr64 f eh b i (k, m) = Inr (k, m)"
  by (auto simp: loadable_def phdr64_def load_phdr64_def Let_def split: option.splits if_splits)

lemma not_sless_0:
  assumes "unat (w :: u64) < 2 ^ 63"
  shows "\<not> w <s 0"
proof -
  have "\<not> bit (unat w) 63" using assms by (simp add: bit_iff_odd)
  then show ?thesis using bit_last_iff [of w] by (simp add: word_sless_alt bit_unsigned_iff)
qed

lemma loadableD:
  assumes "loadable f eh i = Some ph"
  shows "\<not> e_phoff eh + of_nat i * ucast (e_phentsize eh) <s 0"
    and "read_phdr64 f (e_phoff eh + of_nat i * ucast (e_phentsize eh)) = Some ph" and "p_type ph = PT_LOAD"
  using assms by (auto simp: loadable_def phdr64_def Let_def split: option.splits if_splits)

lemma load_phdr64_load:
  assumes "loadable f eh i = Some ph" "seg_ok f eh ph" "length f < 2 ^ 63"
  shows "load_phdr64 f eh (elf64_base eh) i (k, m) = Inr (k + 1, place f eh ph m)"
proof -
  let ?s = "seg_start eh (elf64_base eh) ph"
  have ok: "MEMORY_BASE \<le> ?s" "unat ?s + unat (p_memsz ph) \<le> unat (MEMORY_BASE + MEMORY_SIZE)"
    "unat (p_offset ph) \<le> length f"
    using assms(2) by (simp_all add: seg_ok_def Let_def)
  have "unat (?s + p_memsz ph) = unat ?s + unat (p_memsz ph)"
    using ok(2) by (simp add: unat_word_ariths)
  then have r: "\<not> (?s < MEMORY_BASE \<or> MEMORY_BASE + MEMORY_SIZE < ?s + p_memsz ph)"
    using ok(1,2) by (simp add: not_less word_le_nat_alt)
  have "\<not> p_offset ph <s 0" using ok(3) assms(3) by (intro not_sless_0) simp
  with r load_segment_place [OF assms(2), of m] show ?thesis
    unfolding load_phdr64_def Let_def prod.case loadableD(2) [OF assms(1)]
    by (simp add: loadableD(1,3) [OF assms(1)])
qed

lemma map_filter_snoc:
  "List.map_filter f (xs @ [x]) = List.map_filter f xs @ (case f x of None \<Rightarrow> [] | Some y \<Rightarrow> [y])"
  by (simp add: List.map_filter_def split: option.split)

lemma load_phdrs64_ok:
  assumes "\<forall>ph\<in>set (List.map_filter (loadable f eh) [0..<n]). seg_ok f eh ph" "length f < 2 ^ 63"
  shows "load_phdrs64 f eh (elf64_base eh) n m =
    (let segs = List.map_filter (loadable f eh) [0..<n] in Inr (int (length segs), fold (place f eh) segs m))"
  using assms(1)
proof (induction n)
  case 0
  then show ?case by (simp add: load_phdrs64_def)
next
  case (Suc n)
  have e: "load_phdrs64 f eh (elf64_base eh) (Suc n) m =
      rbind (load_phdrs64 f eh (elf64_base eh) n m) (load_phdr64 f eh (elf64_base eh) n)"
    by (simp add: load_phdrs64_def)
  show ?case
  proof (cases "loadable f eh n")
    case None
    with Suc show ?thesis by (simp add: e map_filter_snoc load_phdr64_skip Let_def)
  next
    case (Some ph)
    with Suc.prems have "seg_ok f eh ph" by (simp add: map_filter_snoc)
    with Some Suc show ?thesis
      by (simp add: e map_filter_snoc load_phdr64_load [OF Some _ assms(2)] Let_def)
  qed
qed

lemma memory_place:
  "memory (place f eh ph m) (pa - MEMORY_BASE) = (if covers eh ph pa then seg_byte f eh ph pa
     else memory m (pa - MEMORY_BASE))"
  by (simp add: place_def)

text \<open>Where segments overlap, the last one counts.\<close>

lemma place_last:
  assumes "i < length segs" "covers eh (segs ! i) pa" "\<forall>j. i < j \<and> j < length segs \<longrightarrow> \<not> covers eh (segs ! j) pa"
  shows "memory (fold (place f eh) segs m) (pa - MEMORY_BASE) = seg_byte f eh (segs ! i) pa"
  using assms
proof (induction segs rule: rev_induct)
  case (snoc ph segs)
  show ?case
  proof (cases "i = length segs")
    case True
    with snoc.prems show ?thesis by (simp add: memory_place)
  next
    case False
    with snoc.prems have i: "i < length segs" by simp
    with snoc.prems(3) have "\<not> covers eh ph pa" by (auto dest: spec [of _ "length segs"])
    moreover have "memory (fold (place f eh) segs m) (pa - MEMORY_BASE) = seg_byte f eh (segs ! i) pa"
      using snoc.prems i by (intro snoc.IH) (auto simp: nth_append dest: spec)
    ultimately show ?thesis using i by (simp add: memory_place nth_append)
  qed
qed simp

lemma place_none:
  "\<forall>ph\<in>set segs. \<not> covers eh ph pa \<Longrightarrow>
   memory (fold (place f eh) segs m) (pa - MEMORY_BASE) = memory m (pa - MEMORY_BASE)"
  by (induction segs rule: rev_induct) (simp_all add: memory_place)

lemma place_frame: "fold (place f eh) segs m = m\<lparr>memory := memory (fold (place f eh) segs m)\<rparr>"
proof (induction segs rule: rev_induct)
  case (snoc ph segs)
  let ?X = "memory (fold (place f eh) segs m)"
  have e: "fold (place f eh) (segs @ [ph]) m = place f eh ph (m\<lparr>memory := ?X\<rparr>)"
    using arg_cong [OF snoc, of "place f eh ph"] by simp
  have "place f eh ph (m\<lparr>memory := ?X\<rparr>) = m\<lparr>memory := memory (place f eh ph (m\<lparr>memory := ?X\<rparr>))\<rparr>"
    by (simp add: place_def)
  then show ?case unfolding e .
qed simp

section \<open>Properties\<close>

lemma load_elf64_ok:
  assumes "read_ehdr64 f = Some eh" "elf64_ok eh" "length f < 2 ^ 63" "\<forall>ph\<in>set (segments f eh). seg_ok f eh ph"
  shows "load_elf64_SBI (Some f) e m = Inr (int (length (segments f eh)), elf64_entry eh,
    m\<lparr>memory := memory (fold (place f eh) (segments f eh) m)\<rparr>)"
  unfolding place_frame [symmetric]
  using assms load_phdrs64_ok [of f eh "unat (e_phnum eh)" m]
  by (simp add: load_elf64_SBI_def segments_def Let_def)

text \<open>
  C23. The loader puts the kernel in place: for a 64-bit RISC-V file whose loadable segments lie in
  guest memory and in the file, it returns their number and the entry point, every guest address
  holds what the last segment covering it has there (the bytes of the file, then zeros), and the
  rest of the machine is as it was.
\<close>

theorem elf64_loads_kernel:
  assumes "read_ehdr64 f = Some eh" "elf64_ok eh" "length f < 2 ^ 63" "\<forall>ph\<in>set (segments f eh). seg_ok f eh ph"
  shows "\<exists>mem. load_elf64_SBI (Some f) e m =
      Inr (int (length (segments f eh)), elf64_entry eh, m\<lparr>memory := mem\<rparr>) \<and>
    (\<forall>i pa. i < length (segments f eh) \<and> covers eh (segments f eh ! i) pa \<and>
       (\<forall>j. i < j \<and> j < length (segments f eh) \<longrightarrow> \<not> covers eh (segments f eh ! j) pa) \<longrightarrow>
       mem (pa - MEMORY_BASE) = seg_byte f eh (segments f eh ! i) pa) \<and>
    (\<forall>pa. (\<forall>ph\<in>set (segments f eh). \<not> covers eh ph pa) \<longrightarrow> mem (pa - MEMORY_BASE) = memory m (pa - MEMORY_BASE))"
  unfolding load_elf64_ok [OF assms]
  by (rule exI [where x = "memory (fold (place f eh) (segments f eh) m)"]) (simp add: place_last place_none)

text \<open>A file with one segment: four bytes of code at the start of memory and four bytes after them.\<close>

definition tiny_kernel :: "u8 list" where
  "tiny_kernel = [0x7f, 0x45, 0x4c, 0x46, 2, 1, 1, 0, 0, 0, 0, 0, 0, 0, 0, 0, 2, 0, 243, 0, 1, 0, 0, 0,
     0, 0, 0, 0x80, 0, 0, 0, 0, 64, 0, 0, 0, 0, 0, 0, 0, 0, 0, 0, 0, 0, 0, 0, 0, 0, 0, 0, 0, 64, 0, 56, 0, 1, 0, 0, 0, 0, 0, 0, 0]
   @ [1, 0, 0, 0, 5, 0, 0, 0, 120, 0, 0, 0, 0, 0, 0, 0, 0, 0, 0, 0x80, 0, 0, 0, 0, 0, 0, 0, 0x80, 0, 0, 0, 0,
      4, 0, 0, 0, 0, 0, 0, 0, 8, 0, 0, 0, 0, 0, 0, 0, 0, 0, 0, 0, 0, 0, 0, 0]
   @ [0x13, 0x05, 0xa0, 0x02]"

lemma tiny_kernel_read:
  "read_ehdr64 tiny_kernel = Some \<lparr>e_ident = take 16 tiny_kernel, e_type = 2, e_machine = 243,
     e_entry = 0x80000000, e_phoff = 64, e_phentsize = 56, e_phnum = 1\<rparr>"
  "read_phdr64 tiny_kernel 64 = Some \<lparr>p_type = 1, p_offset = 120, p_vaddr = 0x80000000, p_filesz = 4, p_memsz = 8\<rparr>"
  by (simp_all add: read_ehdr64_def read_phdr64_def read_record_def file_read_def field_def le_load_2 le_load_4
      le_load_8 tiny_kernel_def)

definition tiny_ehdr :: Elf64_Ehdr where
  "tiny_ehdr = \<lparr>e_ident = take 16 tiny_kernel, e_type = 2, e_machine = 243, e_entry = 0x80000000,
     e_phoff = 64, e_phentsize = 56, e_phnum = 1\<rparr>"

definition tiny_phdr :: Elf64_Phdr where
  "tiny_phdr = \<lparr>p_type = 1, p_offset = 120, p_vaddr = 0x80000000, p_filesz = 4, p_memsz = 8\<rparr>"

lemma tiny_kernel_ok:
  "read_ehdr64 tiny_kernel = Some tiny_ehdr" "elf64_ok tiny_ehdr" "length tiny_kernel < 2 ^ 63"
  "segments tiny_kernel tiny_ehdr = [tiny_phdr]" "seg_ok tiny_kernel tiny_ehdr tiny_phdr"
proof -
  show "read_ehdr64 tiny_kernel = Some tiny_ehdr" by (simp add: tiny_kernel_read tiny_ehdr_def)
  show "elf64_ok tiny_ehdr" by (simp add: elf64_ok_def tiny_ehdr_def tiny_kernel_def ELFMAG_def)
  show "length tiny_kernel < 2 ^ 63" by (simp add: tiny_kernel_def)
  have "loadable tiny_kernel tiny_ehdr 0 = Some tiny_phdr"
    using tiny_kernel_read(2) not_sless_0 [of 64] by (simp add: loadable_def phdr64_def tiny_ehdr_def tiny_phdr_def)
  then show "segments tiny_kernel tiny_ehdr = [tiny_phdr]"
    by (simp add: segments_def tiny_ehdr_def List.map_filter_def)
  show "seg_ok tiny_kernel tiny_ehdr tiny_phdr"
    by (simp add: seg_ok_def tiny_ehdr_def tiny_phdr_def tiny_kernel_def seg_start_def elf64_base_def)
qed

theorem elf64_loads_kernel_witness:
  "\<exists>mem. load_elf64_SBI (Some tiny_kernel) 0 blank = Inr (1, 0x80000000, blank\<lparr>memory := mem\<rparr>) \<and>
     mem 1 = 0x05 \<and> mem 5 = 0"
proof -
  have c: "covers tiny_ehdr tiny_phdr 0x80000001" "covers tiny_ehdr tiny_phdr 0x80000005"
    by (simp_all add: covers_def tiny_ehdr_def tiny_phdr_def seg_start_def elf64_base_def Let_def)
  have b: "seg_byte tiny_kernel tiny_ehdr tiny_phdr 0x80000001 = 0x05"
    "seg_byte tiny_kernel tiny_ehdr tiny_phdr 0x80000005 = 0"
    by (simp_all add: seg_byte_def tiny_ehdr_def tiny_phdr_def seg_start_def elf64_base_def tiny_kernel_def Let_def)
  have e: "elf64_entry tiny_ehdr = 0x80000000" by (simp add: elf64_entry_def tiny_ehdr_def)
  from elf64_loads_kernel [of tiny_kernel tiny_ehdr 0 blank] tiny_kernel_ok obtain mem where
    m: "load_elf64_SBI (Some tiny_kernel) 0 blank = Inr (1, 0x80000000, blank\<lparr>memory := mem\<rparr>)" and
    p: "\<And>pa. covers tiny_ehdr tiny_phdr pa \<Longrightarrow> mem (pa - MEMORY_BASE) = seg_byte tiny_kernel tiny_ehdr tiny_phdr pa"
    by (auto simp: e)
  from p [OF c(1)] p [OF c(2)] m b show ?thesis by auto
qed

text \<open>How much of the block an operation may change.\<close>

lemma sat_weaken: "sat P G r \<Longrightarrow> (\<And>x. P x \<Longrightarrow> P' x) \<Longrightarrow> (\<And>e. G e \<Longrightarrow> G' e) \<Longrightarrow> sat P' G' r"
  by (cases r) auto

lemma host_put_sat:
  "sat (\<lambda>m'. \<forall>a. block \<le> a \<longrightarrow> memory m' a = memory m a)
     (\<lambda>e. e = OutOfBounds \<and> unat block < unat off + length bs) (host_put block off bs m)"
  using unat_u64_less [of block] by (auto simp: host_put_def memory_put_bytes word_le_nat_alt)

lemma host_zero_sat:
  "sat (\<lambda>m'. \<forall>a. block \<le> a \<longrightarrow> memory m' a = memory m a)
     (\<lambda>e. e = OutOfBounds \<and> unat block < unat off + unat n) (host_zero block off n m)"
proof (cases "unat block < unat off + unat n")
  case False
  then show ?thesis by (auto simp: host_zero_ok fill_def word_le_nat_alt)
qed (auto simp: host_zero_def)

text \<open>A segment that can overrun the block although it passed the check.\<close>

definition overlong :: "Elf64_Ehdr \<Rightarrow> Elf64_Phdr \<Rightarrow> bool" where
  "overlong eh ph \<longleftrightarrow> p_memsz ph < p_filesz ph \<or>
     2 ^ 64 \<le> unat (seg_start eh (elf64_base eh) ph) + unat (p_memsz ph)"

lemma load_segment_sat:
  assumes "MEMORY_BASE \<le> s" "s + p_memsz ph \<le> MEMORY_BASE + MEMORY_SIZE" "s = seg_start eh (elf64_base eh) ph"
  shows "sat (\<lambda>m'. \<forall>a. MEMORY_SIZE \<le> a \<longrightarrow> memory m' a = memory m a)
    (\<lambda>e. e = OutOfBounds \<and> overlong eh ph) (load_segment f s ph m)"
proof -
  have fit: "unat (s - MEMORY_BASE) + unat (p_memsz ph) \<le> unat MEMORY_SIZE" "unat (p_filesz ph) \<le> unat (p_memsz ph)"
    if "\<not> overlong eh ph"
  proof -
    have "unat (s + p_memsz ph) = unat s + unat (p_memsz ph)"
      using that assms(3) by (simp add: overlong_def unat_word_ariths)
    with assms(1,2) show "unat (s - MEMORY_BASE) + unat (p_memsz ph) \<le> unat MEMORY_SIZE"
      by (simp add: unat_sub word_le_nat_alt)
    show "unat (p_filesz ph) \<le> unat (p_memsz ph)" using that by (simp add: overlong_def not_less word_le_nat_alt)
  qed
  let ?bs = "file_read f (p_offset ph) (unat (p_filesz ph))"
  have bs: "length ?bs \<le> unat (p_filesz ph)" by (simp add: file_read_def)
  have put: "overlong eh ph" if "unat MEMORY_SIZE < unat (s - MEMORY_BASE) + length ?bs"
    using that fit bs by fastforce
  have zero: "overlong eh ph"
    if "unat MEMORY_SIZE < unat (s - MEMORY_BASE + p_filesz ph) + unat (p_memsz ph - p_filesz ph)"
  proof (rule ccontr)
    assume "\<not> overlong eh ph"
    from fit [OF this] have "unat (s - MEMORY_BASE + p_filesz ph) + unat (p_memsz ph - p_filesz ph) \<le> unat MEMORY_SIZE"
      by (simp add: unat_word_ariths unat_sub word_le_nat_alt)
    with that show False by simp
  qed
  show ?thesis
    unfolding load_segment_def
  proof (intro sat_rbind [where Q = "\<lambda>m'. \<forall>a. MEMORY_SIZE \<le> a \<longrightarrow> memory m' a = memory m a"] sat_if)
    show "sat (\<lambda>m'. \<forall>a. MEMORY_SIZE \<le> a \<longrightarrow> memory m' a = memory m a) (\<lambda>e. e = OutOfBounds \<and> overlong eh ph)
        (host_put MEMORY_SIZE (s - MEMORY_BASE) ?bs m)"
      by (rule sat_weaken [OF host_put_sat]) (use put in auto)
    show "sat (\<lambda>m'. \<forall>a. MEMORY_SIZE \<le> a \<longrightarrow> memory m' a = memory m a) (\<lambda>e. e = OutOfBounds \<and> overlong eh ph)
        (host_zero MEMORY_SIZE (s - MEMORY_BASE + p_filesz ph) (p_memsz ph - p_filesz ph) m1)"
      if "\<forall>a. MEMORY_SIZE \<le> a \<longrightarrow> memory m1 a = memory m a" for m1
      by (rule sat_weaken [OF host_zero_sat]) (use that zero in auto)
  qed simp_all
qed

lemma load_phdr64_sat:
  "sat (\<lambda>(k', m'). k \<le> k' \<and> (\<forall>a. MEMORY_SIZE \<le> a \<longrightarrow> memory m' a = memory m a))
     (\<lambda>e. e = OutOfBounds \<and> (\<exists>ph. loadable f eh i = Some ph \<and> overlong eh ph))
     (load_phdr64 f eh (elf64_base eh) i (k, m))"
proof (cases "loadable f eh i")
  case None
  then show ?thesis by (simp add: load_phdr64_skip)
next
  case (Some ph)
  let ?s = "seg_start eh (elf64_base eh) ph"
  have "sat (\<lambda>(k', m'). k \<le> k' \<and> (\<forall>a. MEMORY_SIZE \<le> a \<longrightarrow> memory m' a = memory m a))
      (\<lambda>e. e = OutOfBounds \<and> overlong eh ph) (rbind (load_segment f ?s ph m) (\<lambda>m. Inr (k + 1, m)))"
    if "\<not> (?s < MEMORY_BASE \<or> MEMORY_BASE + MEMORY_SIZE < ?s + p_memsz ph)"
    using that by (intro sat_rbind [OF load_segment_sat]) (simp_all add: not_less)
  then show ?thesis
    unfolding load_phdr64_def Let_def prod.case loadableD(2) [OF Some]
    using loadableD(1,3) [OF Some] Some by simp
qed

lemma load_phdrs64_sat:
  "sat (\<lambda>(k, m'). 0 \<le> k \<and> (\<forall>a. MEMORY_SIZE \<le> a \<longrightarrow> memory m' a = memory m a))
     (\<lambda>e. e = OutOfBounds \<and> (\<exists>ph \<in> set (List.map_filter (loadable f eh) [0..<n]). overlong eh ph))
     (load_phdrs64 f eh (elf64_base eh) n m)"
proof (induction n)
  case 0
  show ?case by (simp add: load_phdrs64_def)
next
  case (Suc n)
  have e: "load_phdrs64 f eh (elf64_base eh) (Suc n) m =
      rbind (load_phdrs64 f eh (elf64_base eh) n m) (load_phdr64 f eh (elf64_base eh) n)"
    by (simp add: load_phdrs64_def)
  show ?case
    unfolding e
  proof (rule sat_rbind [OF sat_weaken [OF Suc.IH]])
    fix x :: "int \<times> machine" assume "case x of (k, m') \<Rightarrow> 0 \<le> k \<and> (\<forall>a. MEMORY_SIZE \<le> a \<longrightarrow> memory m' a = memory m a)"
    then show "sat (\<lambda>(k, m'). 0 \<le> k \<and> (\<forall>a. MEMORY_SIZE \<le> a \<longrightarrow> memory m' a = memory m a))
        (\<lambda>e. e = OutOfBounds \<and> (\<exists>ph \<in> set (List.map_filter (loadable f eh) [0..<Suc n]). overlong eh ph))
        (load_phdr64 f eh (elf64_base eh) n x)"
      by (cases x) (auto intro!: sat_weaken [OF load_phdr64_sat] simp: map_filter_snoc)
  qed (auto simp: map_filter_snoc)
qed

lemma load_elf64_sat:
  "sat (\<lambda>(k, e', m'). (0 \<le> k \<or> k = -1 \<and> e' = e \<and> m' = m) \<and> (\<forall>a. MEMORY_SIZE \<le> a \<longrightarrow> memory m' a = memory m a))
     (\<lambda>x. x = OutOfBounds \<and> (\<exists>f eh. kern = Some f \<and> read_ehdr64 f = Some eh \<and> (\<exists>ph \<in> set (segments f eh). overlong eh ph)))
     (load_elf64_SBI kern e m)"
proof (cases "\<exists>f eh. kern = Some f \<and> read_ehdr64 f = Some eh \<and> elf64_ok eh")
  case True
  then obtain f eh where "kern = Some f" "read_ehdr64 f = Some eh" "elf64_ok eh" by blast
  then show ?thesis
    using sat_weaken [OF load_phdrs64_sat [where f = f and eh = eh and n = "unat (e_phnum eh)" and m = m]]
    by (auto simp: load_elf64_SBI_def segments_def intro!: sat_rbind [OF load_phdrs64_sat])
next
  case False
  then show ?thesis by (auto simp: load_elf64_SBI_def split: option.splits)
qed

text \<open>The loader changes the memory only; the bus is what \<open>main\<close> relies on.\<close>

lemma load_segment_gbus: "gbus m = b \<Longrightarrow> sat (\<lambda>m'. gbus m' = b) (\<lambda>_. True) (load_segment f s ph m)"
  by (auto simp: load_segment_def host_put_def host_zero_def frame)

lemma load_phdr64_gbus: "gbus m = b \<Longrightarrow> sat (\<lambda>(k', m'). gbus m' = b) (\<lambda>_. True) (load_phdr64 f eh base i (k, m))"
  by (auto simp: load_phdr64_def Let_def intro!: sat_rbind [OF load_segment_gbus] split: option.split)

lemma load_phdrs64_gbus: "sat (\<lambda>(k', m'). gbus m' = gbus m) (\<lambda>_. True) (load_phdrs64 f eh base n m)"
proof (induction n)
  case (Suc n)
  have e: "load_phdrs64 f eh base (Suc n) m = rbind (load_phdrs64 f eh base n m) (load_phdr64 f eh base n)"
    by (simp add: load_phdrs64_def)
  show ?case
    unfolding e by (rule sat_rbind [OF Suc.IH]) (auto intro: load_phdr64_gbus)
qed (simp add: load_phdrs64_def)

lemma load_elf64_gbus: "load_elf64_SBI kern e m = Inr (k, e', m') \<Longrightarrow> gbus m' = gbus m"
  using load_phdrs64_gbus [of m]
  by (auto simp: load_elf64_SBI_def rbind_Inr_iff split: option.splits if_splits)
     (metis (mono_tags, lifting) case_prodD sat_simps(1))+

text \<open>
  C24. Whatever the file holds, the loader keeps to the guest's memory: it either returns -1 and has
  changed nothing, or a count, with no byte outside the block changed; and it leaves the
  block, which brings the emulator down, only for a file with a segment that is longer in the file
  than in memory, or whose end wraps around the address space (the check covers neither).
\<close>

theorem elf64_stays_in_memory:
  "case load_elf64_SBI kern e m of
     Inr (k, e', m') \<Rightarrow> (0 \<le> k \<or> k = -1 \<and> e' = e \<and> m' = m) \<and> (\<forall>a. MEMORY_SIZE \<le> a \<longrightarrow> memory m' a = memory m a)
   | Inl x \<Rightarrow> x = OutOfBounds \<and> (\<exists>f eh. kern = Some f \<and> read_ehdr64 f = Some eh \<and>
       (\<exists>ph \<in> set (segments f eh). p_memsz ph < p_filesz ph \<or>
          2 ^ 64 \<le> unat (seg_start eh (elf64_base eh) ph) + unat (p_memsz ph)))"
  using load_elf64_sat [of e m kern]
  by (cases "load_elf64_SBI kern e m") (auto simp: overlong_def)

theorem elf64_stays_in_memory_witness:
  "\<exists>k e' m'. load_elf64_SBI (Some tiny_kernel) 0 blank = Inr (k, e', m') \<and> memory m' 0x40000000 = memory blank 0x40000000"
proof -
  have "load_elf64_SBI (Some tiny_kernel) 0 blank = Inr (1, elf64_entry tiny_ehdr,
      blank\<lparr>memory := memory (fold (place tiny_kernel tiny_ehdr) (segments tiny_kernel tiny_ehdr) blank)\<rparr>)"
    using load_elf64_ok [of tiny_kernel tiny_ehdr 0 blank] tiny_kernel_ok by simp
  with elf64_stays_in_memory [of "Some tiny_kernel" 0 blank] show ?thesis by auto
qed

text \<open>Reading a 16-bit field.\<close>

lemma u16_of_bytes:
  "ucast (ucast (x :: u8) OR push_bit 8 (ucast (y :: u8)) :: u64) = (w :: u16) \<longleftrightarrow> x = ucast w \<and> y = ucast (drop_bit 8 w)"
proof
  show "x = ucast w \<and> y = ucast (drop_bit 8 w)"
    if "ucast (ucast x OR push_bit 8 (ucast y) :: u64) = w"
  proof -
    have "\<not> bit x (8 + n)" for n using bit_imp_le_length [of x "8 + n"] by auto
    then show ?thesis
      unfolding that [symmetric] by (auto intro!: bit_word_eqI simp: bit_simps dest: bit_imp_le_length)
  qed
  show "ucast (ucast x OR push_bit 8 (ucast y) :: u64) = w" if "x = ucast w \<and> y = ucast (drop_bit 8 w)"
    using that by (auto intro!: bit_word_eqI simp: bit_simps dest: bit_imp_le_length)
qed

text \<open>
  C25. Which files are refused, byte by byte: the loader returns -1 (with the entry point and the
  machine untouched) if and only if the file cannot be opened, is shorter than a header, does not
  start with the magic number, is not of class 64, or is not for RISC-V. The byte order is not checked.
\<close>

theorem elf64_refuses:
  "(\<exists>e' m'. load_elf64_SBI kern e m = Inr (-1, e', m')) \<longleftrightarrow>
   (case kern of None \<Rightarrow> True | Some f \<Rightarrow> \<not> (64 \<le> length f \<and> take 4 f = [0x7f, 0x45, 0x4c, 0x46] \<and>
      f ! 4 = 2 \<and> f ! 18 = 243 \<and> f ! 19 = 0))"
proof (cases kern)
  case None
  then show ?thesis by (simp add: load_elf64_SBI_def)
next
  case (Some f)
  have ok: "(\<exists>eh. read_ehdr64 f = Some eh \<and> elf64_ok eh) \<longleftrightarrow>
      64 \<le> length f \<and> take 4 f = [0x7f, 0x45, 0x4c, 0x46] \<and> f ! 4 = 2 \<and> f ! 18 = 243 \<and> f ! 19 = 0"
    by (auto simp: read_ehdr64_def read_record_def file_read_def Let_def elf64_ok_def ELFMAG_def field_def
        le_load_2 u16_of_bytes)
  have pos: "load_elf64_SBI kern e m \<noteq> Inr (-1, e', m')" if "read_ehdr64 f = Some eh" "elf64_ok eh" for eh e' m'
    using that Some load_phdrs64_sat [where f = f and eh = eh and n = "unat (e_phnum eh)" and m = m]
    by (auto simp: load_elf64_SBI_def rbind_Inr_iff)
  show ?thesis
    unfolding Some option.case ok [symmetric]
    using pos Some by (auto simp: load_elf64_SBI_def split: option.splits)
qed

end
