(* ===== verification/Cpu.thy ===== *)
theory Cpu
  imports Decode Disk Trap_Vector Elf
begin

text \<open>
  The hart (\<open>cpu.c\<close>) and the main loop (\<open>main.c\<close>): initialisation, one instruction with its
  bookkeeping, the run loop of \<open>cpu_run\<close>, one turn of the main loop, and the emulator as a
  transition system in which the two console threads interleave with whole turns of the loop.
\<close>

section \<open>cpu.c\<close>

text \<open>\<open>cpu_init\<close>: \<open>memset\<close>, then the fields that do not start at 0. The handler tables are
  constants of the model.\<close>

definition cpu_init :: "nat \<Rightarrow> machine \<Rightarrow> machine" where
  "cpu_init h m =
     upd_cpu h (\<lambda>_. let c = zero_cpu;
                        c = c\<lparr>privilege := 3\<rparr>;
                        c = c\<lparr>clint := clint_init (clint c)\<rparr>;
                        c = c\<lparr>cpu_bus := gbus m, running := True\<rparr>
                    in c\<lparr>mip := csr c CSR_MIP, mie := csr c CSR_MIE\<rparr>) m"

text \<open>The bookkeeping after an instruction.\<close>

definition step_counters :: "nat \<Rightarrow> machine \<Rightarrow> machine" where
  "step_counters h m =
     (let m = upd_cpu h (\<lambda>c. c\<lparr>cycle_count := cycle_count c + 1\<rparr>) m;
          m = (if cycle_count (cpus m h) mod 100 = 0 then clint_tick h 1 m else m)
      in upd_cpu h (\<lambda>c. c\<lparr>csr := (csr c)(CSR_TIME := csr c CSR_TIME + 10), inst_count := inst_count c + 1\<rparr>) m)"

definition cpu_step :: "nat \<Rightarrow> machine \<Rightarrow> machine res" where
  "cpu_step h m =
     rbind (fetch_instruction h m) (\<lambda>(instruction, m).
     rbind (decode_and_execute h instruction m) (\<lambda>m.
     Inr (step_counters h m)))"

text \<open>
  \<open>cpu_run\<close>: \<open>None\<close> means that it never returns. That is so when the loop never ends, and when a
  hart waits for the lock of the serial device that it holds itself.
\<close>

definition run_check :: "nat \<Rightarrow> machine \<Rightarrow> machine" where
  "run_check h m = (if pc (cpus m h) = 0 \<or> 1000 < inst_count (cpus m h)
     then upd_cpu h (\<lambda>c. c\<lparr>running := False\<rparr>) m else m)"

partial_function (option) cpu_run :: "nat \<Rightarrow> machine \<Rightarrow> machine res option" where
  "cpu_run h m =
     (if \<not> running (cpus m h) then Some (Inr m)
      else case cpu_step h m of
             Inl e \<Rightarrow> (if e = Deadlock then None else Some (Inl e))
           | Inr m \<Rightarrow> cpu_run h (run_check h m))"

text \<open>\<open>hart_runs h m0 n m\<close>: \<open>n\<close> iterations of that loop lead from \<open>m0\<close> to \<open>m\<close>.\<close>

inductive hart_runs :: "nat \<Rightarrow> machine \<Rightarrow> nat \<Rightarrow> machine \<Rightarrow> bool" for h m0 where
  none: "hart_runs h m0 0 m0"
| again: "hart_runs h m0 n m \<Longrightarrow> running (cpus m h) \<Longrightarrow> cpu_step h m = Inr m' \<Longrightarrow>
    hart_runs h m0 (Suc n) (run_check h m')"

section \<open>main.c\<close>

text \<open>
  The part of \<open>main\<close> after the kernel is loaded, up to the loop; \<open>None\<close> when the disk image cannot
  be opened, which ends the process.
\<close>

definition main_init :: "u8 list option \<Rightarrow> u64 \<Rightarrow> machine \<Rightarrow> machine res option" where
  "main_init disk_image entry_addr m =
     (case virtio_blk_init disk_image m of
        None \<Rightarrow> None
      | Some m \<Rightarrow> Some (
          rbind (bus_register_mmio MEMORY_BASE MEMORY_SIZE Dev_RAM (gbus m)) (\<lambda>b.
          let m = m\<lparr>g_uart := uart_create UART_IRQ_NUM\<rparr> in
          rbind (bus_register_mmio UART_BASE UART_SIZE Dev_UART b) (\<lambda>b.
          let m = plic_init m in
          rbind (bus_register_mmio PLIC_BASE PLIC_SIZE Dev_PLIC b) (\<lambda>b.
          rbind (bus_register_mmio VIRTIO_MMIO_BASE VIRTIO_MMIO_SIZE Dev_VIRTIO b) (\<lambda>b.
          rbind (bus_register_mmio CLINT_BASE_ADDR CLINT_SIZE Dev_CLINT b) (\<lambda>b.
          let m = m\<lparr>gbus := b\<rparr>;
              m = upd_cpu 0 (\<lambda>c. c\<lparr>cpu_bus := b\<rparr>) m;
              m = cpu_init 0 m
          in Inr (upd_cpu 0 (\<lambda>c. (tlb_flush (c\<lparr>cycle_count := 0\<rparr>))\<lparr>pc := entry_addr\<rparr>) m))))))))"

text \<open>
  The whole way to the loop: memory, kernel, then the rest. A kernel that is refused is reported
  only; the entry address is then what the uninitialised variable held (\<open>uninit\<close>).
\<close>

definition main_start :: "u8 list option \<Rightarrow> u8 list option \<Rightarrow> u64 \<Rightarrow> machine \<Rightarrow> machine res option" where
  "main_start kern disk_image uninit m =
     (case load_elf64_SBI kern uninit (init_memory m) of
        Inl e \<Rightarrow> Some (Inl e)
      | Inr (_, entry_addr, m) \<Rightarrow> main_init disk_image entry_addr m)"

text \<open>One turn of the loop, for a hart that is running and not halted.\<close>

definition main_turn :: "machine \<Rightarrow> machine res" where
  "main_turn m =
     rbind (cpu_step 0 m) (\<lambda>m.
       let m = (if gpr (cpus m 0) 0 \<noteq> 0 then upd_cpu 0 (\<lambda>c. c\<lparr>halted := True\<rparr>) m else m) in
       rbind (virtio_disk_update 0 m) (\<lambda>m.
       Inr (upd_cpu 0 (check_and_handle_interrupts (host m)) m)))"

text \<open>What \<open>main\<close> does after the loop, for its report: reads over the bus and two translations.\<close>

fun report_reads :: "u64 list \<Rightarrow> machine \<Rightarrow> machine res" where
  "report_reads [] m = Inr m"
| "report_reads (a # as) m = rbind (bus_read (gbus m) a 8 m) (\<lambda>(_, m). report_reads as m)"

definition main_report :: "machine \<Rightarrow> machine res" where
  "main_report m =
     rbind (report_reads [0x87f55028, 0x87f56028] m) (\<lambda>m.
     rbind (get_pa 0 0x3ffffff000 ACC_LOAD m) (\<lambda>(_, m).
     rbind (get_pa 0 0x3fffffe000 ACC_LOAD m) (\<lambda>(_, m).
     report_reads (map (\<lambda>i. 0x8001a000 + of_nat (16 * i)) [0..<0x40]) m)))"

section \<open>The emulator as a transition system\<close>

text \<open>
  The main thread takes a turn unless it has stopped or waits for a wake-up; the console threads
  may run between two turns. \<open>runs m0 n m\<close>: from \<open>m0\<close>, the emulator gets to \<open>m\<close> with \<open>n\<close> turns
  of the main thread and any number of rounds of the others.
\<close>

inductive console_step :: "machine \<Rightarrow> machine \<Rightarrow> bool" where
  rx: "uart_rx_thread [b] m = Inr m' \<Longrightarrow> console_step m m'"
| tx: "uart_tx_thread m = Inr m' \<Longrightarrow> console_step m m'"

inductive runs :: "machine \<Rightarrow> nat \<Rightarrow> machine \<Rightarrow> bool" for m0 where
  start: "runs m0 0 m0"
| turn: "runs m0 n m \<Longrightarrow> running (cpus m 0) \<Longrightarrow> \<not> halted (cpus m 0) \<Longrightarrow> main_turn m = Inr m' \<Longrightarrow> runs m0 (Suc n) m'"
| console: "runs m0 n m \<Longrightarrow> console_step m m' \<Longrightarrow> runs m0 n m'"

inductive_cases console_stepE: "console_step m m'"
inductive_cases runs_SucE: "runs m0 (Suc n) m"

end
