(* ===== verification/Cpu_Inv.thy ===== *)
theory Cpu_Inv
  imports Cpu
begin

text \<open>
  Invariants of execution. The interface \<open>machine_inv\<close> lists what a property of the machine must
  survive for every instruction to keep it: translation, reads and writes through the bus of the
  hart, the fetch, and changes of the hart's registers. Instances give the bookkeeping of
  counters, the clock, and the privilege modes; the invariants of the whole emulator follow by
  induction over its transitions.
\<close>

section \<open>Handlers that change registers only\<close>

text \<open>What no instruction touches directly: counters, the bus and the timer of the hart.\<close>

definition stat :: "CPU_State \<Rightarrow> u64 \<times> u64 \<times> Bus \<times> CLINT" where
  "stat c = (cycle_count c, inst_count c, cpu_bus c, clint c)"

lemma stat_simps [simp]:
  "stat (c\<lparr>pc := x\<rparr>) = stat c" "stat (c\<lparr>gpr := g\<rparr>) = stat c" "stat (c\<lparr>fgpr := g\<rparr>) = stat c"
  "stat (c\<lparr>csr := r\<rparr>) = stat c" "stat (c\<lparr>privilege := p\<rparr>) = stat c" "stat (c\<lparr>halted := b\<rparr>) = stat c"
  "stat (c\<lparr>running := b\<rparr>) = stat c" "stat (c\<lparr>tlb := t\<rparr>) = stat c" "stat (c\<lparr>iTLB := t\<rparr>) = stat c"
  "stat (c\<lparr>dTLB := t\<rparr>) = stat c"
  "stat (c\<lparr>satp := x\<rparr>) = stat c"
  by (simp_all add: stat_def)

definition legal :: "CPU_State \<Rightarrow> bool" where
  "legal c \<longleftrightarrow> privilege c = 0 \<or> privilege c = 1 \<or> privilege c = 3"

lemma legal_cong: "privilege c = privilege c' \<Longrightarrow> legal c = legal c'"
  by (simp add: legal_def)

definition reg_ok :: "(CPU_State \<Rightarrow> CPU_State) \<Rightarrow> bool" where
  "reg_ok f \<longleftrightarrow> (\<forall>c. stat (f c) = stat c \<and> (legal c \<longrightarrow> legal (f c)))"

lemma reg_okI: "(\<And>c. stat (f c) = stat c) \<Longrightarrow> (\<And>c. privilege (f c) = privilege c) \<Longrightarrow> reg_ok f"
  by (simp add: reg_ok_def legal_def)

lemma register_updates [simp]:
  "stat (put_gpr rd v c) = stat c" "privilege (put_gpr rd v c) = privilege c"
  "stat (write_gpr rd v c) = stat c" "privilege (write_gpr rd v c) = privilege c"
  "stat (advance n c) = stat c" "privilege (advance n c) = privilege c"
  "stat (write_csr j w c) = stat c"
  by (simp_all add: put_gpr_def write_gpr_def advance_def write_csr_def)

lemmas alu_defs = exec_addi_def exec_xori_def exec_ori_def exec_andi_def exec_slti_def exec_sltiu_def
  exec_slli_def exec_si_def exec_lui_def exec_auipc_def exec_iw_def r_op_def exec_add_def exec_sub_def
  exec_xor_def exec_sltu_def exec_and_def exec_or_def exec_srl_def exec_mul_def exec_remu_def
  exec_divu_def exec_div_def exec_3b_def exec_jal_def exec_jalr_def branch_def exec_beq_def
  exec_bne_def exec_bltu_def exec_bgeu_def exec_bge_def exec_blt_def exec_fence_def exec_float_def

lemma alu_reg_ok:
  "reg_ok (exec_addi i)" "reg_ok (exec_xori i)" "reg_ok (exec_ori i)" "reg_ok (exec_andi i)"
  "reg_ok (exec_slti i)" "reg_ok (exec_sltiu i)" "reg_ok (exec_slli i)" "reg_ok (exec_si i)"
  "reg_ok (exec_lui i)" "reg_ok (exec_auipc i)" "reg_ok (exec_iw i)" "reg_ok (exec_add i)"
  "reg_ok (exec_sub i)" "reg_ok (exec_xor i)" "reg_ok (exec_sltu i)" "reg_ok (exec_and i)"
  "reg_ok (exec_or i)" "reg_ok (exec_srl i)" "reg_ok (exec_mul i)" "reg_ok (exec_remu i)"
  "reg_ok (exec_divu i)" "reg_ok (exec_div i)" "reg_ok (exec_3b i)" "reg_ok (exec_jal i)"
  "reg_ok (exec_jalr i)" "reg_ok (exec_beq i)" "reg_ok (exec_bne i)" "reg_ok (exec_bltu i)"
  "reg_ok (exec_bgeu i)" "reg_ok (exec_bge i)" "reg_ok (exec_blt i)" "reg_ok (exec_fence i)"
  "reg_ok (exec_float i)"
  by (rule reg_okI; simp add: alu_defs Let_def)+

lemma compressed_reg_ok:
  "reg_ok (c_addi4spn i)" "reg_ok (exec_c1 j)" "reg_ok (c_slli i)" "reg_ok (c_jr_mv_add i)"
  by (rule reg_okI; simp add: c_addi4spn_def exec_c1_def c_addi_def c_addiw_def c_li_def
      c_lui_addi16sp_def c_alu_def c_j_def c_branch_def c_slli_def c_jr_mv_add_def Let_def)+

lemma legal_simps [simp]:
  "legal (c\<lparr>csr := r\<rparr>) = legal c" "legal (c\<lparr>pc := x\<rparr>) = legal c" "legal (c\<lparr>halted := b\<rparr>) = legal c"
  "legal (take_smode_trap k irq c)" "legal (take_mmode_trap ho k irq c) = legal c"
  by (simp_all add: legal_def)

lemma trap_stat [simp]:
  "stat (take_smode_trap k irq c) = stat c" "stat (take_mmode_trap ho k irq c) = stat c"
  by (simp_all add: stat_def)

lemma privileged_reg_ok:
  "reg_ok (exec_ecall ho i)" "reg_ok (exec_ebreak i)" "reg_ok (exec_wfi i)" "reg_ok (exec_sfencevma i)"
  "reg_ok (exec_csr i)" "reg_ok (exec_mret i)" "reg_ok (exec_sret i)"
  "reg_ok (check_and_handle_interrupts ho)"
proof -
  show "reg_ok (exec_ecall ho i)"
    by (simp add: reg_ok_def exec_ecall_def take_trap_def Let_def)
  show "reg_ok (exec_ebreak i)" "reg_ok (exec_wfi i)" "reg_ok (exec_sfencevma i)" "reg_ok (exec_csr i)"
    by (rule reg_okI; simp add: exec_ebreak_def exec_wfi_def exec_sfencevma_def exec_csr_def Let_def)+
  show "reg_ok (exec_mret i)"
    by (simp add: reg_ok_def legal_def exec_mret_def Let_def)
  show "reg_ok (exec_sret i)"
    by (simp add: reg_ok_def legal_def exec_sret_def Let_def)
  have d: "stat (deliver ho k c) = stat c \<and> (legal c \<longrightarrow> legal (deliver ho k c))" for k c
    by (simp add: deliver_def)
  have a: "stat (ack_soft c) = stat c" "legal (ack_soft c) = legal c" for c
    by (simp_all add: ack_soft_def)
  show "reg_ok (check_and_handle_interrupts ho)"
    unfolding reg_ok_def check_deliver using d a by simp
qed

lemma tlb_insert_frame: "stat (tlb_insert va pte aid c) = stat c" "privilege (tlb_insert va pte aid c) = privilege c"
  by (simp_all add: tlb_insert_def set_entry_def Let_def stat_def)

lemma tlb_lookup_frame:
  "stat (snd (tlb_lookup va acc aid c)) = stat c" "privilege (snd (tlb_lookup va acc aid c)) = privilege c"
  by (auto simp: tlb_lookup_def set_entry_def Let_def stat_def split: option.split)

lemma fault_frame: "stat (handle_fault va acc c) = stat c" "privilege (handle_fault va acc c) = privilege c"
  by (simp_all add: handle_fault_def stat_def)

section \<open>The interface of execution\<close>

text \<open>
  What a property \<open>P\<close> of the machine has to survive, for the hart \<open>h\<close>: changes of registers,
  reads and writes of at most 8 bytes through the bus of the hart, and the fetch. \<open>G\<close> says which faults may end
  the emulator meanwhile; a call through an empty table entry always may.
\<close>

locale machine_inv =
  fixes h :: nat
    and P :: "machine \<Rightarrow> bool"
    and G :: "fault \<Rightarrow> bool"
  assumes inv_reg: "reg_ok f \<Longrightarrow> P m \<Longrightarrow> P (upd_cpu h f m)"
    and inv_read: "P m \<Longrightarrow> n \<le> 8 \<Longrightarrow> sat (\<lambda>(v, m'). P m') G (bus_read (cpu_bus (cpus m h)) a n m)"
    and inv_write: "P m \<Longrightarrow> n \<le> 8 \<Longrightarrow> sat P G (bus_write (cpu_bus (cpus m h)) a v n m)"
    and inv_mem: "P m \<Longrightarrow> P (snd (memory_read a n m))"
    and inv_null: "G NullCall"
begin

lemma inv_cpu: "P m \<Longrightarrow> stat (f (cpus m h)) = stat (cpus m h) \<Longrightarrow> privilege (f (cpus m h)) = privilege (cpus m h) \<Longrightarrow>
    P (upd_cpu h f m)"
proof -
  assume a: "P m" "stat (f (cpus m h)) = stat (cpus m h)" "privilege (f (cpus m h)) = privilege (cpus m h)"
  let ?g = "\<lambda>c. if c = cpus m h then f c else c"
  have "reg_ok ?g" by (rule reg_okI) (use a in auto)
  from inv_reg [OF this a(1)] show "P (upd_cpu h f m)" by (simp add: upd_cpu_def)
qed

lemma walk_sat: "P m \<Longrightarrow> sat (\<lambda>(r, m'). P m') G (sv39_walk h va acc i t m)"
proof (induction i arbitrary: t m)
  case 0
  show ?case
    by (subst sv39_walk.simps, unfold phys_read_u64_def,
        rule sat_rbind_pair [OF inv_read [OF 0]])
      (simp_all add: Let_def inv_cpu tlb_insert_frame)
next
  case (Suc i)
  show ?case
    by (subst sv39_walk.simps, unfold phys_read_u64_def,
        rule sat_rbind_pair [OF inv_read [OF Suc.prems]])
      (simp_all add: Let_def inv_cpu tlb_insert_frame Suc.IH)
qed

lemma get_pa_sat: "P m \<Longrightarrow> sat (\<lambda>(pa, m'). P m') G (get_pa h va acc m)"
proof -
  assume P: "P m"
  let ?r = "tlb_lookup va acc (asid (cpus m h)) (cpus m h)"
  obtain t c where r: "?r = (t, c)" by (cases ?r)
  have c: "stat c = stat (cpus m h)" "privilege c = privilege (cpus m h)"
    using tlb_lookup_frame [of va acc "asid (cpus m h)" "cpus m h"] unfolding r by simp_all
  have PU: "P (upd_cpu h (\<lambda>_. c) m)" by (rule inv_cpu) (use P c in simp_all)
  have PF: "P (upd_cpu h (\<lambda>_. handle_fault va acc c) m)"
    by (rule inv_cpu) (use P c in \<open>simp_all add: fault_frame\<close>)
  have T: "sat (\<lambda>(r, m'). P m') G (sv39_translate h va acc m)" if "P m" for m
    unfolding sv39_translate_def Let_def
    by (rule sat_if) (simp_all add: walk_sat inv_cpu that)
  have M: "sat (\<lambda>(pa, m'). P m') G (rbind (sv39_translate h va acc (upd_cpu h (\<lambda>_. c) m)) (\<lambda>(r, m).
      case r of Some pa \<Rightarrow> Inr (pa, m) | None \<Rightarrow> Inr (0, upd_cpu h (handle_fault va acc) m)))"
    by (rule sat_rbind_pair [OF T [OF PU]]) (simp add: inv_cpu fault_frame split: option.split)
  show ?thesis
    unfolding get_pa_def r by (rule sat_if) (use P PU PF M in \<open>simp_all split: TLBResult.split\<close>)
qed

lemma read_sat: "P m \<Longrightarrow> n \<le> 8 \<Longrightarrow> sat (\<lambda>(v, m'). P m') G (hart_read h a n m)"
  by (simp add: hart_read_def inv_read)

lemma load_into_sat: "P m \<Longrightarrow> n \<le> 8 \<Longrightarrow> sat P G (load_into conv n h a rd m)"
  unfolding load_into_def by (rule sat_rbind_pair [OF read_sat]) (simp_all add: inv_cpu)

lemmas access_sat = get_pa_sat read_sat load_into_sat inv_write

lemma store_pa_sat: "P m \<Longrightarrow> sat P G (cpu_store8_pa h pa b m)" "P m \<Longrightarrow> sat P G (cpu_store16_pa h pa w m)"
  "P m \<Longrightarrow> sat P G (cpu_store32_pa h pa d m)" "P m \<Longrightarrow> sat P G (cpu_store64_pa h pa q m)"
  by (simp_all add: cpu_store8_pa_def cpu_store16_pa_def cpu_store32_pa_def cpu_store64_pa_def inv_write)

lemma exec_store_sat: "P m \<Longrightarrow> sat P G (exec_store h i m)"
  unfolding exec_store_def Let_def
  by (rule sat_rbind_pair [OF get_pa_sat], assumption, rule sat_rbind [where Q = P])
    (simp_all add: store_pa_sat inv_cpu)

lemma exec_load_sat: "P m \<Longrightarrow> sat P G (exec_load h i m)"
  unfolding exec_load_def Let_def load_lb_def load_lh_def load_lw_def load_lbu_def
  by (rule sat_rbind_pair [OF get_pa_sat], assumption, rule sat_rbind [where Q = P])
    (simp_all add: load_into_sat inv_cpu)

lemma rmw_sat: "P m \<Longrightarrow> n \<le> 8 \<Longrightarrow> k \<le> 8 \<Longrightarrow> (\<And>old c. stat (f old c) = stat c) \<Longrightarrow> (\<And>old c. privilege (f old c) = privilege c) \<Longrightarrow>
   sat P G (rbind (hart_read h a n m) (\<lambda>(old, m).
     rbind (bus_write (cpu_bus (cpus m h)) a (v old m) k m) (\<lambda>m. Inr (upd_cpu h (f old) m))))"
  by (rule sat_rbind_pair [OF read_sat], assumption, assumption, rule sat_rbind [OF inv_write])
    (simp_all add: inv_cpu)

lemma exec_amo_sat: "P m \<Longrightarrow> sat P G (exec_amo h i m)"
  unfolding exec_amo_def Let_def
  by (rule sat_rbind_pair [OF get_pa_sat], assumption) (auto intro!: sat_if rmw_sat simp: inv_cpu)

lemma store_next_sat: "P m \<Longrightarrow> n \<le> 8 \<Longrightarrow> sat P G (rbind (bus_write (cpu_bus (cpus m h)) a v n m) (\<lambda>m. Inr (upd_cpu h (advance k) m)))"
  by (rule sat_rbind [OF inv_write]) (simp_all add: inv_cpu)

lemma read_put_sat: "P m \<Longrightarrow> n \<le> 8 \<Longrightarrow> sat P G (rbind (hart_read h a n m) (\<lambda>(v, m). Inr (upd_cpu h (\<lambda>c. advance k (put_gpr rd v c)) m)))"
  by (rule sat_rbind_pair [OF read_sat]) (simp_all add: inv_cpu)

lemma load_next_sat: "P m \<Longrightarrow> n \<le> 8 \<Longrightarrow> sat P G (rbind (if b then load_into conv n h a rd m else Inr m) (\<lambda>m. Inr (upd_cpu h (advance k) m)))"
  by (rule sat_rbind [where Q = P]) (simp_all add: load_into_sat inv_cpu)

lemma compressed_sat:
  assumes "P m"
  shows "sat P G (c_lw h i m)" "sat P G (c_sw h i m)" "sat P G (c_sd h i m)" "sat P G (c_ld h i m)"
    "sat P G (c_lwsp h i m)" "sat P G (c_ldsp h i m)" "sat P G (c_swsp h i m)" "sat P G (c_sdsp h i m)"
  unfolding c_lw_def c_sw_def c_sd_def c_ld_def c_lwsp_def c_ldsp_def c_swsp_def c_sdsp_def Let_def
  by (rule sat_rbind_pair [OF get_pa_sat [OF assms]], simp add: store_next_sat read_put_sat load_next_sat)+

lemma exec_c0_sat: "P m \<Longrightarrow> sat P G (exec_c0 h instr m)"
  by (simp add: exec_c0_def Let_def compressed_sat inv_reg compressed_reg_ok)

lemma exec_c2_sat: "P m \<Longrightarrow> sat P G (exec_c2 h instr m)"
  by (simp add: exec_c2_def Let_def compressed_sat inv_reg compressed_reg_ok)

definition handler_ok :: "instruction_handler option \<Rightarrow> bool" where
  "handler_ok f \<longleftrightarrow> (\<forall>i m. P m \<longrightarrow> sat P G (call f h i m))"

lemma handler_on_cpu: "(\<And>i. reg_ok (f i)) \<Longrightarrow> handler_ok (Some (on_cpu f))"
  by (simp add: handler_ok_def call_def on_cpu_def inv_reg)

lemma handler_none: "handler_ok None"
  by (simp add: handler_ok_def call_def inv_null)

lemma handler_upd: "handler_ok (t x) \<Longrightarrow> handler_ok f \<Longrightarrow> handler_ok ((t(k := f)) x)"
  by simp

lemma table_ok:
  "handler_ok (r_type_instruction k)" "handler_ok (i_type_imm_instruction b)" "handler_ok (b_type_instr b)"
  "handler_ok (csr_instr k)" "handler_ok (system_table k)"
  unfolding r_type_instruction_def i_type_imm_instruction_def b_type_instr_def csr_instr_def system_table_def
  by (intro handler_upd handler_on_cpu alu_reg_ok privileged_reg_ok handler_none;
      simp add: handler_ok_def call_def inv_reg privileged_reg_ok)+

lemma call_sat: "handler_ok f \<Longrightarrow> P m \<Longrightarrow> sat P G (call f h i m)"
  by (simp add: handler_ok_def)

lemma dispatch_sat:
  assumes "P m"
  shows "sat P G (handle_i_imm_type h i m)" "sat P G (handle_r_type h i m)" "sat P G (hande_b_type h i m)"
  by (simp_all add: handle_i_imm_type_def handle_r_type_def hande_b_type_def Let_def call_sat table_ok assms)

lemma handle_system_sat: "P m \<Longrightarrow> sat P G (handle_system h i m)"
  unfolding handle_system_def Let_def
  by (rule sat_rbind [where Q = P], simp add: call_sat table_ok, rule sat_rbind [where Q = P])
    (simp_all add: call_sat table_ok)

lemma opcode_table_ok: "handler_ok (opcode_table k)"
  unfolding opcode_table_def
  by (intro handler_upd handler_on_cpu alu_reg_ok compressed_reg_ok handler_none;
      simp add: handler_ok_def call_def exec_load_sat exec_store_sat exec_amo_sat exec_c0_sat exec_c2_sat
        dispatch_sat handle_system_sat)

lemma decode_sat: "P m \<Longrightarrow> sat P G (decode_and_execute h i m)"
  using opcode_table_ok [of "opcode_of i"]
  by (auto simp: decode_and_execute_def handle_opcode_def handler_ok_def call_def inv_cpu split: option.split)

lemma fetch_sat: "P m \<Longrightarrow> sat (\<lambda>(i, m'). P m') G (fetch_instruction h m)"
  unfolding fetch_instruction_def
  by (rule sat_rbind_pair [OF get_pa_sat])
    (simp_all add: Let_def case_prod_beta inv_mem)

text \<open>An instruction keeps \<open>P\<close>, up to the bookkeeping of \<open>cpu_step\<close>.\<close>

lemma cpu_step_sat:
  assumes "P m" and "\<And>m'. P m' \<Longrightarrow> Q (step_counters h m')"
  shows "sat Q G (cpu_step h m)"
  unfolding cpu_step_def
  by (rule sat_rbind_pair [OF fetch_sat [OF assms(1)]], rule sat_rbind [OF decode_sat]) (simp_all add: assms(2))

end

text \<open>
  The disk and the interrupt controller work between two instructions: what a property of the
  whole emulator has to survive in addition. Hart 0 is the hart \<open>main\<close> runs.
\<close>

locale emu_inv = machine_inv 0 P G for P G +
  assumes inv_memory_write: "P m \<Longrightarrow> P (memory_write a v n m)"
    and inv_bc: "P m \<Longrightarrow> P (m\<lparr>bc := b\<rparr>)"
    and inv_dev: "P m \<Longrightarrow> P (upd_dev f m)"
    and inv_ops: "P m \<Longrightarrow> P (m\<lparr>pending_ops := ops\<rparr>)"
    and inv_irq: "P m \<Longrightarrow> P (plic_set_irq irq l m)"
    and inv_faults: "G OutOfBounds" "G DivByZero" "G Diverges"
begin

lemma phys_sat: "P m \<Longrightarrow> P (snd (phys_read a n m))" "P m \<Longrightarrow> P (phys_write a v n m)"
  by (simp_all add: phys_read_def phys_write_def inv_mem inv_memory_write)

lemma chain_walk_sat:
  assumes "chain_walk head i ra da m = Some r" "P m"
  shows "sat (\<lambda>(ra, da, m'). P m') G r"
proof -
  have "P m \<longrightarrow> sat (\<lambda>(ra, da, m'). P m') G r"
  proof (rule chain_walk.raw_induct [where P = "\<lambda>h i ra da m r. P m \<longrightarrow> sat (\<lambda>(ra, da, m'). P m') G r", OF _ assms(1)])
    fix f and h i :: u16 and ra da :: u64 and m' :: machine and r
    assume 1: "\<And>h i ra da m r. f h i ra da m = Some r \<Longrightarrow> P m \<longrightarrow> sat (\<lambda>(ra, da, m'). P m') G r"
      "(let desc_base = d_desc_addr (dev m') + ucast i * 16;
          (f_addr, m) = phys_read (desc_base + 0) 8 m'
      in case get_pa 0 f_addr ACC_LOAD m of
           Inl e \<Rightarrow> Some (Inl e)
         | Inr (addr, m) \<Rightarrow>
            (let (len, m) = phys_read (desc_base + 8) 4 m;
                 (flags, m) = phys_read (desc_base + 12) 2 m;
                 (next, m) = phys_read (desc_base + 14) 2 m;
                 req_addr = (if i = h then addr else ra);
                 data_addr = (if i \<noteq> h \<and> ucast flags AND VRING_DESC_F_NEXT \<noteq> 0 then addr else da)
             in if ucast flags AND VRING_DESC_F_NEXT = 0
                then Some (Inr (req_addr, data_addr, phys_write addr 0 1 m))
                else f h (ucast next) req_addr data_addr m)) = Some r"
    show "P m' \<longrightarrow> sat (\<lambda>(ra, da, m'). P m') G r"
    proof
      assume P: "P m'"
      let ?r = "phys_read (d_desc_addr (dev m') + ucast i * 16) 8 m'"
      note g = get_pa_sat [OF phys_sat(1) [OF P], of "fst ?r" ACC_LOAD "d_desc_addr (dev m') + ucast i * 16" 8]
      show "sat (\<lambda>(ra, da, m'). P m') G r"
      proof (cases "get_pa 0 (fst ?r) ACC_LOAD (snd ?r)")
        case (Inl e)
        with 1(2) g show ?thesis by (auto simp: Let_def case_prod_beta)
      next
        case (Inr p)
        with g have "P (snd p)" by (auto simp: case_prod_beta)
        with 1(2) Inr show ?thesis
          by (auto simp: Let_def case_prod_beta phys_sat split: if_splits dest!: 1(1))
      qed
    qed
  qed
  with assms(2) show ?thesis by simp
qed

lemma for_loop_sat: "(\<And>i m. P m \<Longrightarrow> sat P G (body i m)) \<Longrightarrow> P m \<Longrightarrow> sat P G (for_loop body n m)"
  by (induction n) (auto intro: sat_rbind)

lemma transfer_sat: "P m \<Longrightarrow> sat P G (disk_in_byte da off i m)" "P m \<Longrightarrow> sat P G (disk_out_byte da off i m)"
proof -
  assume P: "P m"
  show "sat P G (disk_in_byte da off i m)"
    using P by (simp add: disk_in_byte_def inv_faults inv_write)
  show "sat P G (disk_out_byte da off i m)"
    unfolding disk_out_byte_def
    by (rule sat_rbind_pair [OF inv_read [OF P]]) (simp_all add: inv_faults inv_bc)
qed

lemma block_sat: "P m \<Longrightarrow> sat P G (load_block b m)" "P m \<Longrightarrow> sat P G (disk_store_block b m)"
  by (simp_all add: load_block_def disk_store_block_def Let_def inv_faults inv_bc inv_dev)

lemma disk_io_sat: "P m \<Longrightarrow> sat P G (disk_io ra da m)"
  unfolding disk_io_def Let_def case_prod_beta
  by (intro sat_if; (rule sat_rbind, rule block_sat, simp add: phys_sat)?)
    (auto intro!: for_loop_sat sat_rbind [where Q = P] transfer_sat block_sat simp: phys_sat)

lemma push_used_sat: "P m \<Longrightarrow> sat P G (push_used i m)"
  by (simp add: push_used_def Let_def case_prod_beta inv_faults phys_sat)

lemma complete_sat: "P m \<Longrightarrow> sat P G (complete_disk_operation op m)"
proof -
  assume P: "P m"
  let ?w = "chain_walk (op_head op) (op_head op) 0 0 m"
  have f: "sat P G (rbind (disk_io ra da n) (\<lambda>m. rbind (push_used (op_head op) m) (\<lambda>m.
      Inr (plic_set_irq VIRTIO_IRQ 1 (upd_dev (\<lambda>d. d\<lparr>d_interrupt_status := 1\<rparr>) m)))))" if "P n" for ra da n
    by (rule sat_rbind [OF disk_io_sat [OF that]], rule sat_rbind [OF push_used_sat]) (simp_all add: inv_irq inv_dev)
  show ?thesis
  proof (cases ?w)
    case None
    then show ?thesis by (simp add: complete_disk_operation_def inv_faults)
  next
    case (Some r)
    with chain_walk_sat [OF _ P] have "sat (\<lambda>(ra, da, m'). P m') G r" by blast
    with Some f show ?thesis by (cases r) (auto simp: complete_disk_operation_def)
  qed
qed

lemma disk_pass_sat: "P m \<Longrightarrow> sat P G (disk_pass k ops m)"
proof (induction ops arbitrary: m)
  case (Cons op ops)
  then show ?case by (auto intro!: sat_rbind [where Q = P] complete_sat Cons.IH inv_ops)
qed simp

text \<open>What a turn of the main loop does after its instruction.\<close>

lemma disk_update_sat: "P m \<Longrightarrow> sat P G (virtio_disk_update 0 m)"
  by (simp add: virtio_disk_update_def disk_pass_sat)

lemma turn_rest_sat:
  assumes "P m"
  shows "sat P G (let m = (if gpr (cpus m 0) 0 \<noteq> 0 then upd_cpu 0 (\<lambda>c. c\<lparr>halted := True\<rparr>) m else m) in
       rbind (virtio_disk_update 0 m) (\<lambda>m. Inr (upd_cpu 0 (check_and_handle_interrupts (host m)) m)))"
  unfolding Let_def
  by (rule sat_rbind [OF disk_update_sat]) (use assms in \<open>simp_all add: inv_cpu inv_reg privileged_reg_ok\<close>)

end

text \<open>A turn whose instruction leads from \<open>P\<close> to \<open>Q\<close>, where \<open>Q\<close> survives the rest of the turn.\<close>

lemma main_turn_sat:
  assumes "machine_inv 0 P G" "emu_inv Q G" "P m" "\<And>m'. P m' \<Longrightarrow> Q (step_counters 0 m')"
  shows "sat Q G (main_turn m)"
  unfolding main_turn_def
  by (rule sat_rbind [OF machine_inv.cpu_step_sat [where Q = Q, OF assms(1,3)]])
    (use assms(4) emu_inv.turn_rest_sat [OF assms(2)] in \<open>blast+\<close>)

end
