(* ===== verification/Emulator.thy ===== *)
theory Emulator
  imports Cpu_Inv
begin

text \<open>
  Properties of the running emulator, from three instances of the interface of execution: the
  faults an instruction can end in, the bookkeeping of a hart, and the invariant of the whole
  emulator, which the console threads keep as well.
\<close>

section \<open>Faults of an instruction\<close>

text \<open>
  The faults that an access through the bus of \<open>main\<close> can end in: a call through an empty table
  entry, the lock of the serial device, a queue of size 0, and an access of guest memory whose
  range passes the end of the address space, which the check of the bus lets through.
\<close>

definition wraps :: "u64 \<Rightarrow> nat \<Rightarrow> bool" where
  "wraps a n \<longleftrightarrow> 2 ^ 64 < unat a + n"

definition bus_fault :: "fault \<Rightarrow> bool" where
  "bus_fault e \<longleftrightarrow> e = NullCall \<or> e = Deadlock \<or> e = DivByZero \<or>
     (\<exists>a n. e = Overrun (a - MEMORY_BASE) n \<and> n \<le> 8 \<and> wraps a n)"

lemma bus_fault_simps [simp]: "bus_fault NullCall" "bus_fault Deadlock" "bus_fault DivByZero"
  by (simp_all add: bus_fault_def)

lemma uart_lock_faults: "sat (\<lambda>_. True) bus_fault (uart_lock m)"
  by (simp add: uart_lock_def)

lemma mmio_faults:
  "sat (\<lambda>_. True) bus_fault (mmio_read off n m)" "sat (\<lambda>_. True) bus_fault (mmio_write off v m)"
proof -
  have p: "sat (\<lambda>_. True) bus_fault (rx_buf_pop m)" for m
    unfolding rx_buf_pop_def by (rule sat_rbind [OF uart_lock_faults]) (simp add: Let_def)
  show "sat (\<lambda>_. True) bus_fault (mmio_read off n m)"
    unfolding mmio_read_def uart_mmio_read_def Let_def
    by (rule sat_rbind [OF uart_lock_faults], intro sat_if, simp, rule sat_rbind [OF p]) auto
  show "sat (\<lambda>_. True) bus_fault (mmio_write off v m)"
    unfolding mmio_write_def uart_mmio_write_def Let_def
    by (intro sat_if, rule sat_rbind [OF uart_lock_faults]) auto
qed

text \<open>Which accesses leave the block: in the fallback of the bus, those that wrap around; in the RAM device, none.\<close>

lemma fallback_faults:
  assumes "MEMORY_BASE \<le> a" "a + of_nat n - 1 < MEMORY_BASE + MEMORY_SIZE" "n \<le> 8"
  shows "sat (\<lambda>_. True) bus_fault (block_load (a - MEMORY_BASE) n m)"
    and "sat (\<lambda>_. True) bus_fault (block_store (a - MEMORY_BASE) v n m)"
  using wrapped_check [OF assms] assms(3) by (auto simp: block_load_def block_store_def bus_fault_def wraps_def)

lemma in_region_ram:
  assumes "in_region a r" "r \<in> set (regions emu_bus)" "r_dev r = Dev_RAM"
  shows "a - r_base r < MEMORY_SIZE"
  using assms by (auto simp: emu_bus_def in_region_def word_less_nat_alt word_le_nat_alt unat_sub)

lemma ram_write_faults:
  assumes "off < MEMORY_SIZE" "n \<le> 8"
  shows "sat (\<lambda>_. True) bus_fault (ram_write off v n m)"
proof -
  have "unat (off + of_nat n) = unat off + n"
    using assms by (simp add: unat_word_ariths unsigned_of_nat take_bit_eq_mod word_less_nat_alt)
  then show ?thesis by (simp add: ram_write_def block_store_def in_ram_def word_less_nat_alt not_less)
qed

lemma bus_read_faults: "n \<le> 8 \<Longrightarrow> sat (\<lambda>_. True) bus_fault (bus_read emu_bus a n m)"
proof -
  assume n: "n \<le> 8"
  have "sat (\<lambda>_. True) bus_fault (device_read d off n m)" for d off
    by (cases d) (auto intro!: sat_rbind [OF mmio_faults(1)])
  then show ?thesis using n by (simp add: bus_read_def fallback_faults less_imp_le split: option.split)
qed

text \<open>The queue is read over the bus of hart 0, which \<open>main\<close> has set.\<close>

definition on_main_bus :: "nat \<Rightarrow> machine \<Rightarrow> bool" where
  "on_main_bus h m \<longleftrightarrow> cpu_bus (cpus m h) = emu_bus \<and> cpu_bus (cpus m 0) = emu_bus"

lemma on_main_bus_core: "on_main_bus h m \<Longrightarrow> (\<And>k. core (cpus m' k) = core (cpus m k)) \<Longrightarrow> on_main_bus h m'"
  by (metis coreD(14) on_main_bus_def)

lemma process_queue_step_faults:
  "on_main_bus h m \<Longrightarrow> sat (on_main_bus h) bus_fault (process_queue_step p m)"
proof -
  assume b: "on_main_bus h m"
  then have e: "cpu_bus (cpus m 0) = emu_bus" by (simp add: on_main_bus_def)
  have "sat (\<lambda>_. True) bus_fault (process_queue_step p m)"
    unfolding process_queue_step_def Let_def e
    by (intro sat_if, simp, rule sat_rbind [OF bus_read_faults]) auto
  moreover have "on_main_bus h m'" if "process_queue_step p m = Inr m'" for m'
    using on_main_bus_core [OF b] process_queue_step_core [OF that] by blast
  ultimately show ?thesis by (cases "process_queue_step p m") auto
qed

lemma process_queue_faults: "on_main_bus h m \<Longrightarrow> sat (\<lambda>_. True) bus_fault (process_queue_loop l p m)"
proof (induction l p m rule: process_queue_loop.induct)
  case (1 l p m)
  show ?case
  proof (cases "p = l")
    case True
    then show ?thesis by (subst process_queue_loop.simps) simp
  next
    case False
    then show ?thesis
      by (subst process_queue_loop.simps) (auto intro!: sat_rbind [OF process_queue_step_faults [OF "1.prems"]] "1.IH")
  qed
qed

lemma bus_write_faults:
  assumes "on_main_bus h m" "n \<le> 8"
  shows "sat (\<lambda>_. True) bus_fault (bus_write emu_bus a v n m)"
proof -
  have "on_main_bus h (snd (get_avail_idx m))"
    by (rule on_main_bus_core [OF assms(1)]) (rule get_avail_idx_core)
  then have "sat (\<lambda>_. True) bus_fault (virtio_mmio_write off v m)" for off
    by (simp add: virtio_mmio_write_def process_queue_def Let_def process_queue_faults case_prod_beta)
  then have d: "sat (\<lambda>_. True) bus_fault (device_write d off v n m)" if "d = Dev_RAM \<longrightarrow> off < MEMORY_SIZE" for d off
    using that assms(2) by (cases d) (simp_all add: mmio_faults ram_write_faults)
  show ?thesis
  proof (cases "find (in_region a) (regions emu_bus)")
    case None
    with assms(2) show ?thesis by (simp add: bus_write_def fallback_faults)
  next
    case (Some r)
    then have "r \<in> set (regions emu_bus)" "in_region a r" by (auto simp: find_Some_iff)
    with Some show ?thesis by (simp add: bus_write_def d in_region_ram)
  qed
qed

lemma bus_keeps_main_bus:
  assumes "on_main_bus h m"
  shows "bus_read b a n m = Inr (v, m') \<Longrightarrow> on_main_bus h m'" "bus_write b a v n m = Inr m' \<Longrightarrow> on_main_bus h m'"
  using on_main_bus_core [OF assms] bus_read_frame [of b a n m v m'] bus_write_core [of b a v n m m'] by blast+

interpretation faults: machine_inv h "on_main_bus h" bus_fault for h
proof
  fix m :: machine and a n v and f :: "CPU_State \<Rightarrow> CPU_State"
  assume b: "on_main_bus h m"
  then have e: "cpu_bus (cpus m h) = emu_bus" by (simp add: on_main_bus_def)
  show "on_main_bus h (upd_cpu h f m)" if "reg_ok f"
    using that b by (auto simp: on_main_bus_def reg_ok_def stat_def)
  show "on_main_bus h (snd (memory_read a n m))"
    by (rule on_main_bus_core [OF b]) (rule memory_read_core)
  assume n: "n \<le> 8"
  show "sat (\<lambda>(v, m'). on_main_bus h m') bus_fault (bus_read (cpu_bus (cpus m h)) a n m)"
    unfolding e using bus_read_faults [OF n, of a m] bus_keeps_main_bus(1) [OF b, of emu_bus a n]
    by (cases "bus_read emu_bus a n m") auto
  show "sat (on_main_bus h) bus_fault (bus_write (cpu_bus (cpus m h)) a v n m)"
    unfolding e using bus_write_faults [OF b n, of a v] bus_keeps_main_bus(2) [OF b, of emu_bus a v n]
    by (cases "bus_write emu_bus a v n m") auto
qed simp

text \<open>The access that wraps around does leave the block.\<close>

lemma wraps_overrun:
  assumes "0 < n" "n \<le> 8" "wraps a n"
  shows "bus_read emu_bus a n m = Inl (Overrun (a - MEMORY_BASE) n)"
    and "bus_write emu_bus a v n m = Inl (Overrun (a - MEMORY_BASE) n)"
proof -
  have u: "2 ^ 64 - 8 < unat a + 1" "unat a < 2 ^ 64" using assms unsigned_less [of a] by (auto simp: wraps_def)
  have f: "find (in_region a) (regions emu_bus) = None"
    using u by (simp add: emu_bus_def in_region_def word_less_nat_alt word_le_nat_alt)
  obtain k where k: "n = Suc k" using assms(1) by (cases n) auto
  have "unat (a + of_nat k) = unat a + k - 2 ^ 64"
    using u assms(2,3) k by (simp add: wraps_def unat_word_ariths unsigned_of_nat take_bit_eq_mod le_mod_geq)
  then have c: "MEMORY_BASE < a" "MEMORY_BASE \<le> a" "a + of_nat n - 1 < MEMORY_BASE + MEMORY_SIZE"
    using u assms(2) k by (simp_all add: word_less_nat_alt word_le_nat_alt)
  have "unat (a - MEMORY_BASE) = unat a - unat MEMORY_BASE" using c(2) by (simp add: unat_sub)
  then have o: "\<not> in_ram (a - MEMORY_BASE) n" using u assms by (simp add: in_ram_def)
  show "bus_read emu_bus a n m = Inl (Overrun (a - MEMORY_BASE) n)"
    "bus_write emu_bus a v n m = Inl (Overrun (a - MEMORY_BASE) n)"
    using c o by (simp_all add: bus_read_def bus_write_def f block_load_def block_store_def)
qed

text \<open>
  C15. What one step of a hart can do to the emulator, whatever instruction it executes in whatever
  state: on the bus that \<open>main\<close> builds it ends (translation, bus and device loops included), and
  the only ways it can bring the emulator down are a call through an empty entry of a handler
  table, a wait for the lock of the serial device that is held, a notification of the disk with a
  queue of size 0, and an access of at most 8 bytes whose range passes the end of the 64-bit
  address space. The last is the only access to the block of guest memory that leaves it: for every
  other address the checks of \<open>bus_read\<close>, \<open>bus_write\<close> and the RAM device are right, and for those the
  sum \<open>addr + size - 1\<close> wraps around and the access does go outside. Messages are not part of the
  model.
\<close>

theorem cpu_step_safe:
  assumes "cpu_bus (cpus m h) = emu_bus" "cpu_bus (cpus m 0) = emu_bus"
  shows "(case cpu_step h m of Inr m' \<Rightarrow> True
     | Inl e \<Rightarrow> e = NullCall \<or> e = Deadlock \<or> e = DivByZero \<or>
         (\<exists>a n. e = Overrun (a - MEMORY_BASE) n \<and> n \<le> 8 \<and> 2 ^ 64 < unat a + n)) \<and>
    (\<forall>a v n m1. 0 < n \<longrightarrow> n \<le> 8 \<longrightarrow> 2 ^ 64 < unat a + n \<longrightarrow>
       bus_read emu_bus a n m1 = Inl (Overrun (a - MEMORY_BASE) n) \<and>
       bus_write emu_bus a v n m1 = Inl (Overrun (a - MEMORY_BASE) n))"
proof (intro conjI allI impI)
  have "on_main_bus h m" using assms by (simp add: on_main_bus_def)
  then show "case cpu_step h m of Inr m' \<Rightarrow> True
     | Inl e \<Rightarrow> e = NullCall \<or> e = Deadlock \<or> e = DivByZero \<or>
         (\<exists>a n. e = Overrun (a - MEMORY_BASE) n \<and> n \<le> 8 \<and> 2 ^ 64 < unat a + n)"
    using faults.cpu_step_sat [where Q = "\<lambda>_. True" and h = h and m = m]
    by (cases "cpu_step h m") (auto simp: bus_fault_def wraps_def)
next
  fix a v :: u64 and n and m1 :: machine
  assume "0 < n" "n \<le> 8" "2 ^ 64 < unat a + n"
  then show "bus_read emu_bus a n m1 = Inl (Overrun (a - MEMORY_BASE) n)"
    "bus_write emu_bus a v n m1 = Inl (Overrun (a - MEMORY_BASE) n)"
    using wraps_overrun [of n a] by (simp_all add: wraps_def)
qed

text \<open>A store to the last byte of the address space, \<open>sh x1,-1(x0)\<close> without translation, writes outside the block.\<close>

definition overrun_machine :: machine where
  "overrun_machine = upd_cpu 0 (\<lambda>c. c\<lparr>pc := 0x80000000, cpu_bus := emu_bus\<rparr>)
     (blank\<lparr>memory := (\<lambda>_. 0)(0 := 0xA3, 1 := 0x1F, 2 := 0x10, 3 := 0xFE)\<rparr>)"

lemma overrun_machine_simps [simp]:
  "pc (cpus overrun_machine 0) = 0x80000000" "cpu_bus (cpus overrun_machine 0) = emu_bus"
  "csr (cpus overrun_machine 0) = (\<lambda>_. 0)" "gpr (cpus overrun_machine 0) = (\<lambda>_. 0)"
  "memory overrun_machine = (\<lambda>_. 0)(0 := 0xA3, 1 := 0x1F, 2 := 0x10, 3 := 0xFE)"
  by (simp_all add: overrun_machine_def zero_defs)

theorem cpu_step_safe_witness:
  "cpu_step 0 overrun_machine = Inl (Overrun (0xFFFFFFFFFFFFFFFF - MEMORY_BASE) 2)"
proof -
  have f: "fetch_instruction 0 overrun_machine = Inr (0xFE101FA3, overrun_machine)"
    by (simp add: fetch_instruction_def get_pa_def memory_read_def memory_read_offset_def le_load_2 Let_def)
  have o: "opcode_of 0xFE101FA3 = 0x23" "rs1_of 0xFE101FA3 = 0" "rs2_of 0xFE101FA3 = 1" "funct3_of 0xFE101FA3 = 1"
    "imm_s 0xFE101FA3 = 0xFFFFFFFFFFFFFFFF"
    by code_simp+
  have w: "bus_write emu_bus 0xFFFFFFFFFFFFFFFF v 2 m = Inl (Overrun (0xFFFFFFFFFFFFFFFF - MEMORY_BASE) 2)" for v m
    using cpu_step_safe [of overrun_machine 0] by simp
  show ?thesis
    by (simp add: cpu_step_def f decode_and_execute_def handle_opcode_def o opcode_table_def exec_store_def
        Let_def get_pa_def cpu_store16_pa_def w)
qed

section \<open>The instruction counter\<close>

text \<open>A bus access keeps any function of the core of a hart.\<close>

lemma bus_read_keeps:
  assumes "\<And>c c'. core c = core c' \<Longrightarrow> clint c = clint c' \<Longrightarrow> g c = g c'"
  shows "sat (\<lambda>(v, m'). g (cpus m' k) = g (cpus m k)) (\<lambda>_. True) (bus_read b a n m)"
proof (cases "bus_read b a n m")
  case (Inr p)
  obtain v m' where p: "p = (v, m')" by (cases p)
  with bus_read_frame [of b a n m v m' k] Inr have "g (cpus m' k) = g (cpus m k)" by (intro assms) simp_all
  with Inr p show ?thesis by simp
qed simp

lemma bus_write_keeps:
  assumes "\<And>c c'. core c = core c' \<Longrightarrow> g c = g c'"
  shows "sat (\<lambda>m'. g (cpus m' k) = g (cpus m k)) (\<lambda>_. True) (bus_write b a v n m)"
proof (cases "bus_write b a v n m")
  case (Inr m')
  from assms [OF bus_write_core [OF Inr]] Inr show ?thesis by simp
qed simp

interpretation counts: machine_inv h "\<lambda>m. inst_count (cpus m k) = s" "\<lambda>_. True" for h k s
proof
  fix m :: machine and a n v
  assume s: "inst_count (cpus m k) = s"
  show "inst_count (cpus (snd (memory_read a n m)) k) = s"
    using coreD(7) [OF memory_read_core] s by simp
  show "sat (\<lambda>(v, m'). inst_count (cpus m' k) = s) (\<lambda>_. True) (bus_read (cpu_bus (cpus m h)) a n m)"
    unfolding s [symmetric] by (rule bus_read_keeps [where g = inst_count, OF coreD(7)])
  show "sat (\<lambda>m'. inst_count (cpus m' k) = s) (\<lambda>_. True) (bus_write (cpu_bus (cpus m h)) a v n m)"
    unfolding s [symmetric] by (rule bus_write_keeps [where g = inst_count, OF coreD(7)])
qed (auto simp: reg_ok_def stat_def)

lemma step_counters_inst: "inst_count (cpus (step_counters h m) h) = inst_count (cpus m h) + 1"
proof -
  have "inst_count (cpus (clint_tick h n m) h) = inst_count (cpus m h)" for n m
    by (rule coreD(7) [OF clint_tick_cpu_frame(1)])
  then show ?thesis by (simp add: step_counters_def Let_def)
qed

lemma cpu_step_inst: "cpu_step h m = Inr m' \<Longrightarrow> inst_count (cpus m' h) = inst_count (cpus m h) + 1"
  using counts.cpu_step_sat [where k = h and h = h and m = m and s = "inst_count (cpus m h)"
      and Q = "\<lambda>m'. inst_count (cpus m' h) = inst_count (cpus m h) + 1"]
  by (simp add: step_counters_inst)

text \<open>After \<open>n\<close> iterations the loop stands still: the hart has stopped, or the next instruction does not return to it.\<close>

definition run_ends :: "nat \<Rightarrow> machine \<Rightarrow> nat \<Rightarrow> machine \<Rightarrow> bool" where
  "run_ends h m n m1 \<longleftrightarrow> hart_runs h m n m1 \<and> (running (cpus m1 h) \<longrightarrow> (\<exists>e. cpu_step h m1 = Inl e))"

lemma hart_runs_earlier:
  assumes "running (cpus m h)" "cpu_step h m = Inr m'" "hart_runs h (run_check h m') n m1"
  shows "hart_runs h m (Suc n) m1"
  using assms(3) by induction (auto intro: hart_runs.intros assms(1,2))

lemma run_check_inst [simp]: "inst_count (cpus (run_check h m) h) = inst_count (cpus m h)"
  by (simp add: run_check_def)

lemma hart_runs_inst: "hart_runs h m n m1 \<Longrightarrow> inst_count (cpus m1 h) = inst_count (cpus m h) + of_nat n"
  by (induction rule: hart_runs.induct) (simp_all add: cpu_step_inst)

lemma cpu_run_iterations: "hart_runs h m n m1 \<Longrightarrow> cpu_run h m = cpu_run h m1"
proof (induction rule: hart_runs.induct)
  case (again n m1 m')
  then show ?case by (subst (asm) (2) cpu_run.simps) simp
qed simp

lemma run_ends_step:
  assumes "\<And>m'. cpu_step h m = Inr m' \<Longrightarrow> inst_count (cpus m' h) \<le> 1000 \<Longrightarrow> \<exists>n \<le> b. \<exists>m1. run_ends h (run_check h m') n m1"
  shows "\<exists>n \<le> Suc b. \<exists>m1. run_ends h m n m1"
proof (cases "running (cpus m h) \<and> (\<exists>m'. cpu_step h m = Inr m')")
  case False
  then have "run_ends h m 0 m" by (cases "cpu_step h m") (auto simp: run_ends_def intro: hart_runs.none)
  then show ?thesis by blast
next
  case True
  then obtain m' where m': "running (cpus m h)" "cpu_step h m = Inr m'" by blast
  show ?thesis
  proof (cases "running (cpus (run_check h m') h)")
    case False
    with m' hart_runs.again [OF hart_runs.none m'] have "run_ends h m 1 (run_check h m')" by (simp add: run_ends_def)
    then show ?thesis by (intro exI [of _ 1]) auto
  next
    case True
    then have "inst_count (cpus m' h) \<le> 1000" by (auto simp: run_check_def not_less split: if_splits)
    with assms [OF m'(2)] obtain n m1 where "n \<le> b" "run_ends h (run_check h m') n m1" by blast
    with hart_runs_earlier [OF m'] show ?thesis by (auto simp: run_ends_def intro!: exI [of _ "Suc n"])
  qed
qed

lemma run_ends_within:
  "unat (inst_count (cpus m h)) + k = 1000 \<Longrightarrow> \<exists>n \<le> Suc k. \<exists>m1. run_ends h m n m1"
proof (induction k arbitrary: m)
  case 0
  show ?case
  proof (rule run_ends_step)
    fix m' assume "cpu_step h m = Inr m'" "inst_count (cpus m' h) \<le> 1000"
    with cpu_step_inst [of h m m'] 0 show "\<exists>n \<le> 0. \<exists>m1. run_ends h (run_check h m') n m1"
      by (simp add: word_le_nat_alt unat_word_ariths)
  qed
next
  case (Suc k)
  show ?case
  proof (rule run_ends_step)
    fix m' assume "cpu_step h m = Inr m'" "inst_count (cpus m' h) \<le> 1000"
    with cpu_step_inst [of h m m'] Suc.prems show "\<exists>n \<le> Suc k. \<exists>m1. run_ends h (run_check h m') n m1"
      by (intro Suc.IH) (simp add: unat_word_ariths)
  qed
qed

lemma run_ends_bounded: "\<exists>n \<le> 1002. \<exists>m1. run_ends h m n m1"
proof -
  have "\<exists>n \<le> Suc 1001. \<exists>m1. run_ends h m n m1"
  proof (rule run_ends_step)
    fix m' :: machine assume "inst_count (cpus m' h) \<le> 1000"
    then have "unat (inst_count (cpus (run_check h m') h)) + (1000 - unat (inst_count (cpus m' h))) = 1000"
      by (simp add: word_le_nat_alt)
    from run_ends_within [OF this] obtain n m1
      where "n \<le> Suc (1000 - unat (inst_count (cpus m' h)))" "run_ends h (run_check h m') n m1" by blast
    moreover from this(1) have "n \<le> 1001" by simp
    ultimately show "\<exists>n \<le> 1001. \<exists>m1. run_ends h (run_check h m') n m1" by blast
  qed
  then show ?thesis by simp
qed

text \<open>Without the serial device on its bus no instruction waits for a lock.\<close>

definition no_serial :: "nat \<Rightarrow> machine \<Rightarrow> bool" where
  "no_serial h m \<longleftrightarrow> (\<forall>r\<in>set (regions (cpu_bus (cpus m h))) \<union> set (regions (cpu_bus (cpus m 0))). r_dev r \<noteq> Dev_UART)"

lemma no_serial_core: "no_serial h m \<Longrightarrow> (\<And>k. core (cpus m' k) = core (cpus m k)) \<Longrightarrow> no_serial h m'"
  by (metis coreD(14) no_serial_def)

definition returns :: "fault \<Rightarrow> bool" where
  "returns e \<longleftrightarrow> e \<noteq> Deadlock"

lemma no_lock_read:
  assumes "no_serial h m" "k = h \<or> k = 0"
  shows "sat (\<lambda>(v, m'). no_serial h m') returns (bus_read (cpu_bus (cpus m k)) a n m)"
proof (cases "bus_read (cpu_bus (cpus m k)) a n m")
  case (Inr p)
  then show ?thesis
    using no_serial_core [OF assms(1)] bus_read_frame by (cases p) fastforce
next
  case (Inl e)
  have "r_dev r \<noteq> Dev_UART" if "find (in_region a) (regions (cpu_bus (cpus m k))) = Some r" for r
    using assms that by (auto simp: no_serial_def find_Some_iff)
  moreover have "d \<noteq> Dev_UART \<Longrightarrow> device_read d off n m \<noteq> Inl e" for d off by (cases d) auto
  ultimately show ?thesis
    using Inl by (auto simp: bus_read_def returns_def block_load_def split: option.splits if_splits)
qed

lemma no_lock_queue:
  "no_serial h m \<Longrightarrow> sat (no_serial h) returns (process_queue_loop l p m)"
proof (induction l p m rule: process_queue_loop.induct)
  case (1 l p m)
  have "sat (no_serial h) returns (process_queue_step p m)"
  proof (cases "process_queue_step p m")
    case (Inr m')
    then show ?thesis using no_serial_core [OF "1.prems"] process_queue_step_core by fastforce
  next
    case (Inl e)
    then show ?thesis
      using no_lock_read [OF "1.prems", of 0 "d_avail_ring (dev m) + 4 + ucast (p mod d_queue_num (dev m)) * 2" 2]
      by (auto simp: process_queue_step_def Let_def rbind_Inl_iff returns_def split: if_splits)
  qed
  with 1 show ?case by (subst process_queue_loop.simps) (auto intro: sat_rbind)
qed

lemma no_lock_write:
  assumes "no_serial h m"
  shows "sat (no_serial h) returns (bus_write (cpu_bus (cpus m h)) a v n m)"
proof (cases "bus_write (cpu_bus (cpus m h)) a v n m")
  case (Inr m')
  then show ?thesis using no_serial_core [OF assms] bus_write_core by fastforce
next
  case (Inl e)
  have "no_serial h (snd (get_avail_idx m))" by (rule no_serial_core [OF assms]) (rule get_avail_idx_core)
  from no_lock_queue [OF this] have "sat (\<lambda>_. True) returns (virtio_mmio_write off v m)" for off
    by (auto simp: virtio_mmio_write_def process_queue_def Let_def case_prod_beta intro: sat_imp)
  then have "d \<noteq> Dev_UART \<Longrightarrow> sat (\<lambda>_. True) returns (device_write d off v n m)" for d off
    by (cases d) (simp_all add: ram_write_def block_store_def returns_def)
  moreover have "r_dev r \<noteq> Dev_UART" if "find (in_region a) (regions (cpu_bus (cpus m h))) = Some r" for r
    using assms that by (auto simp: no_serial_def find_Some_iff)
  ultimately have "sat (\<lambda>_. True) returns (bus_write (cpu_bus (cpus m h)) a v n m)"
    by (simp add: bus_write_def block_store_def returns_def split: option.split)
  with Inl show ?thesis by simp
qed

interpretation no_lock: machine_inv h "no_serial h" returns for h
proof
  fix m :: machine and a n v and f :: "CPU_State \<Rightarrow> CPU_State"
  assume b: "no_serial h m"
  show "no_serial h (upd_cpu h f m)" if "reg_ok f"
    using that b by (auto simp: no_serial_def reg_ok_def stat_def)
  show "no_serial h (snd (memory_read a n m))"
    by (rule no_serial_core [OF b]) (rule memory_read_core)
  show "sat (\<lambda>(v, m'). no_serial h m') returns (bus_read (cpu_bus (cpus m h)) a n m)"
    by (rule no_lock_read [OF b]) simp
  show "sat (no_serial h) returns (bus_write (cpu_bus (cpus m h)) a v n m)" by (rule no_lock_write [OF b])
qed (simp add: returns_def)

lemma no_serial_counters: "no_serial h m \<Longrightarrow> no_serial h (run_check h (step_counters h m))"
proof -
  have "cpu_bus (cpus (run_check h (step_counters h m)) k) = cpu_bus (cpus m k)" for k
  proof -
    have "cpu_bus (cpus (clint_tick h n m) k) = cpu_bus (cpus m k)" for n m
      by (rule coreD(14)) (rule clint_tick_cpu_frame)
    then have "cpu_bus (cpus (step_counters h m) k) = cpu_bus (cpus m k)" for m
      by (cases "k = h") (simp_all add: step_counters_def Let_def)
    moreover have "cpu_bus (cpus (run_check h m) k) = cpu_bus (cpus m k)" for m
      by (cases "k = h") (simp_all add: run_check_def)
    ultimately show ?thesis by simp
  qed
  then show "no_serial h m \<Longrightarrow> no_serial h (run_check h (step_counters h m))" by (simp add: no_serial_def)
qed

lemma no_serial_runs: "hart_runs h m n m1 \<Longrightarrow> no_serial h m \<Longrightarrow> no_serial h m1"
proof (induction rule: hart_runs.induct)
  case (again n m1 m')
  with no_lock.cpu_step_sat [where Q = "\<lambda>m. no_serial h (run_check h m)" and h = h and m = m1] no_serial_counters
  show ?case by auto
qed simp

text \<open>
  C16. How \<open>cpu_run\<close> ends, from every state of the machine. After at most 1002 iterations (1001
  minus the counter, if the counter had not passed 1000) the loop reaches a state in which the hart has stopped,
  which \<open>cpu_run\<close> returns, or in which the next instruction does not come back: then the process
  ends with that fault, or, if the instruction waits for the lock of the serial device, \<open>cpu_run\<close>
  never returns. With no serial device on the bus it always returns or the process ends.
\<close>

theorem cpu_run_terminates:
  "(\<exists>n m1. n \<le> 1002 \<and> hart_runs h m n m1 \<and> inst_count (cpus m1 h) = inst_count (cpus m h) + of_nat n \<and>
      (inst_count (cpus m h) \<le> 1000 \<longrightarrow> n + unat (inst_count (cpus m h)) \<le> 1001) \<and>
      (if running (cpus m1 h)
       then \<exists>e. cpu_step h m1 = Inl e \<and> cpu_run h m = (if e = Deadlock then None else Some (Inl e))
       else cpu_run h m = Some (Inr m1))) \<and>
   ((\<forall>r\<in>set (regions (cpu_bus (cpus m h))) \<union> set (regions (cpu_bus (cpus m 0))). r_dev r \<noteq> Dev_UART) \<longrightarrow>
      cpu_run h m \<noteq> None)"
proof -
  have "\<exists>n m1. run_ends h m n m1 \<and> n \<le> 1002 \<and>
      (inst_count (cpus m h) \<le> 1000 \<longrightarrow> n + unat (inst_count (cpus m h)) \<le> 1001)"
  proof (cases "inst_count (cpus m h) \<le> 1000")
    case True
    then have u: "unat (inst_count (cpus m h)) + (1000 - unat (inst_count (cpus m h))) = 1000"
      by (simp add: word_le_nat_alt)
    from run_ends_within [OF u] obtain n m1
      where n: "n \<le> Suc (1000 - unat (inst_count (cpus m h)))" "run_ends h m n m1" by blast
    with u have "n \<le> 1002" "n + unat (inst_count (cpus m h)) \<le> 1001" by simp_all
    with n show ?thesis by blast
  next
    case False
    with run_ends_bounded [of h m] show ?thesis by blast
  qed
  then obtain n m1 where n: "run_ends h m n m1" "n \<le> 1002"
    "inst_count (cpus m h) \<le> 1000 \<longrightarrow> n + unat (inst_count (cpus m h)) \<le> 1001" by blast
  then have r: "hart_runs h m n m1" by (simp add: run_ends_def)
  have e: "if running (cpus m1 h)
       then \<exists>e. cpu_step h m1 = Inl e \<and> cpu_run h m = (if e = Deadlock then None else Some (Inl e))
       else cpu_run h m = Some (Inr m1)"
  proof (cases "running (cpus m1 h)")
    case False
    then show ?thesis unfolding cpu_run_iterations [OF r] by (subst cpu_run.simps) simp
  next
    case True
    with n(1) obtain e where e: "cpu_step h m1 = Inl e" by (auto simp: run_ends_def)
    with True have "cpu_run h m1 = (if e = Deadlock then None else Some (Inl e))" by (subst cpu_run.simps) simp
    with True e show ?thesis unfolding cpu_run_iterations [OF r] by simp
  qed
  have "cpu_run h m \<noteq> None" if "no_serial h m"
  proof -
    from no_serial_runs [OF r that] no_lock.cpu_step_sat [where Q = "\<lambda>_. True" and h = h and m = m1]
    have "cpu_step h m1 \<noteq> Inl Deadlock" by (auto simp: returns_def)
    with e show ?thesis by (auto split: if_splits)
  qed
  then show ?thesis
    using n r e hart_runs_inst [OF r] by (intro conjI exI [of _ n] exI [of _ m1] impI) (simp_all add: no_serial_def)
qed

text \<open>A hart with an empty bus and zeroed memory: \<open>cpu_run\<close> returns.\<close>

theorem cpu_run_terminates_witness:
  "cpu_run 0 (upd_cpu 0 (\<lambda>c. c\<lparr>running := True\<rparr>) blank) \<noteq> None"
proof -
  have "regions (cpu_bus (cpus (upd_cpu 0 (\<lambda>c. c\<lparr>running := True\<rparr>) blank) 0)) = []" by (simp add: zero_defs)
  then show ?thesis using cpu_run_terminates [of 0 "upd_cpu 0 (\<lambda>c. c\<lparr>running := True\<rparr>) blank"] by simp
qed

section \<open>The serial device\<close>

text \<open>
  The indices of both rings stay inside their arrays, the receive count within the capacity, and
  the transmit ring empty. The queues themselves are no invariant: a write of 4 to \<open>FCR\<close> moves
  the receive tail.
\<close>

definition uart_safe :: "UARTDevice \<Rightarrow> bool" where
  "uart_safe u \<longleftrightarrow> u_rx_head u < 1024 \<and> u_rx_tail u < 1024 \<and> u_rx_count u \<le> 1024 \<and>
     u_tx_head u < 1024 \<and> u_tx_tail u < 1024 \<and> u_tx_count u = 0"

lemma mod_1024_less: "(x :: u32) mod 1024 < 1024"
  by (simp add: word_less_nat_alt unat_mod)

lemma uart_safe_locked [simp]: "uart_safe (u\<lparr>u_locked := l\<rparr>) = uart_safe u"
  by (simp add: uart_safe_def)

lemma uart_safe_lock: "sat (\<lambda>m'. uart_safe (g_uart m') = uart_safe (g_uart m) \<and> u_locked (g_uart m')) (\<lambda>_. True) (uart_lock m)"
  by (simp add: uart_lock_def)

lemma uart_safe_write_reg: "uart_safe (g_uart m) \<Longrightarrow> uart_safe (g_uart (uart_write_reg off v m))"
  by (simp add: uart_write_reg_def Let_def uart_start_tx_def uart_tx_complete_uart uart_update_baud_def
      uart_write_fcr_def uart_safe_def frame)

lemma uart_safe_write:
  assumes "uart_safe (g_uart m)"
  shows "sat (\<lambda>m'. uart_safe (g_uart m')) (\<lambda>_. True) (mmio_write off v m)"
  unfolding mmio_write_def uart_mmio_write_def Let_def
  by (intro sat_if, rule sat_rbind [OF uart_safe_lock])
    (use assms in \<open>simp_all add: uart_safe_write_reg frame\<close>)

text \<open>Reading \<open>RBR\<close> would move the ring, but the nested lock never lets it return.\<close>

lemma rx_buf_pop_locked: "u_locked (g_uart m) \<Longrightarrow> rx_buf_pop m = Inl Deadlock"
  by (simp add: rx_buf_pop_def uart_lock_def)

lemma uart_safe_read:
  assumes "uart_safe (g_uart m)"
  shows "sat (\<lambda>(v, m'). uart_safe (g_uart m')) (\<lambda>_. True) (mmio_read off n m)"
  unfolding mmio_read_def uart_mmio_read_def Let_def
  by (rule sat_rbind [OF uart_safe_lock]) (use assms in \<open>simp add: rx_buf_pop_locked\<close>)

lemma uart_safe_accept:
  assumes "uart_safe u"
  shows "uart_safe (rx_accept b u)"
proof -
  have c: "u_rx_count u + 1 \<le> 1024" if "\<not> 1024 \<le> u_rx_count u" using that by unat_arith
  have f: "1024 \<le> u_rx_count u \<Longrightarrow> u_rx_count u = 1024" using assms by (simp add: uart_safe_def)
  show ?thesis
    using assms c f
    by (auto simp: rx_accept_def rx_put_def rx_drop_def rx_buf_is_full_def uart_safe_def mod_1024_less)
qed

lemma uart_safe_push:
  assumes "uart_safe (g_uart m)"
  shows "sat (\<lambda>m'. uart_safe (g_uart m')) (\<lambda>_. True) (rx_buf_push b m)"
proof (cases "u_locked (g_uart m)")
  case True
  then show ?thesis by (simp add: rx_buf_push_def uart_lock_def)
next
  case False
  have "uart_safe (rx_pushed b (g_uart m))"
    using uart_safe_accept [OF assms, of b] by (simp add: rx_pushed_def uart_safe_def)
  then show ?thesis
    unfolding rx_buf_push_eq [OF False] Let_def by (simp add: frame)
qed

lemma uart_safe_bus_read:
  assumes "uart_safe (g_uart m)"
  shows "sat (\<lambda>(v, m'). uart_safe (g_uart m')) (\<lambda>_. True) (bus_read b a n m)"
proof -
  have "sat (\<lambda>(v, m'). uart_safe (g_uart m')) (\<lambda>_. True) (device_read d off n m)" for d off
  proof (cases d)
    case Dev_UART
    then show ?thesis
      unfolding Dev_UART device_read.simps by (intro sat_rbind_pair [OF uart_safe_read [OF assms]]) simp
  qed (use assms plic_read_frame(2) [of off m] in \<open>auto simp: case_prod_beta\<close>)
  with assms show ?thesis by (simp add: bus_read_def block_load_def split: option.split)
qed

lemma uart_safe_queue:
  "uart_safe (g_uart m) \<Longrightarrow> sat (\<lambda>m'. uart_safe (g_uart m')) (\<lambda>_. True) (process_queue_loop l p m)"
proof (induction l p m rule: process_queue_loop.induct)
  case (1 l p m)
  have "sat (\<lambda>m'. uart_safe (g_uart m')) (\<lambda>_. True) (process_queue_step p m)"
    unfolding process_queue_step_def Let_def
    by (intro sat_if, simp, rule sat_rbind_pair [OF uart_safe_bus_read [OF "1.prems"]]) (simp add: frame)
  with 1 show ?case by (subst process_queue_loop.simps) (auto intro: sat_rbind)
qed

lemma uart_safe_bus_write:
  assumes "uart_safe (g_uart m)"
  shows "sat (\<lambda>m'. uart_safe (g_uart m')) (\<lambda>_. True) (bus_write b a v n m)"
proof -
  have "uart_safe (g_uart (snd (get_avail_idx m)))" using assms by (simp add: frame)
  then have "sat (\<lambda>m'. uart_safe (g_uart m')) (\<lambda>_. True) (virtio_mmio_write off v m)" for off
    using assms
    by (simp add: virtio_mmio_write_def process_queue_def Let_def uart_safe_queue case_prod_beta)
  then have "sat (\<lambda>m'. uart_safe (g_uart m')) (\<lambda>_. True) (device_write d off v n m)" for d off
    by (cases d) (use assms in \<open>simp_all add: frame uart_safe_write ram_write_def block_store_def\<close>)
  with assms show ?thesis by (simp add: bus_write_def block_store_def frame split: option.split)
qed

section \<open>The whole emulator\<close>

text \<open>Hart 0 after \<open>c\<close> instructions with the clock at \<open>t\<close>, and the serial device within its bounds.\<close>

definition books :: "u64 \<Rightarrow> u64 \<Rightarrow> machine \<Rightarrow> bool" where
  "books c t m \<longleftrightarrow> cycle_count (cpus m 0) = c \<and> inst_count (cpus m 0) = c \<and> cpu_bus (cpus m 0) = emu_bus \<and>
     mtime (clint (cpus m 0)) = t \<and> legal (cpus m 0) \<and> uart_safe (g_uart m)"

lemma books_cong:
  assumes "books c t m" "core (cpus m' 0) = core (cpus m 0)" "clint (cpus m' 0) = clint (cpus m 0)"
    "uart_safe (g_uart m')"
  shows "books c t m'"
  using assms coreD [OF assms(2)] by (simp add: books_def legal_def)

lemma books_frame: "books c t m \<Longrightarrow> core (cpus m' 0) = core (cpus m 0) \<Longrightarrow> clint (cpus m' 0) = clint (cpus m 0) \<Longrightarrow>
    g_uart m' = g_uart m \<Longrightarrow> books c t m'"
  by (rule books_cong) (simp_all add: books_def)

interpretation emu: emu_inv "books c t" "\<lambda>_. True" for c t
proof
  fix m :: machine and a v :: u64 and n :: nat
  assume b: "books c t m"
  then have u: "uart_safe (g_uart m)" and e: "cpu_bus (cpus m 0) = emu_bus" by (simp_all add: books_def)
  show "sat (\<lambda>(v, m'). books c t m') (\<lambda>_. True) (bus_read (cpu_bus (cpus m 0)) a n m)"
  proof (cases "bus_read (cpu_bus (cpus m 0)) a n m")
    case (Inr p)
    obtain w m' where p: "p = (w, m')" by (cases p)
    from uart_safe_bus_read [OF u, of "cpu_bus (cpus m 0)" a n] Inr p have "uart_safe (g_uart m')" by simp
    with bus_read_frame [of "cpu_bus (cpus m 0)" a n m w m' 0] Inr p books_cong [OF b] show ?thesis by simp
  qed simp
  show "sat (books c t) (\<lambda>_. True) (bus_write (cpu_bus (cpus m 0)) a v n m)"
  proof (cases "bus_write (cpu_bus (cpus m 0)) a v n m")
    case (Inr m')
    from uart_safe_bus_write [OF u, of "cpu_bus (cpus m 0)" a v n] Inr have "uart_safe (g_uart m')" by simp
    with bus_write_core [OF Inr, of 0] emu_bus_write_clint [OF Inr [unfolded e], of 0] books_cong [OF b] Inr
    show ?thesis by simp
  qed simp
  show "books c t (snd (memory_read a n m))" by (rule books_frame [OF b]) (simp_all add: frame)
  show "books c t (memory_write a v n m)" by (rule books_frame [OF b]) (simp_all add: frame)
next
  fix m :: machine and f b ops irq l
  assume b: "books c t m"
  show "books c t (upd_cpu 0 f m)" if "reg_ok f"
    using b that by (auto simp: books_def reg_ok_def stat_def)
  show "books c t (m\<lparr>bc := b\<rparr>)" "books c t (m\<lparr>pending_ops := ops\<rparr>)"
    by (rule books_frame [OF b]; simp)+
  show "books c t (plic_set_irq irq l m)" by (rule books_frame [OF b]) (simp_all add: frame)
next
  show "books c t m \<Longrightarrow> books c t (upd_dev f m)" for m f by (rule books_frame) simp_all
qed simp_all

text \<open>One instruction moves the books by one, and the clock with every hundredth.\<close>

definition tick :: "u64 \<Rightarrow> u64 \<Rightarrow> u64" where
  "tick c t = (if c mod 100 = 0 then t + 1 else t)"

lemma clint_tick_mtime: "mtime (clint (cpus (clint_tick h 1 m) h)) = mtime (clint (cpus m h)) + 1"
  by (simp add: clint_tick_def clint_update_interrupts_def Let_def upd_clint_simps)

lemma books_step:
  assumes "books c t m"
  shows "books (c + 1) (tick (c + 1) t) (step_counters 0 m)"
proof -
  let ?m1 = "upd_cpu 0 (\<lambda>c. c\<lparr>cycle_count := cycle_count c + 1\<rparr>) m"
  let ?m2 = "if (c + 1) mod 100 = 0 then clint_tick 0 1 ?m1 else ?m1"
  have c: "core (cpus ?m2 0) = core (cpus ?m1 0)" by (simp add: frame)
  have g: "g_uart ?m2 = g_uart m" by (simp add: frame)
  have t: "mtime (clint (cpus ?m2 0)) = tick (c + 1) t"
    using assms by (simp add: tick_def clint_tick_mtime books_def)
  have e: "step_counters 0 m = upd_cpu 0 (\<lambda>c. c\<lparr>csr := (csr c)(CSR_TIME := csr c CSR_TIME + 10),
      inst_count := inst_count c + 1\<rparr>) ?m2"
    using assms by (simp add: step_counters_def Let_def books_def)
  show ?thesis
    unfolding e using assms t g coreD [OF c] by (simp add: books_def legal_def)
qed

lemma books_turn: "books c t m \<Longrightarrow> main_turn m = Inr m' \<Longrightarrow> books (c + 1) (tick (c + 1) t) m'"
  using main_turn_sat [OF emu.machine_inv_axioms emu.emu_inv_axioms _ books_step, of c t m]
  by simp

lemma books_rx: "books c t m \<Longrightarrow> rx_buf_push b m = Inr m' \<Longrightarrow> books c t m'"
proof (rule books_cong)
  assume b: "books c t m" and r: "rx_buf_push b m = Inr m'"
  then have l: "\<not> u_locked (g_uart m)" by (cases "u_locked (g_uart m)") (simp_all add: rx_buf_push_def uart_lock_def)
  from r show "core (cpus m' 0) = core (cpus m 0)" "clint (cpus m' 0) = clint (cpus m 0)"
    unfolding rx_buf_push_eq [OF l] by (auto simp: Let_def frame)
  show "uart_safe (g_uart m')"
    by (rule satD [OF uart_safe_push r]) (use b in \<open>simp add: books_def\<close>)
qed

lemma books_tx: "books c t m \<Longrightarrow> uart_tx_thread m = Inr m' \<Longrightarrow> books c t m'"
proof (rule books_cong)
  assume b: "books c t m" and r: "uart_tx_thread m = Inr m'"
  then have "u_tx_count (g_uart m) = 0" by (simp add: books_def uart_safe_def)
  with r have m': "\<not> u_locked (g_uart m)" "m' = uart_unlock (upd_uart (\<lambda>u. u\<lparr>u_locked := True\<rparr>) m)"
    by (auto simp: uart_tx_thread_def uart_lock_def tx_buf_is_empty_def split: if_splits)
  then show "core (cpus m' 0) = core (cpus m 0)" "clint (cpus m' 0) = clint (cpus m 0)" "uart_safe (g_uart m')"
    using b by (simp_all add: lock_unlock_id books_def)
qed

lemma books_console: "console_step m m' \<Longrightarrow> books c t m \<Longrightarrow> books c t m'"
proof (induction rule: console_step.induct)
  case (rx b m m')
  show ?case
  proof (cases "b = 0x04")
    case True
    with rx.hyps have "m' = upd_cpu 0 (\<lambda>c. c\<lparr>running := False\<rparr>) m" by simp
    with emu.inv_cpu [OF rx.prems, of "\<lambda>c. c\<lparr>running := False\<rparr>"] show ?thesis by simp
  next
    case False
    with rx show ?thesis by (auto simp: rbind_Inr_iff books_rx)
  qed
next
  case (tx m m')
  then show ?case using books_tx by blast
qed

lemma Suc_mod_100:
  assumes "Suc n < 2 ^ 64"
  shows "(of_nat n + 1 :: u64) mod 100 = 0 \<longleftrightarrow> Suc n mod 100 = 0"
proof -
  have "unat (of_nat (Suc n) :: u64) = Suc n"
    using assms by (simp add: unsigned_of_nat take_bit_nat_eq_self del: of_nat_Suc)
  then have "unat ((of_nat (Suc n) :: u64) mod 100) = Suc n mod 100" by (simp add: unat_mod del: of_nat_Suc)
  then show ?thesis by (simp add: unat_eq_0 [symmetric] add.commute)
qed

lemma runs_books: "runs m0 n m \<Longrightarrow> books 0 0 m0 \<Longrightarrow> n < 2 ^ 64 \<Longrightarrow> books (of_nat n) (of_nat (n div 100)) m"
proof (induction rule: runs.induct)
  case (turn n m m')
  have "tick (of_nat n + 1) (of_nat (n div 100)) = of_nat (Suc n div 100)"
    unfolding tick_def Suc_mod_100 [OF turn.prems(2)] by (simp add: div_Suc)
  with books_turn [OF turn.IH turn.hyps(4)] turn.prems show ?case by (simp add: add.commute)
qed (simp_all add: books_console)

section \<open>Booting\<close>

lemma plic_init_frame: "rest (plic_init m) = rest m" "g_uart (plic_init m) = g_uart m"
proof -
  have e: "rest (plic_set_enable i c b n) = rest n" "g_uart (plic_set_enable i c b n) = g_uart n" for i c b n
    by (simp_all add: plic_set_enable_def Let_def frame)
  show "rest (plic_init m) = rest m" "g_uart (plic_init m) = g_uart m"
    unfolding plic_init_chain e plic_defaults_def by simp_all
qed

text \<open>The machine \<open>main\<close> enters its loop with.\<close>

definition booted :: "u8 list \<Rightarrow> u64 \<Rightarrow> machine \<Rightarrow> machine \<Rightarrow> bool" where
  "booted img entry m m0 \<longleftrightarrow> pc (cpus m0 0) = entry \<and> privilege (cpus m0 0) = 3 \<and> gpr (cpus m0 0) = (\<lambda>_. 0) \<and>
     running (cpus m0 0) \<and> \<not> halted (cpus m0 0) \<and> memory m0 = memory m \<and> gbus m0 = emu_bus \<and>
     d_disk_len (dev m0) = length img \<and> (\<forall>i < length img. d_disk_data (dev m0) (of_nat i) = img ! i)"

lemma main_init_boots:
  assumes "gbus m = \<lparr>regions = []\<rparr>" and "length img < 2 ^ 64"
  shows "\<exists>m0. main_init (Some img) entry m = Some (Inr m0) \<and> booted img entry m m0 \<and> books 0 0 m0"
proof -
  let ?d = "(dev m)\<lparr>d_disk_data := (\<lambda>a. if unat a < length img then img ! unat a else 0),
          d_disk_len := length img, d_disk_size_sectors := of_nat (length img div 512),
          d_avail_ring := 0x10001000, d_queue_num := 8, d_queue_ready := 0, d_desc_addr := 0,
          d_used_ring := 0\<rparr>"
  let ?p = "plic_init (m\<lparr>dev := ?d, g_uart := uart_create UART_IRQ_NUM\<rparr>)"
  have r: "memory ?p = memory m" "dev ?p = ?d" "g_uart ?p = uart_create UART_IRQ_NUM"
    using restD [OF plic_init_frame(1)] plic_init_frame(2) by simp_all
  have u: "uart_safe (uart_create UART_IRQ_NUM)"
    by (simp add: uart_safe_def uart_create_def uart_init_def zero_uart_def)
  have i: "unat (of_nat k :: u64) = k" if "k < length img" for k
    using that assms(2) by (simp add: unsigned_of_nat take_bit_nat_eq_self)
  show ?thesis
    by (simp add: main_init_def virtio_blk_init_def bus_register_mmio_def assms(1) Let_def cpu_init_def
        booted_def books_def emu_bus_def r u i legal_def tlb_flush_def zero_cpu_def clint_init_def zero_clint_def)
qed

text \<open>Whatever the kernel, the loop starts with fresh books.\<close>

lemma main_start_books:
  assumes "gbus m = \<lparr>regions = []\<rparr>" "length img < 2 ^ 64" "main_start kern (Some img) u m = Some (Inr m0)"
  shows "books 0 0 m0"
proof (cases "load_elf64_SBI kern u (init_memory m)")
  case (Inr r)
  obtain k e m1 where r: "r = (k, e, m1)" by (cases r)
  have "gbus m1 = \<lparr>regions = []\<rparr>"
    using load_elf64_gbus [OF Inr [unfolded r]] assms(1) by (simp add: init_memory_def)
  from main_init_boots [OF this assms(2), of e] assms(3) Inr r show ?thesis by (auto simp: main_start_def)
qed (use assms(3) in \<open>simp add: main_start_def\<close>)

lemma main_start_kernel:
  assumes "gbus m = \<lparr>regions = []\<rparr>" "length img < 2 ^ 64"
    and "read_ehdr64 f = Some eh" "elf64_ok eh" "length f < 2 ^ 63" "\<forall>ph\<in>set (segments f eh). seg_ok f eh ph"
  shows "\<exists>m0. main_start (Some f) (Some img) u m = Some (Inr m0) \<and>
    booted img (elf64_entry eh) (fold (place f eh) (segments f eh) (init_memory m)) m0"
proof -
  let ?m1 = "fold (place f eh) (segments f eh) (init_memory m)"
  have l: "load_elf64_SBI (Some f) u (init_memory m) = Inr (int (length (segments f eh)), elf64_entry eh, ?m1)"
    using load_elf64_ok [OF assms(3-6), of u "init_memory m"] by (simp flip: place_frame)
  have "gbus ?m1 = \<lparr>regions = []\<rparr>" using load_elf64_gbus [OF l] assms(1) by (simp add: init_memory_def)
  from main_init_boots [OF this assms(2), of "elf64_entry eh"] l show ?thesis by (auto simp: main_start_def)
qed

text \<open>A machine before anything ran: no device is registered yet.\<close>

definition powered_on :: machine where
  "powered_on = blank\<lparr>gbus := \<lparr>regions = []\<rparr>\<rparr>"

lemma powered_on_gbus: "gbus powered_on = \<lparr>regions = []\<rparr>"
  by (simp add: powered_on_def)

text \<open>
  C22. With a disk image and a 64-bit RISC-V kernel whose loadable segments lie in guest memory and in the
  file, \<open>main\<close> reaches its loop: hart 0 runs at the kernel's entry point in machine mode, with all registers 0,
  guest memory holds what the last segment covering an address has there and 0 everywhere else, the
  five devices are on the bus in order, and the disk holds the image byte for byte.
\<close>

theorem main_boots:
  assumes "gbus m = \<lparr>regions = []\<rparr>" "length img < 2 ^ 64"
    and "read_ehdr64 f = Some eh" "elf64_ok eh" "length f < 2 ^ 63" "\<forall>ph\<in>set (segments f eh). seg_ok f eh ph"
  shows "\<exists>m0. main_start (Some f) (Some img) u m = Some (Inr m0) \<and>
    pc (cpus m0 0) = elf64_entry eh \<and> privilege (cpus m0 0) = 3 \<and> (\<forall>r. gpr (cpus m0 0) r = 0) \<and>
    running (cpus m0 0) \<and> \<not> halted (cpus m0 0) \<and> gbus m0 = emu_bus \<and>
    (\<forall>i pa. i < length (segments f eh) \<and> covers eh (segments f eh ! i) pa \<and>
       (\<forall>j. i < j \<and> j < length (segments f eh) \<longrightarrow> \<not> covers eh (segments f eh ! j) pa) \<longrightarrow>
       memory m0 (pa - MEMORY_BASE) = seg_byte f eh (segments f eh ! i) pa) \<and>
    (\<forall>pa. (\<forall>ph\<in>set (segments f eh). \<not> covers eh ph pa) \<longrightarrow> memory m0 (pa - MEMORY_BASE) = 0) \<and>
    d_disk_len (dev m0) = length img \<and> (\<forall>i < length img. d_disk_data (dev m0) (of_nat i) = img ! i)"
proof -
  from main_start_kernel [OF assms, of u] obtain m0 where
    m0: "main_start (Some f) (Some img) u m = Some (Inr m0)"
      "booted img (elf64_entry eh) (fold (place f eh) (segments f eh) (init_memory m)) m0" by blast
  then show ?thesis
    by (intro exI [of _ m0]) (simp add: booted_def place_last place_none, simp add: init_memory_def)
qed

theorem main_boots_witness:
  "\<exists>m0. main_start (Some tiny_kernel) (Some [1, 2, 3]) 0 powered_on = Some (Inr m0) \<and> pc (cpus m0 0) = 0x80000000 \<and>
     d_disk_data (dev m0) 2 = 3"
proof -
  have l: "length [1, 2, 3 :: u8] < 2 ^ 64" by simp
  have s: "\<forall>ph\<in>set (segments tiny_kernel tiny_ehdr). seg_ok tiny_kernel tiny_ehdr ph" using tiny_kernel_ok by simp
  have e: "elf64_entry tiny_ehdr = 0x80000000" by (simp add: elf64_entry_def tiny_ehdr_def)
  from main_boots [OF powered_on_gbus l tiny_kernel_ok(1-3) s, of 0] obtain m0 where
    "main_start (Some tiny_kernel) (Some [1, 2, 3]) 0 powered_on = Some (Inr m0)" "pc (cpus m0 0) = elf64_entry tiny_ehdr"
    "\<forall>i < length [1, 2, 3 :: u8]. d_disk_data (dev m0) (of_nat i) = [1, 2, 3] ! i" by blast
  with e show ?thesis by (auto dest: spec [of _ 2])
qed

text \<open>
  Well-typed machines: the privilege mode is one of the three the architecture has, the hart is on
  the bus of \<open>main\<close>, its two counters agree, and the serial device indexes its arrays within their
  bounds. The record types do not say so: the mode is a C integer, the indices are 32-bit words.
\<close>

definition well_typed :: "machine \<Rightarrow> bool" where
  "well_typed m \<longleftrightarrow> legal (cpus m 0) \<and> cpu_bus (cpus m 0) = emu_bus \<and>
     cycle_count (cpus m 0) = inst_count (cpus m 0) \<and> uart_safe (g_uart m)"

lemma well_typed_books: "well_typed m \<longleftrightarrow> (\<exists>c t. books c t m)"
  by (auto simp: well_typed_def books_def)

text \<open>
  C14. Every step of the emulator keeps the type of the machine, from any well-typed machine, whatever
  its memory, its page tables, its CSRs and the state of its devices: a turn of the main loop (one
  instruction of any encoding, the pass of the disk, the interrupt check) and a round of
  either console thread.
\<close>

theorem step_keeps_type:
  assumes "well_typed m" and "main_turn m = Inr m' \<or> console_step m m'"
  shows "well_typed m'"
  using assms books_turn books_console unfolding well_typed_books by blast

text \<open>The key that stops the hart, typed at a machine whose memory is empty.\<close>

theorem step_keeps_type_witness:
  "\<exists>m'. console_step (upd_cpu 0 (\<lambda>c. c\<lparr>cpu_bus := emu_bus\<rparr>) blank) m' \<and> \<not> running (cpus m' 0) \<and> well_typed m'"
proof -
  let ?m = "upd_cpu 0 (\<lambda>c. c\<lparr>cpu_bus := emu_bus\<rparr>) blank"
  have "console_step ?m (upd_cpu 0 (\<lambda>c. c\<lparr>running := False\<rparr>) ?m)"
    by (rule rx [of 4]) simp
  moreover have "well_typed ?m"
    by (simp add: well_typed_def legal_def uart_safe_def blank_def zero_machine_def zero_cpu_def zero_uart_def)
  ultimately show ?thesis using step_keeps_type [of ?m] by (intro exI) auto
qed

text \<open>
  C13. The invariant of the running emulator, for any kernel file: after \<open>n\<close> turns of the main loop,
  interleaved with any steps of the console threads and whatever the guest executed, both counters
  of the hart say \<open>n\<close>, the clock shows one tick for every hundred instructions, the hart is on
  the bus \<open>main\<close> built and in one of the three privilege modes, and every index of the serial
  device is inside its array, with nothing left in the transmit ring.
\<close>

theorem emulator_invariant:
  assumes "gbus m = \<lparr>regions = []\<rparr>" "length img < 2 ^ 64"
    and "main_start kern (Some img) u m = Some (Inr m0)" "runs m0 n m'" "n < 2 ^ 64"
  shows "inst_count (cpus m' 0) = of_nat n \<and> cycle_count (cpus m' 0) = of_nat n \<and>
    mtime (clint (cpus m' 0)) = of_nat (n div 100) \<and>
    cpu_bus (cpus m' 0) = emu_bus \<and> privilege (cpus m' 0) \<in> {0, 1, 3} \<and>
    u_rx_head (g_uart m') < 1024 \<and> u_rx_tail (g_uart m') < 1024 \<and> u_rx_count (g_uart m') \<le> 1024 \<and>
    u_tx_head (g_uart m') < 1024 \<and> u_tx_tail (g_uart m') < 1024 \<and> u_tx_count (g_uart m') = 0"
  using runs_books [OF assms(4) main_start_books [OF assms(1-3)] assms(5)]
  by (simp add: books_def legal_def uart_safe_def)

theorem emulator_invariant_witness:
  "\<exists>m0. main_start (Some tiny_kernel) (Some []) 0 powered_on = Some (Inr m0) \<and> u_rx_count (g_uart m0) \<le> 1024"
proof -
  have l: "length ([] :: u8 list) < 2 ^ 64" by simp
  have s: "\<forall>ph\<in>set (segments tiny_kernel tiny_ehdr). seg_ok tiny_kernel tiny_ehdr ph" using tiny_kernel_ok by simp
  from main_start_kernel [OF powered_on_gbus l tiny_kernel_ok(1-3) s, of 0] obtain m0 where
    m0: "main_start (Some tiny_kernel) (Some []) 0 powered_on = Some (Inr m0)" by blast
  from emulator_invariant [OF powered_on_gbus l m0 runs.start] m0 show ?thesis by simp
qed

end
