(* ===== verification/Encoding.thy ===== *)
theory Encoding
  imports Decode
begin

text \<open>
  The instruction formats of the architecture, as functions from fields to words, written
  independently of the emulator; and the lemmas that say which fields and immediates the
  handlers take out of a word of each format. Branch and jump offsets are given in halfwords.
\<close>

section \<open>Formats\<close>

definition enc_r :: "7 word \<Rightarrow> 5 word \<Rightarrow> 5 word \<Rightarrow> 3 word \<Rightarrow> 5 word \<Rightarrow> 7 word \<Rightarrow> u32" where
  "enc_r f7 rs2 rs1 f3 rd op = push_bit 25 (ucast f7) OR push_bit 20 (ucast rs2) OR push_bit 15 (ucast rs1) OR
     push_bit 12 (ucast f3) OR push_bit 7 (ucast rd) OR ucast op"

definition enc_i :: "12 word \<Rightarrow> 5 word \<Rightarrow> 3 word \<Rightarrow> 5 word \<Rightarrow> 7 word \<Rightarrow> u32" where
  "enc_i imm rs1 f3 rd op = enc_r (ucast (drop_bit 5 imm)) (ucast imm) rs1 f3 rd op"

definition enc_s :: "12 word \<Rightarrow> 5 word \<Rightarrow> 5 word \<Rightarrow> 3 word \<Rightarrow> 7 word \<Rightarrow> u32" where
  "enc_s imm rs2 rs1 f3 op = enc_r (ucast (drop_bit 5 imm)) rs2 rs1 f3 (ucast imm) op"

definition enc_b :: "12 word \<Rightarrow> 5 word \<Rightarrow> 5 word \<Rightarrow> 3 word \<Rightarrow> 7 word \<Rightarrow> u32" where
  "enc_b off rs2 rs1 f3 op =
     enc_r (ucast (push_bit 6 (drop_bit 11 off) OR take_bit 6 (drop_bit 4 off))) rs2 rs1 f3
       (ucast (push_bit 1 (take_bit 4 off) OR take_bit 1 (drop_bit 10 off))) op"

definition enc_u :: "20 word \<Rightarrow> 5 word \<Rightarrow> 7 word \<Rightarrow> u32" where
  "enc_u imm rd op = push_bit 12 (ucast imm) OR push_bit 7 (ucast rd) OR ucast op"

definition enc_j :: "20 word \<Rightarrow> 5 word \<Rightarrow> 7 word \<Rightarrow> u32" where
  "enc_j off rd op =
     enc_u (push_bit 19 (drop_bit 19 off) OR push_bit 9 (take_bit 10 off) OR
            push_bit 8 (take_bit 1 (drop_bit 10 off)) OR take_bit 8 (drop_bit 11 off)) rd op"

section \<open>Fields\<close>

lemma mask_consts:
  "(0x1F :: u32) = mask 5" "(0x7 :: u32) = mask 3" "(0x7F :: u32) = mask 7" "(0x3 :: u32) = mask 2"
  "(0xFFF :: u32) = mask 12" "(0x3F :: u32) = mask 6" "(0xF :: u32) = mask 4" "(0x1 :: u32) = mask 1"
  "(0xFF :: u32) = mask 8" "(0x3FF :: u32) = mask 10" "(0xFFFFF000 :: u32) = push_bit 12 (mask 20)"
  "(0xFFF00000 :: u32) = push_bit 20 (mask 12)"
  by (simp_all add: mask_eq_exp_minus_1 push_bit_eq_mult)

lemma bit_enc_r:
  "bit (enc_r f7 rs2 rs1 f3 rd op) n \<longleftrightarrow>
     (if n < 7 then bit op n else if n < 12 then bit rd (n - 7) else if n < 15 then bit f3 (n - 12)
      else if n < 20 then bit rs1 (n - 15) else if n < 25 then bit rs2 (n - 20) else bit f7 (n - 25))"
proof -
  have z: "7 \<le> k \<Longrightarrow> \<not> bit op k" "5 \<le> k \<Longrightarrow> \<not> bit r k" "3 \<le> k \<Longrightarrow> \<not> bit f3 k" "7 \<le> k \<Longrightarrow> \<not> bit f7 k"
    for k and r :: "5 word" by (auto dest: bit_imp_le_length)
  show ?thesis
    unfolding enc_r_def
    by (cases "n < 7"; cases "n < 12"; cases "n < 15"; cases "n < 20"; cases "n < 25"; cases "n < 32")
      (simp_all add: bit_simps z, auto)
qed

lemma bit_enc_u:
  "bit (enc_u imm rd op) n \<longleftrightarrow>
     (if n < 7 then bit op n else if n < 12 then bit rd (n - 7) else bit imm (n - 12))"
  unfolding enc_u_def by (auto simp: bit_simps dest: bit_imp_le_length)

lemma slice:
  fixes x :: "'a::len word" and w :: u32
  assumes "\<And>i. i < LENGTH('a) \<Longrightarrow> bit w (k + i) = bit x i" and "LENGTH('a) \<le> 32"
  shows "drop_bit k w AND mask (LENGTH('a)) = ucast x"
proof (rule bit_word_eqI)
  fix i assume "i < LENGTH(32)"
  with assms show "bit (drop_bit k w AND mask (LENGTH('a))) i = bit (ucast x :: u32) i"
    by (cases "i < LENGTH('a)") (auto simp: bit_simps dest: bit_imp_le_length)
qed

lemma ucast_via_u32: "LENGTH('a) \<le> 32 \<Longrightarrow> ucast (ucast (x :: 'a::len word) :: u32) = (ucast x :: 'b::len word)"
  by (rule bit_word_eqI) (auto simp: bit_simps dest: bit_imp_le_length)

lemma fields_r [simp]:
  "rd_of (enc_r f7 rs2 rs1 f3 rd op) = ucast rd" "rs1_of (enc_r f7 rs2 rs1 f3 rd op) = ucast rs1"
  "rs2_of (enc_r f7 rs2 rs1 f3 rd op) = ucast rs2" "funct3_of (enc_r f7 rs2 rs1 f3 rd op) = ucast f3"
  "funct7_of (enc_r f7 rs2 rs1 f3 rd op) = ucast f7"
  "enc_r f7 rs2 rs1 f3 rd op AND 0x7F = ucast op"
proof -
  let ?w = "enc_r f7 rs2 rs1 f3 rd op"
  show "rd_of ?w = ucast rd" "rs1_of ?w = ucast rs1" "rs2_of ?w = ucast rs2" "funct3_of ?w = ucast f3"
    "funct7_of ?w = ucast f7"
    using slice [of ?w 7 rd] slice [of ?w 15 rs1] slice [of ?w 20 rs2] slice [of ?w 12 f3] slice [of ?w 25 f7]
    by (simp_all add: rd_of_def rs1_of_def rs2_of_def funct3_of_def funct7_of_def mask_consts bit_enc_r ucast_via_u32)
  show "?w AND 0x7F = ucast op"
    using slice [of ?w 0 op] by (simp add: mask_consts bit_enc_r)
qed

lemma fields_u [simp]:
  "rd_of (enc_u imm rd op) = ucast rd" "enc_u imm rd op AND 0x7F = ucast op"
proof -
  let ?w = "enc_u imm rd op"
  show "rd_of ?w = ucast rd"
    using slice [of ?w 7 rd] by (simp add: rd_of_def mask_consts bit_enc_u ucast_via_u32)
  show "?w AND 0x7F = ucast op"
    using slice [of ?w 0 op] by (simp add: mask_consts bit_enc_u)
qed

section \<open>Immediates\<close>

lemma sx_scast:
  fixes x :: "'a::len word"
  assumes "LENGTH('a) + k = 32"
  shows "sx k (ucast x) = scast x"
proof -
  have "k < 32" using assms len_gt_0 [where 'a = 'a] by linarith
  moreover have "31 - k = LENGTH('a) - Suc 0" using assms by simp
  ultimately show ?thesis
    by (intro bit_word_eqI) (auto simp: bit_sx bit_simps min.commute dest: bit_imp_le_length)
qed

text \<open>A word whose upper twelve bits are \<open>imm\<close>, through every expression the handlers use.\<close>

lemma imm12_forms:
  fixes imm :: "12 word" and w :: u32
  assumes all: "\<forall>i < 12. bit w (20 + i) = bit imm i"
  shows "imm_i w = scast imm" and "sx 20 (drop_bit 20 w) = scast imm"
    and "scast (signed_drop_bit 20 (w AND 0xFFF00000)) = (scast imm :: u64)"
    and "scast (signed_drop_bit 20 w) = (scast imm :: u64)"
    and "signed_drop_bit 20 (push_bit 20 (drop_bit 20 w AND 0xFFF)) = (scast imm :: u32)"
    and "drop_bit 20 w AND 0x3F = ucast (ucast imm :: 6 word)"
    and "drop_bit 26 w AND 0x3F = ucast (ucast (drop_bit 6 imm) :: 6 word)"
    and "drop_bit 20 w AND 0x1F = ucast (ucast imm :: 5 word)"
proof -
  have b: "bit w (20 + i) = bit imm i" if "i < 12" for i using all that by blast
  have s: "drop_bit 20 w AND mask 12 = ucast imm" using slice [of w 20 imm] b by simp
  have d: "drop_bit 20 w = ucast imm"
  proof (rule bit_word_eqI)
    fix n show "bit (drop_bit 20 w) n = bit (ucast imm :: u32) n"
      using b [of n] by (cases "n < 12") (auto simp: bit_simps dest: bit_imp_le_length)
  qed
  from s show "imm_i w = scast imm" unfolding imm_i_def mask_consts by (simp add: sx_scast)
  show "sx 20 (drop_bit 20 w) = scast imm" unfolding d by (simp add: sx_scast)
  have k: "signed_drop_bit 20 (push_bit 20 (ucast imm :: u32)) = (scast imm :: u32)"
  proof (rule bit_word_eqI)
    fix n show "bit (signed_drop_bit 20 (push_bit 20 (ucast imm :: u32))) n = bit (scast imm :: u32) n" if "n < LENGTH(32)"
      using that by (cases "n < 11"; cases "n = 11") (auto simp: bit_simps min_def)
  qed
  have t: "scast (scast imm :: u32) = (scast imm :: u64)"
    by (rule bit_word_eqI) (auto simp: bit_simps min_def dest: bit_imp_le_length)
  have p: "push_bit 20 (drop_bit 20 w) = w AND 0xFFF00000"
    unfolding mask_consts by (rule bit_word_eqI) (auto simp: bit_simps)
  have q: "signed_drop_bit 20 (w AND 0xFFF00000) = signed_drop_bit 20 w"
    unfolding mask_consts by (rule bit_word_eqI) (auto simp: bit_simps min_def)
  from k t show "scast (signed_drop_bit 20 (w AND 0xFFF00000)) = (scast imm :: u64)"
    unfolding p [symmetric] d by simp
  then show "scast (signed_drop_bit 20 w) = (scast imm :: u64)" unfolding q .
  from k s show "signed_drop_bit 20 (push_bit 20 (drop_bit 20 w AND 0xFFF)) = (scast imm :: u32)"
    unfolding mask_consts by simp
  show "drop_bit 20 w AND 0x3F = ucast (ucast imm :: 6 word)"
    using slice [of w 20 "ucast imm :: 6 word"] b unfolding mask_consts by (simp add: bit_simps)
  show "drop_bit 26 w AND 0x3F = ucast (ucast (drop_bit 6 imm) :: 6 word)"
    using slice [of w 26 "ucast (drop_bit 6 imm) :: 6 word"] b [of "6 + _"] unfolding mask_consts
    by (simp add: bit_simps add.assoc [symmetric])
  show "drop_bit 20 w AND 0x1F = ucast (ucast imm :: 5 word)"
    using slice [of w 20 "ucast imm :: 5 word"] b unfolding mask_consts by (simp add: bit_simps)
qed

lemma bit_enc_i: "\<forall>i < 12. bit (enc_i imm rs1 f3 rd op) (20 + i) = bit imm i"
  by (auto simp: enc_i_def bit_enc_r bit_simps)

lemmas imm_forms_i = imm12_forms [OF bit_enc_i]

lemma fields_i [simp]:
  "rd_of (enc_i imm rs1 f3 rd op) = ucast rd" "rs1_of (enc_i imm rs1 f3 rd op) = ucast rs1"
  "funct3_of (enc_i imm rs1 f3 rd op) = ucast f3" "funct7_of (enc_i imm rs1 f3 rd op) = ucast (ucast (drop_bit 5 imm) :: 7 word)"
  "rs2_of (enc_i imm rs1 f3 rd op) = ucast (ucast imm :: 5 word)"
  "enc_i imm rs1 f3 rd op AND 0x7F = ucast op"
  by (simp_all add: enc_i_def)

lemma fields_s [simp]:
  "rs2_of (enc_s imm rs2 rs1 f3 op) = ucast rs2" "rs1_of (enc_s imm rs2 rs1 f3 op) = ucast rs1"
  "funct3_of (enc_s imm rs2 rs1 f3 op) = ucast f3" "enc_s imm rs2 rs1 f3 op AND 0x7F = ucast op"
  by (simp_all add: enc_s_def)

lemma fields_b [simp]:
  "rs2_of (enc_b off rs2 rs1 f3 op) = ucast rs2" "rs1_of (enc_b off rs2 rs1 f3 op) = ucast rs1"
  "funct3_of (enc_b off rs2 rs1 f3 op) = ucast f3" "enc_b off rs2 rs1 f3 op AND 0x7F = ucast op"
  by (simp_all add: enc_b_def)

lemma fields_j [simp]:
  "rd_of (enc_j off rd op) = ucast rd" "enc_j off rd op AND 0x7F = ucast op"
  by (simp_all add: enc_j_def)

lemma imm_s_enc [simp]: "imm_s (enc_s imm rs2 rs1 f3 op) = scast imm"
proof -
  let ?w = "enc_s imm rs2 rs1 f3 op"
  have "drop_bit 25 ?w AND mask 7 = ucast (ucast (drop_bit 5 imm) :: 7 word)"
    using slice [of ?w 25 "ucast (drop_bit 5 imm) :: 7 word"] by (simp add: enc_s_def bit_enc_r)
  moreover have "drop_bit 7 ?w AND mask 5 = ucast (ucast imm :: 5 word)"
    using slice [of ?w 7 "ucast imm :: 5 word"] by (simp add: enc_s_def bit_enc_r)
  moreover have "push_bit 5 (ucast (ucast (drop_bit 5 imm) :: 7 word)) OR ucast (ucast imm :: 5 word) = (ucast imm :: u32)"
    by (rule bit_word_eqI) (auto simp: bit_simps not_le dest: bit_imp_le_length)
  ultimately show ?thesis unfolding imm_s_def mask_consts by (simp add: sx_scast)
qed

lemmas bit_rules = bit_or_iff bit_and_iff bit_push_bit_iff bit_drop_bit_eq bit_take_bit_iff bit_mask_iff
  bit_unsigned_iff bit_signed_iff possible_bit_word comp_def

lemma double_eqI: "(\<And>n. n < LENGTH('a) \<Longrightarrow> bit x n = bit (push_bit 1 y) n) \<Longrightarrow> x = y * 2" for x y :: "'a::len word"
  using bit_word_eqI [of x "push_bit 1 y"] by simp

lemma bit_imm12_b:
  "bit (imm12_b w) n \<longleftrightarrow> (if n = 0 then False else if n < 5 then bit w (n + 7) else if n < 11 then bit w (n + 20)
     else if n = 11 then bit w 7 else n = 12 \<and> bit w 31)"
  unfolding imm12_b_def mask_consts bit_rules
  by (cases "n = 0"; cases "n < 5"; cases "n < 11"; cases "n = 11"; cases "n = 12") (auto simp: add.commute)

lemma imm12_b_enc: "imm12_b (enc_b off rs2 rs1 f3 op) = push_bit 1 (ucast off)"
proof (rule bit_word_eqI)
  fix n assume n: "n < LENGTH(32)"
  have z: "12 \<le> k \<Longrightarrow> \<not> bit off k" for k by (auto dest: bit_imp_le_length)
  show "bit (imm12_b (enc_b off rs2 rs1 f3 op)) n = bit (push_bit 1 (ucast off) :: u32) n"
    unfolding bit_imm12_b enc_b_def bit_enc_r bit_rules using n
    by (cases "n = 0"; cases "n < 5"; cases "n < 11"; cases "n = 11"; cases "n = 12") (auto simp: z)
qed

text \<open>The immediate of \<open>jal\<close> is extended from bit 19, one below its top bit.\<close>

lemma bit_imm_j:
  "bit (imm_j w) n \<longleftrightarrow> n < 64 \<and> (if n = 0 then False else if n < 11 then bit w (n + 20) else if n = 11 then bit w 20
     else if n < 19 then bit w n else bit w 19)"
  unfolding imm_j_def mask_consts bit_sx [of 12, simplified] bit_rules
  by (cases "n = 0"; cases "n < 11"; cases "n = 11"; cases "n < 19") (auto simp: add.commute min_def)

lemma imm_j_enc [simp]: "imm_j (enc_j off rd op) = scast (ucast off :: 19 word) * 2"
proof (rule double_eqI)
  fix n assume n: "n < LENGTH(64)"
  have z: "20 \<le> k \<Longrightarrow> \<not> bit off k" for k by (auto dest: bit_imp_le_length)
  show "bit (imm_j (enc_j off rd op)) n = bit (push_bit 1 (scast (ucast off :: 19 word)) :: u64) n"
    unfolding bit_imm_j enc_j_def bit_enc_u bit_rules using n
    by (cases "n = 0"; cases "n < 11"; cases "n = 11"; cases "n < 19") (auto simp: z min_def)
qed

lemma branch_offset [simp]: "sx 19 (imm12_b (enc_b off rs2 rs1 f3 op)) = scast off * 2"
proof (rule double_eqI)
  fix n assume n: "n < LENGTH(64)"
  show "bit (sx 19 (imm12_b (enc_b off rs2 rs1 f3 op))) n = bit (push_bit 1 (scast off) :: u64) n"
    unfolding imm12_b_enc bit_sx [of 19, simplified] bit_rules using n
    by (cases "n = 0"; cases "n < 12") (auto simp: min_def)
qed

text \<open>\<open>blt\<close> extends its offset from one bit below the top, too.\<close>

lemma branch_offset_20 [simp]:
  "sx 20 (imm12_b (enc_b off rs2 rs1 f3 op)) = scast (ucast off :: 11 word) * 2"
proof (rule double_eqI)
  fix n assume n: "n < LENGTH(64)"
  show "bit (sx 20 (imm12_b (enc_b off rs2 rs1 f3 op))) n = bit (push_bit 1 (scast (ucast off :: 11 word)) :: u64) n"
    unfolding imm12_b_enc bit_sx [of 20, simplified] bit_rules using n
    by (cases "n = 0"; cases "n < 11") (auto simp: min_def)
qed

lemma upper_imm [simp]: "enc_u imm rd op AND 0xFFFFF000 = push_bit 12 (ucast imm)"
  unfolding mask_consts
  by (rule bit_word_eqI) (auto simp: bit_simps bit_enc_u dest: bit_imp_le_length)

end
