(* ===== verification/Isa.thy ===== *)
theory Isa
  imports Encoding
begin

text \<open>
  The instruction set as the architecture defines it: abstract instructions with their encoding
  and their effect on a hart, written without reference to the emulator, and the comparison with
  what \<open>decode_and_execute\<close> does. Register 0 reads as 0 and is never written; the emulator keeps
  it in the register file, so the comparison starts from a hart whose \<open>gpr[0]\<close> is 0.
\<close>

section \<open>Abstract instructions\<close>

datatype alu_op = Add | Sub | Sll | Slt | Sltu | Xor | Srl | Sra | Or | And | Mul | Div | Divu | Rem | Remu
datatype imm_op = Addi | Slti | Sltiu | Xori | Ori | Andi
datatype shift_op = Lsl | Lsr | Asr
datatype word_op = Addw | Subw | Sllw | Divuw | Remuw
datatype branch_op = Beq | Bne | Blt | Bge | Bltu | Bgeu

type_synonym reg = "5 word"

datatype instr =
    Op alu_op reg reg reg
  | Op_Imm imm_op reg reg "12 word"
  | Shift shift_op reg reg "6 word"
  | Op_W word_op reg reg reg
  | Addiw reg reg "12 word"
  | Shift_W shift_op reg reg "5 word"
  | Lui reg "20 word"
  | Auipc reg "20 word"
  | Jal reg "20 word"
  | Jalr reg reg "12 word"
  | Branch branch_op reg reg "12 word"

section \<open>Encoding\<close>

fun alu_code :: "alu_op \<Rightarrow> 7 word \<times> 3 word" where
  "alu_code Add = (0, 0)" | "alu_code Sub = (0x20, 0)" | "alu_code Sll = (0, 1)" | "alu_code Slt = (0, 2)"
| "alu_code Sltu = (0, 3)" | "alu_code Xor = (0, 4)" | "alu_code Srl = (0, 5)" | "alu_code Sra = (0x20, 5)"
| "alu_code Or = (0, 6)" | "alu_code And = (0, 7)" | "alu_code Mul = (1, 0)" | "alu_code Div = (1, 4)"
| "alu_code Divu = (1, 5)" | "alu_code Rem = (1, 6)" | "alu_code Remu = (1, 7)"

fun imm_code :: "imm_op \<Rightarrow> 3 word" where
  "imm_code Addi = 0" | "imm_code Slti = 2" | "imm_code Sltiu = 3" | "imm_code Xori = 4"
| "imm_code Ori = 6" | "imm_code Andi = 7"

fun shift_code :: "shift_op \<Rightarrow> 6 word \<times> 3 word" where
  "shift_code Lsl = (0, 1)" | "shift_code Lsr = (0, 5)" | "shift_code Asr = (0x10, 5)"

fun word_code :: "word_op \<Rightarrow> 7 word \<times> 3 word" where
  "word_code Addw = (0, 0)" | "word_code Subw = (0x20, 0)" | "word_code Sllw = (0, 1)"
| "word_code Divuw = (1, 5)" | "word_code Remuw = (1, 7)"

fun branch_code :: "branch_op \<Rightarrow> 3 word" where
  "branch_code Beq = 0" | "branch_code Bne = 1" | "branch_code Blt = 4" | "branch_code Bge = 5"
| "branch_code Bltu = 6" | "branch_code Bgeu = 7"

definition shift_imm :: "6 word \<Rightarrow> 'a::len word \<Rightarrow> 12 word" where
  "shift_imm f sh = push_bit 6 (ucast f) OR ucast sh"

fun encode :: "instr \<Rightarrow> u32" where
  "encode (Op op rd rs1 rs2) = enc_r (fst (alu_code op)) rs2 rs1 (snd (alu_code op)) rd 0x33"
| "encode (Op_Imm op rd rs1 imm) = enc_i imm rs1 (imm_code op) rd 0x13"
| "encode (Shift op rd rs1 sh) =
     enc_i (shift_imm (fst (shift_code op)) sh) rs1 (snd (shift_code op)) rd 0x13"
| "encode (Op_W op rd rs1 rs2) = enc_r (fst (word_code op)) rs2 rs1 (snd (word_code op)) rd 0x3B"
| "encode (Addiw rd rs1 imm) = enc_i imm rs1 0 rd 0x1B"
| "encode (Shift_W op rd rs1 sh) =
     enc_i (shift_imm (fst (shift_code op)) sh) rs1 (snd (shift_code op)) rd 0x1B"
| "encode (Lui rd imm) = enc_u imm rd 0x37"
| "encode (Auipc rd imm) = enc_u imm rd 0x17"
| "encode (Jal rd off) = enc_j off rd 0x6F"
| "encode (Jalr rd rs1 imm) = enc_i imm rs1 0 rd 0x67"
| "encode (Branch op rs1 rs2 off) = enc_b off rs2 rs1 (branch_code op) 0x63"

section \<open>Meaning\<close>

fun alu :: "alu_op \<Rightarrow> u64 \<Rightarrow> u64 \<Rightarrow> u64" where
  "alu Add a b = a + b"
| "alu Sub a b = a - b"
| "alu Sll a b = push_bit (unat (take_bit 6 b)) a"
| "alu Slt a b = (if a <s b then 1 else 0)"
| "alu Sltu a b = (if a < b then 1 else 0)"
| "alu Xor a b = a XOR b"
| "alu Srl a b = drop_bit (unat (take_bit 6 b)) a"
| "alu Sra a b = signed_drop_bit (unat (take_bit 6 b)) a"
| "alu Or a b = a OR b"
| "alu And a b = a AND b"
| "alu Mul a b = a * b"
| "alu Div a b = (if b = 0 then -1 else word_of_int (sint a sdiv sint b))"
| "alu Divu a b = (if b = 0 then -1 else a div b)"
| "alu Rem a b = (if b = 0 then a else word_of_int (sint a smod sint b))"
| "alu Remu a b = (if b = 0 then a else a mod b)"

fun alu_imm :: "imm_op \<Rightarrow> u64 \<Rightarrow> u64 \<Rightarrow> u64" where
  "alu_imm Addi a b = a + b"
| "alu_imm Slti a b = (if a <s b then 1 else 0)"
| "alu_imm Sltiu a b = (if a < b then 1 else 0)"
| "alu_imm Xori a b = a XOR b"
| "alu_imm Ori a b = a OR b"
| "alu_imm Andi a b = a AND b"

fun shift :: "shift_op \<Rightarrow> nat \<Rightarrow> 'a::len word \<Rightarrow> 'a word" where
  "shift Lsl k a = push_bit k a"
| "shift Lsr k a = drop_bit k a"
| "shift Asr k a = signed_drop_bit k a"

fun alu_w :: "word_op \<Rightarrow> u32 \<Rightarrow> u32 \<Rightarrow> u32" where
  "alu_w Addw a b = a + b"
| "alu_w Subw a b = a - b"
| "alu_w Sllw a b = push_bit (unat (take_bit 5 b)) a"
| "alu_w Divuw a b = (if b = 0 then -1 else a div b)"
| "alu_w Remuw a b = (if b = 0 then a else a mod b)"

fun taken :: "branch_op \<Rightarrow> u64 \<Rightarrow> u64 \<Rightarrow> bool" where
  "taken Beq a b = (a = b)"
| "taken Bne a b = (a \<noteq> b)"
| "taken Blt a b = (a <s b)"
| "taken Bge a b = (b \<le>s a)"
| "taken Bltu a b = (a < b)"
| "taken Bgeu a b = (b \<le> a)"

text \<open>Reading and writing a register of the architecture, and moving on.\<close>

definition get_x :: "CPU_State \<Rightarrow> reg \<Rightarrow> u64" where
  "get_x c r = (if r = 0 then 0 else gpr c (ucast r))"

definition set_x :: "reg \<Rightarrow> u64 \<Rightarrow> CPU_State \<Rightarrow> CPU_State" where
  "set_x r v c = (if r = 0 then c else c\<lparr>gpr := (gpr c)(ucast r := v)\<rparr>)"

definition goto :: "u64 \<Rightarrow> CPU_State \<Rightarrow> CPU_State" where
  "goto a c = c\<lparr>pc := a\<rparr>"

definition offset :: "'a::len word \<Rightarrow> u64" where
  "offset off = scast off * 2"

text \<open>The meaning, for an encoding of \<open>n\<close> bytes (4, or 2 when compressed).\<close>

fun isa :: "u64 \<Rightarrow> instr \<Rightarrow> CPU_State \<Rightarrow> CPU_State" where
  "isa n (Op op rd rs1 rs2) c = goto (pc c + n) (set_x rd (alu op (get_x c rs1) (get_x c rs2)) c)"
| "isa n (Op_Imm op rd rs1 imm) c = goto (pc c + n) (set_x rd (alu_imm op (get_x c rs1) (scast imm)) c)"
| "isa n (Shift op rd rs1 sh) c = goto (pc c + n) (set_x rd (shift op (unat sh) (get_x c rs1)) c)"
| "isa n (Op_W op rd rs1 rs2) c =
     goto (pc c + n) (set_x rd (scast (alu_w op (ucast (get_x c rs1)) (ucast (get_x c rs2)))) c)"
| "isa n (Addiw rd rs1 imm) c = goto (pc c + n) (set_x rd (scast (ucast (get_x c rs1) + scast imm :: u32)) c)"
| "isa n (Shift_W op rd rs1 sh) c =
     goto (pc c + n) (set_x rd (scast (shift op (unat sh) (ucast (get_x c rs1) :: u32))) c)"
| "isa n (Lui rd imm) c = goto (pc c + n) (set_x rd (scast (push_bit 12 (ucast imm) :: u32)) c)"
| "isa n (Auipc rd imm) c = goto (pc c + n) (set_x rd (pc c + scast (push_bit 12 (ucast imm) :: u32)) c)"
| "isa n (Jal rd off) c = goto (pc c + offset off) (set_x rd (pc c + n) c)"
| "isa n (Jalr rd rs1 imm) c = goto ((get_x c rs1 + scast imm) AND NOT 1) (set_x rd (pc c + n) c)"
| "isa n (Branch op rs1 rs2 off) c =
     goto (if taken op (get_x c rs1) (get_x c rs2) then pc c + offset off else pc c + n) c"

section \<open>Dispatch\<close>

lemma opcode_enc: "i AND 0x7F = ucast (op :: 7 word) \<Longrightarrow> op AND 3 = 3 \<Longrightarrow> opcode_of i = ucast op \<and> i \<noteq> 0"
proof -
  assume i: "i AND 0x7F = ucast op" and o: "op AND 3 = 3"
  have "(0x3 :: u32) = 0x7F AND 0x3" by simp
  then have "i AND 0x3 = (i AND 0x7F) AND 0x3" by (metis and.assoc)
  also have "\<dots> = ucast (op AND 3)" unfolding i by (rule bit_word_eqI) (auto simp: bit_simps dest: bit_imp_le_length)
  finally have "i AND 0x3 = 3" unfolding o by simp
  then show ?thesis using i by (auto simp: opcode_of_def)
qed

text \<open>A word of opcode \<open>op\<close> goes to the entry of the table.\<close>

lemma dispatch:
  assumes "i AND 0x7F = ucast (op :: 7 word)" "op AND 3 = 3" "opcode_table (ucast op) = Some f"
  shows "decode_and_execute h i m = f h i m"
  using opcode_enc [OF assms(1,2)] assms(3) by (simp add: decode_and_execute_def handle_opcode_def)

lemma opcode_entries:
  "opcode_table 0x33 = Some handle_r_type" "opcode_table 0x13 = Some handle_i_imm_type"
  "opcode_table 0x3B = Some (on_cpu exec_3b)" "opcode_table 0x1B = Some (on_cpu exec_iw)"
  "opcode_table 0x37 = Some (on_cpu exec_lui)" "opcode_table 0x17 = Some (on_cpu exec_auipc)"
  "opcode_table 0x6F = Some (on_cpu exec_jal)" "opcode_table 0x67 = Some (on_cpu exec_jalr)"
  "opcode_table 0x63 = Some hande_b_type" "opcode_table 0x03 = Some exec_load"
  "opcode_table 0x23 = Some exec_store" "opcode_table 0x73 = Some handle_system"
  by (simp_all add: opcode_table_def)

lemmas dispatch_fields = dispatch [OF fields_r(6)] dispatch [OF fields_i(6)] dispatch [OF fields_s(4)]
  dispatch [OF fields_u(2)] dispatch [OF fields_j(2)] dispatch [OF fields_b(4)]

lemma dispatch_enc:
  "decode_and_execute h (enc_r f7 rs2 rs1 f3 rd 0x33) m = handle_r_type h (enc_r f7 rs2 rs1 f3 rd 0x33) m"
  "decode_and_execute h (enc_r f7 rs2 rs1 f3 rd 0x3B) m = on_cpu exec_3b h (enc_r f7 rs2 rs1 f3 rd 0x3B) m"
  "decode_and_execute h (enc_i imm rs1 f3 rd 0x13) m = handle_i_imm_type h (enc_i imm rs1 f3 rd 0x13) m"
  "decode_and_execute h (enc_i imm rs1 f3 rd 0x1B) m = on_cpu exec_iw h (enc_i imm rs1 f3 rd 0x1B) m"
  "decode_and_execute h (enc_i imm rs1 f3 rd 0x67) m = on_cpu exec_jalr h (enc_i imm rs1 f3 rd 0x67) m"
  "decode_and_execute h (enc_i imm rs1 f3 rd 0x03) m = exec_load h (enc_i imm rs1 f3 rd 0x03) m"
  "decode_and_execute h (enc_s imm rs2 rs1 f3 0x23) m = exec_store h (enc_s imm rs2 rs1 f3 0x23) m"
  "decode_and_execute h (enc_u uimm rd 0x37) m = on_cpu exec_lui h (enc_u uimm rd 0x37) m"
  "decode_and_execute h (enc_u uimm rd 0x17) m = on_cpu exec_auipc h (enc_u uimm rd 0x17) m"
  "decode_and_execute h (enc_j uimm rd 0x6F) m = on_cpu exec_jal h (enc_j uimm rd 0x6F) m"
  "decode_and_execute h (enc_b off rs2 rs1 f3 0x63) m = hande_b_type h (enc_b off rs2 rs1 f3 0x63) m"
  by (rule dispatch_fields; simp add: opcode_entries)+

section \<open>Handlers against meanings\<close>

lemma upd_cpu_cong: "f (cpus m h) = g (cpus m h) \<Longrightarrow> upd_cpu h f m = upd_cpu h g m"
  by (simp add: upd_cpu_def)

lemma on_cpu_cong: "f i (cpus m h) = g (cpus m h) \<Longrightarrow> on_cpu f h i m = Inr (upd_cpu h g m)"
  unfolding on_cpu_def by (simp only: sum.inject) (rule upd_cpu_cong)

lemma reg_inj [simp]: "(ucast (r :: reg) :: u8) = ucast s \<longleftrightarrow> r = s"
proof
  assume "(ucast r :: u8) = ucast s"
  then have "ucast (ucast r :: u8) = (ucast (ucast s :: u8) :: reg)" by simp
  moreover have "ucast (ucast q :: u8) = q" for q :: reg
    by (rule bit_word_eqI) (auto simp: bit_simps)
  ultimately show "r = s" by simp
qed simp

lemma reg_zero [simp]: "(ucast (r :: reg) :: u8) = 0 \<longleftrightarrow> r = 0"
  using reg_inj [of r 0] by simp

lemma write_set_x [simp]: "write_gpr (ucast r) v c = set_x r v c"
  by (simp add: write_gpr_def put_gpr_def set_x_def)

lemma put_set_x: "r \<noteq> 0 \<Longrightarrow> put_gpr (ucast r) v c = set_x r v c"
  by (simp add: put_gpr_def set_x_def)

lemma gpr_get_x: "gpr c 0 = 0 \<Longrightarrow> gpr c (ucast r) = get_x c r"
  by (simp add: get_x_def)

lemma advance_goto: "advance n (set_x r v c) = goto (pc c + n) (set_x r v c)" "advance n c = goto (pc c + n) c"
  by (simp_all add: advance_def goto_def set_x_def)

lemma set_x_zero: "gpr c 0 = 0 \<Longrightarrow> gpr (set_x r v c) 0 = 0"
  by (simp add: set_x_def)

lemma put_zero: "gpr c 0 = 0 \<Longrightarrow> put_gpr 0 0 c = c"
  by (simp add: put_gpr_def fun_upd_idem)

lemma goto_simps [simp]: "gpr (goto a c) = gpr c" "pc (goto a c) = a" "goto a (goto b c) = goto a c"
  by (simp_all add: goto_def)

lemma set_x_simps [simp]: "pc (set_x r v c) = pc c" "(set_x r v c)\<lparr>pc := a\<rparr> = goto a (set_x r v c)"
  by (simp_all add: set_x_def goto_def)

lemmas reg_rules = gpr_get_x advance_goto put_zero set_x_zero

lemma shift_masks: "(b :: u64) AND 0x3F = take_bit 6 b" "(b :: u64) AND 0x1F = take_bit 5 b"
  by (simp_all add: take_bit_eq_mask mask_eq_exp_minus_1)

lemma r_op_enc:
  "gpr c 0 = 0 \<Longrightarrow> r_op f (enc_r f7 rs2 rs1 f3 rd op) c = goto (pc c + 4) (set_x rd (f (get_x c rs1) (get_x c rs2)) c)"
  by (simp add: r_op_def reg_rules)

lemma all_ones: "(0xFFFFFFFFFFFFFFFF :: u64) = -1" "(0xFFFFFFFF :: u32) = -1"
  by simp_all

text \<open>What the emulator's handler of each register operation computes, and which operations have none.\<close>

fun handler :: "alu_op \<Rightarrow> (u32 \<Rightarrow> CPU_State \<Rightarrow> CPU_State) option" where
  "handler Add = Some exec_add" | "handler Sub = Some exec_sub" | "handler Sltu = Some exec_sltu"
| "handler Xor = Some exec_xor" | "handler Srl = Some exec_srl" | "handler Or = Some exec_or"
| "handler And = Some exec_and" | "handler Mul = Some exec_mul" | "handler Div = Some exec_div"
| "handler Divu = Some exec_divu" | "handler Remu = Some exec_remu" | "handler _ = None"

lemma op_dispatch:
  "decode_and_execute h (encode (Op op rd rs1 rs2)) m = call (map_option on_cpu (handler op)) h (encode (Op op rd rs1 rs2)) m"
  by (cases op) (simp_all add: dispatch_enc handle_r_type_def r_type_instruction_def)

lemma op_meaning:
  assumes "gpr c 0 = 0" "handler op = Some f" "op \<noteq> Mul" "op \<noteq> Div"
  shows "f (encode (Op op rd rs1 rs2)) c = isa 4 (Op op rd rs1 rs2) c"
  using assms
  by (cases op)
    (auto simp: exec_add_def exec_sub_def exec_sltu_def exec_xor_def exec_srl_def exec_or_def exec_and_def
      exec_divu_def exec_remu_def r_op_enc shift_masks reg_rules all_ones)

lemma div_overflow:
  fixes a b :: u64
  assumes "sint a = - (2 ^ 63)" "sint b = -1"
  shows "word_of_int (sint a sdiv sint b) = a"
proof -
  have "word_of_int (sint a sdiv sint b) = (word_of_int (2 ^ 63) :: u64)"
    unfolding assms by (simp add: signed_divide_int_def)
  also have "\<dots> = word_of_int (sint a)" unfolding assms(1) by simp
  finally show ?thesis by simp
qed

lemma div_meaning:
  assumes "gpr c 0 = 0" "rs2 \<noteq> 0"
  shows "exec_div (encode (Op Div rd rs1 rs2)) c = isa 4 (Op Div rd rs1 rs2) c"
  using assms div_overflow [of "get_x c rs1" "get_x c rs2"]
  by (simp add: exec_div_def reg_rules Let_def)

fun imm_handler :: "imm_op \<Rightarrow> u32 \<Rightarrow> CPU_State \<Rightarrow> CPU_State" where
  "imm_handler Addi = exec_addi" | "imm_handler Slti = exec_slti" | "imm_handler Sltiu = exec_sltiu"
| "imm_handler Xori = exec_xori" | "imm_handler Ori = exec_ori" | "imm_handler Andi = exec_andi"

lemma imm_meaning:
  assumes "gpr c 0 = 0"
  shows "imm_handler op (encode (Op_Imm op rd rs1 imm)) c = isa 4 (Op_Imm op rd rs1 imm) c"
  using assms
  by (cases op)
    (simp_all add: exec_addi_def exec_slti_def exec_sltiu_def exec_xori_def exec_ori_def exec_andi_def
      imm_forms_i reg_rules)

fun shift_handler :: "shift_op \<Rightarrow> u32 \<Rightarrow> CPU_State \<Rightarrow> CPU_State" where
  "shift_handler Lsl = exec_slli" | "shift_handler Lsr = exec_si" | "shift_handler Asr = exec_si"

lemma shift_imm_6: "ucast (shift_imm f (sh :: 6 word)) = sh" "ucast (drop_bit 6 (shift_imm f (sh :: 6 word))) = f"
  unfolding shift_imm_def by (rule bit_word_eqI; auto simp: bit_simps dest: bit_imp_le_length)+

lemma shift_imm_5: "ucast (shift_imm f (sh :: 5 word)) = sh"
  by (rule bit_word_eqI, unfold shift_imm_def bit_rules, auto dest: bit_imp_le_length)

lemma shift_imm_funct7: "(ucast (drop_bit 5 (shift_imm f (sh :: 5 word))) :: 7 word) = push_bit 1 (ucast f)"
  by (rule bit_word_eqI, unfold shift_imm_def bit_rules, auto dest: bit_imp_le_length)

lemma unat_shift: "unat (ucast (a :: 6 word) :: u32) = unat a" "unat (ucast (b :: 5 word) :: u32) = unat b"
  by (simp_all add: unsigned_ucast_eq take_bit_nat_eq_self order_less_le_trans [OF unsigned_less])

lemma unat_low_5: "unat (take_bit 5 (ucast x :: u32)) = unat (take_bit 5 (x :: u64))"
  by (simp add: unsigned_take_bit_eq unsigned_ucast_eq)

lemma shift_meaning:
  assumes "gpr c 0 = 0"
  shows "shift_handler op (encode (Shift op rd rs1 sh)) c = isa 4 (Shift op rd rs1 sh) c"
  using assms
  by (cases op)
    (simp_all add: exec_slli_def exec_si_def imm_forms_i shift_imm_6 reg_rules unat_shift)

lemma imm_dispatch:
  "decode_and_execute h (encode (Op_Imm op rd rs1 imm)) m = on_cpu (imm_handler op) h (encode (Op_Imm op rd rs1 imm)) m"
  "decode_and_execute h (encode (Shift sop rd rs1 sh)) m = on_cpu (shift_handler sop) h (encode (Shift sop rd rs1 sh)) m"
  by (cases op; simp add: dispatch_enc handle_i_imm_type_def i_type_imm_instruction_def call_def)
    (cases sop; simp add: dispatch_enc handle_i_imm_type_def i_type_imm_instruction_def call_def)

lemma word_meaning:
  assumes "gpr c 0 = 0"
  shows "op \<noteq> Sllw \<or> rd \<noteq> 0 \<Longrightarrow> exec_3b (encode (Op_W op rd rs1 rs2)) c = isa 4 (Op_W op rd rs1 rs2) c"
    and "exec_iw (encode (Addiw rd rs1 imm)) c = isa 4 (Addiw rd rs1 imm) c"
    and "exec_iw (encode (Shift_W sop rd rs1 sh)) c = isa 4 (Shift_W sop rd rs1 sh) c"
proof -
  show "exec_3b (encode (Op_W op rd rs1 rs2)) c = isa 4 (Op_W op rd rs1 rs2) c" if "op \<noteq> Sllw \<or> rd \<noteq> 0"
    using assms that
    by (cases op) (simp_all add: exec_3b_def Let_def reg_rules all_ones shift_masks put_set_x unat_low_5)
  show "exec_iw (encode (Addiw rd rs1 imm)) c = isa 4 (Addiw rd rs1 imm) c"
    unfolding encode.simps exec_iw_def imm_forms_i using assms by (simp add: Let_def reg_rules)
  show "exec_iw (encode (Shift_W sop rd rs1 sh)) c = isa 4 (Shift_W sop rd rs1 sh) c"
    unfolding encode.simps exec_iw_def imm_forms_i fields_i shift_imm_5 shift_imm_funct7
    using assms by (cases sop) (simp_all add: Let_def reg_rules unat_shift)
qed

text \<open>Jumps and branches: the two offsets that lose their top bit are right when it repeats the next one.\<close>

lemma jal_offset: "bit off 19 = bit off 18 \<Longrightarrow> scast (ucast (off :: 20 word) :: 19 word) * 2 = offset off"
proof -
  assume b: "bit off 19 = bit off 18"
  have "(scast (ucast off :: 19 word) :: u64) = scast off"
  proof (rule bit_word_eqI)
    fix n show "bit (scast (ucast off :: 19 word) :: u64) n = bit (scast off :: u64) n"
      unfolding bit_rules using b by (cases "n < 18"; cases "n = 18"; cases "n = 19") (auto simp: min_def)
  qed
  then show ?thesis by (simp only: offset_def)
qed

lemma blt_offset: "bit off 11 = bit off 10 \<Longrightarrow> scast (ucast (off :: 12 word) :: 11 word) * 2 = offset off"
proof -
  assume b: "bit off 11 = bit off 10"
  have "(scast (ucast off :: 11 word) :: u64) = scast off"
  proof (rule bit_word_eqI)
    fix n show "bit (scast (ucast off :: 11 word) :: u64) n = bit (scast off :: u64) n"
      unfolding bit_rules using b by (cases "n < 10"; cases "n = 10"; cases "n = 11") (auto simp: min_def)
  qed
  then show ?thesis by (simp only: offset_def)
qed

fun branch_handler :: "branch_op \<Rightarrow> u32 \<Rightarrow> CPU_State \<Rightarrow> CPU_State" where
  "branch_handler Beq = exec_beq" | "branch_handler Bne = exec_bne" | "branch_handler Blt = exec_blt"
| "branch_handler Bge = exec_bge" | "branch_handler Bltu = exec_bltu" | "branch_handler Bgeu = exec_bgeu"

lemma branch_enc:
  "gpr c 0 = 0 \<Longrightarrow> branch p 19 (enc_b off rs2 rs1 f3 op) c =
     goto (if p (get_x c rs1) (get_x c rs2) then pc c + offset off else pc c + 4) c"
  by (simp add: branch_def reg_rules offset_def)

lemma branch_meaning:
  assumes "gpr c 0 = 0" "op \<noteq> Bge" "op = Blt \<longrightarrow> bit off 11 = bit off 10"
  shows "branch_handler op (encode (Branch op rs1 rs2 off)) c = isa 4 (Branch op rs1 rs2 off) c"
  using assms
  by (cases op)
    (simp_all add: exec_beq_def exec_bne_def exec_bltu_def exec_bgeu_def branch_enc exec_blt_def branch_def reg_rules
      offset_def [symmetric] blt_offset [folded offset_def])

lemma jump_meaning:
  assumes "gpr c 0 = 0"
  shows "bit off 19 = bit off 18 \<Longrightarrow> exec_jal (encode (Jal rd off)) c = isa 4 (Jal rd off) c"
    and "exec_jalr (encode (Jalr rd rs1 imm)) c = isa 4 (Jalr rd rs1 imm) c"
    and "exec_lui (encode (Lui rd upper)) c = isa 4 (Lui rd upper) c"
    and "exec_auipc (encode (Auipc rd upper)) c = isa 4 (Auipc rd upper) c"
  using assms
  by (simp_all add: exec_jal_def exec_jalr_def exec_lui_def exec_auipc_def reg_rules jal_offset imm_forms_i)

lemma branch_dispatch:
  "decode_and_execute h (encode (Branch op rs1 rs2 off)) m = on_cpu (branch_handler op) h (encode (Branch op rs1 rs2 off)) m"
  by (cases op) (simp_all add: dispatch_enc hande_b_type_def b_type_instr_def call_def)

section \<open>The comparison\<close>

text \<open>Where the emulator follows the architecture.\<close>

fun faithful :: "instr \<Rightarrow> bool" where
  "faithful (Op op rd rs1 rs2) = (op \<in> {Add, Sub, Sltu, Xor, Srl, Or, And, Divu, Remu} \<or> op = Div \<and> rs2 \<noteq> 0)"
| "faithful (Op_W op rd rs1 rs2) = (op \<noteq> Sllw \<or> rd \<noteq> 0)"
| "faithful (Jal rd off) = (bit off 19 = bit off 18)"
| "faithful (Branch op rs1 rs2 off) = (op \<noteq> Bge \<and> (op \<noteq> Blt \<or> bit off 11 = bit off 10))"
| "faithful _ = True"

lemma isa_exec:
  assumes "gpr (cpus m h) 0 = 0" and "faithful ins"
  shows "decode_and_execute h (encode ins) m = Inr (upd_cpu h (isa 4 ins) m)"
proof (cases ins)
  case (Op op rd rs1 rs2)
  obtain f where f: "handler op = Some f" "f (encode ins) (cpus m h) = isa 4 ins (cpus m h)"
  proof (cases "op = Div")
    case True
    with that div_meaning [OF assms(1)] assms(2) Op show ?thesis by simp
  next
    case False
    with assms(2) Op obtain f where "handler op = Some f" "op \<noteq> Mul" by auto
    with that op_meaning [OF assms(1)] False Op show ?thesis by blast
  qed
  then show ?thesis unfolding Op op_dispatch by (simp add: call_def on_cpu_cong)
next
  case (Op_Imm op rd rs1 imm)
  show ?thesis unfolding Op_Imm imm_dispatch by (rule on_cpu_cong, rule imm_meaning, rule assms)
next
  case (Shift op rd rs1 sh)
  show ?thesis unfolding Shift imm_dispatch by (rule on_cpu_cong, rule shift_meaning, rule assms)
next
  case (Op_W op rd rs1 rs2)
  have "on_cpu exec_3b h (encode ins) m = Inr (upd_cpu h (isa 4 ins) m)"
    by (rule on_cpu_cong) (use assms word_meaning(1) in \<open>simp add: Op_W\<close>)
  then show ?thesis by (simp add: Op_W dispatch_enc)
next
  case (Addiw rd rs1 imm)
  have "on_cpu exec_iw h (encode ins) m = Inr (upd_cpu h (isa 4 ins) m)"
    by (rule on_cpu_cong) (use assms word_meaning(2) in \<open>simp add: Addiw\<close>)
  then show ?thesis by (simp add: Addiw dispatch_enc)
next
  case (Shift_W op rd rs1 sh)
  have "on_cpu exec_iw h (encode ins) m = Inr (upd_cpu h (isa 4 ins) m)"
    by (rule on_cpu_cong) (use assms word_meaning(3) in \<open>simp add: Shift_W\<close>)
  then show ?thesis by (simp add: Shift_W dispatch_enc)
next
  case (Branch op rs1 rs2 off)
  show ?thesis unfolding Branch branch_dispatch
    by (rule on_cpu_cong, rule branch_meaning) (use assms in \<open>auto simp: Branch\<close>)
next
  case (Jal rd off)
  have "on_cpu exec_jal h (encode ins) m = Inr (upd_cpu h (isa 4 ins) m)"
    by (rule on_cpu_cong) (use assms jump_meaning(1) in \<open>simp add: Jal\<close>)
  then show ?thesis by (simp add: Jal dispatch_enc)
next
  case (Jalr rd rs1 imm)
  have "on_cpu exec_jalr h (encode ins) m = Inr (upd_cpu h (isa 4 ins) m)"
    by (rule on_cpu_cong) (use assms jump_meaning(2) in \<open>simp add: Jalr\<close>)
  then show ?thesis by (simp add: Jalr dispatch_enc)
next
  case (Lui rd imm)
  have "on_cpu exec_lui h (encode ins) m = Inr (upd_cpu h (isa 4 ins) m)"
    by (rule on_cpu_cong) (use assms jump_meaning(3) in \<open>simp add: Lui\<close>)
  then show ?thesis by (simp add: Lui dispatch_enc)
next
  case (Auipc rd imm)
  have "on_cpu exec_auipc h (encode ins) m = Inr (upd_cpu h (isa 4 ins) m)"
    by (rule on_cpu_cong) (use assms jump_meaning(4) in \<open>simp add: Auipc\<close>)
  then show ?thesis by (simp add: Auipc dispatch_enc)
qed

text \<open>
  C3. For every encoding of these instructions that \<open>faithful\<close> admits, decoding and executing the
  word has exactly the effect the architecture gives the instruction: the result in the destination
  register, the next program counter, and nothing else in the machine changed.
\<close>

theorem executes_isa:
  assumes "gpr (cpus m h) 0 = 0" and "faithful ins"
  shows "decode_and_execute h (encode ins) m = Inr (upd_cpu h (isa 4 ins) m)"
  by (rule isa_exec [OF assms])

text \<open>\<open>addi x1, x0, 5\<close> on the zeroed machine.\<close>

theorem executes_isa_witness:
  "encode (Op_Imm Addi 1 0 5) = 0x00500093 \<and>
   (\<exists>m'. decode_and_execute 0 0x00500093 blank = Inr m' \<and> gpr (cpus m' 0) 1 = 5 \<and> pc (cpus m' 0) = 4)"
proof -
  have e: "encode (Op_Imm Addi 1 0 5) = 0x00500093"
    by (simp add: enc_i_def enc_r_def)
  have "decode_and_execute 0 (encode (Op_Imm Addi 1 0 5)) blank = Inr (upd_cpu 0 (isa 4 (Op_Imm Addi 1 0 5)) blank)"
    by (rule executes_isa) (simp_all add: zero_defs)
  then show ?thesis
    unfolding e by (simp add: goto_def set_x_def get_x_def zero_defs)
qed

section \<open>Where the emulator departs from the architecture\<close>

text \<open>
  \<open>bge\<close> compares its operands without sign: the word for \<open>bge\<close> does whatever the word for
  \<open>bgeu\<close> does, in every state.
\<close>

theorem bge_is_unsigned:
  "decode_and_execute h (encode (Branch Bge rs1 rs2 off)) m = decode_and_execute h (encode (Branch Bgeu rs1 rs2 off)) m"
  unfolding branch_dispatch by (simp add: on_cpu_def exec_bge_def exec_bgeu_def branch_def)

text \<open>
  The message of \<open>xori\<close> reads the register file at the immediate instead of at \<open>rs1\<close>: inside it for the
  immediates 0 to 31 only, so \<open>not\<close>, whose immediate is -1, reads before its start.
\<close>

theorem xori_message_outside:
  "(xori_message_read (encode (Op_Imm Xori rd rs1 imm)) c = None \<longleftrightarrow> 32 \<le> unat (scast imm :: u64)) \<and>
   xori_message_read (encode (Op_Imm Xori rd rs1 (-1))) c = None"
proof -
  have i: "xori_message_read (encode (Op_Imm Xori rd rs1 imm)) c = None \<longleftrightarrow> 32 \<le> unat (scast imm :: u64)" for imm
    by (simp add: xori_message_read_def Let_def imm_forms_i not_less)
  have "(scast (-1 :: 12 word) :: u64) = -1" by (rule bit_word_eqI) (simp add: bit_signed_iff)
  then have "32 \<le> unat (scast (-1 :: 12 word) :: u64)" by (simp add: unsigned_minus_1_eq_mask mask_eq_exp_minus_1)
  with i show ?thesis by blast
qed

lemma scast_twice: "scast (scast (x :: 19 word) :: 20 word) = (scast x :: u64)"
  "scast (scast (y :: 11 word) :: 12 word) = (scast y :: u64)"
proof -
  show "scast (scast x :: 20 word) = (scast x :: u64)"
    by (rule bit_word_eqI) (simp add: bit_signed_iff min_less_iff_disj min.left_commute [of 18] min.left_commute [of 10] min.assoc [symmetric])
  show "scast (scast y :: 12 word) = (scast y :: u64)"
    by (rule bit_word_eqI) (simp add: bit_signed_iff min_less_iff_disj min.left_commute [of 18] min.left_commute [of 10] min.assoc [symmetric])
qed

text \<open>
  \<open>jal\<close> and \<open>blt\<close> lose the top bit of their offset: they execute the instruction with the
  offset in which the top bit repeats the next one. Jumps of 512 KiB and more, and \<open>blt\<close> over
  2 KiB and more, therefore go the wrong way.
\<close>

theorem offsets_lose_top_bit:
  assumes "gpr (cpus m h) 0 = 0"
  shows "decode_and_execute h (encode (Jal rd off)) m = Inr (upd_cpu h (isa 4 (Jal rd (scast (ucast off :: 19 word)))) m) \<and>
    decode_and_execute h (encode (Branch Blt rs1 rs2 boff)) m =
      Inr (upd_cpu h (isa 4 (Branch Blt rs1 rs2 (scast (ucast boff :: 11 word)))) m)"
proof
  have j: "offset (scast (ucast off :: 19 word) :: 20 word) = scast (ucast off :: 19 word) * 2"
    unfolding offset_def scast_twice ..
  have "on_cpu exec_jal h (encode (Jal rd off)) m = Inr (upd_cpu h (isa 4 (Jal rd (scast (ucast off :: 19 word)))) m)"
    by (rule on_cpu_cong) (simp add: exec_jal_def reg_rules j)
  then show "decode_and_execute h (encode (Jal rd off)) m = Inr (upd_cpu h (isa 4 (Jal rd (scast (ucast off :: 19 word)))) m)"
    by (simp add: dispatch_enc)
  have b: "offset (scast (ucast boff :: 11 word) :: 12 word) = scast (ucast boff :: 11 word) * 2"
    unfolding offset_def scast_twice ..
  show "decode_and_execute h (encode (Branch Blt rs1 rs2 boff)) m =
      Inr (upd_cpu h (isa 4 (Branch Blt rs1 rs2 (scast (ucast boff :: 11 word)))) m)"
    unfolding branch_dispatch
    by (rule on_cpu_cong) (use assms in \<open>simp add: exec_blt_def branch_def reg_rules b\<close>)
qed

text \<open>\<open>jal\<close> with the offset \<open>-2^20\<close> (0x80000 halfwords) jumps to itself.\<close>

theorem offsets_lose_top_bit_witness:
  "pc (isa 4 (Jal 0 0x80000) (cpus blank 0)) = 0xFFFFFFFFFFF00000 \<and>
   decode_and_execute 0 (encode (Jal 0 0x80000)) blank = Inr (upd_cpu 0 (isa 4 (Jal 0 0)) blank)"
proof
  have z: "gpr (cpus blank 0) 0 = 0" "pc (cpus blank 0) = 0" by (simp_all add: zero_defs)
  then show "pc (isa 4 (Jal 0 0x80000) (cpus blank 0)) = 0xFFFFFFFFFFF00000"
    by (simp add: offset_def)
  have "scast (ucast (0x80000 :: 20 word) :: 19 word) = (0 :: 20 word)" by simp
  with offsets_lose_top_bit [OF z(1), of 0 "0x80000"]
  show "decode_and_execute 0 (encode (Jal 0 0x80000)) blank = Inr (upd_cpu 0 (isa 4 (Jal 0 0)) blank)"
    by (simp only:)
qed

text \<open>
  The register operations without a handler are exactly \<open>sll\<close>, \<open>slt\<close>, \<open>sra\<close> and \<open>rem\<close>:
  executing one of them calls through an empty table entry, whatever the operands and the state.
\<close>

theorem missing_operations:
  "decode_and_execute h (encode (Op op rd rs1 rs2)) m = Inl NullCall \<longleftrightarrow> op \<in> {Sll, Slt, Sra, Rem}"
  unfolding op_dispatch by (cases op) (simp_all add: call_def on_cpu_def)

text \<open>
  \<open>mul\<close> yields the low 32 bits of the product, without sign; \<open>div\<close> by the register \<open>x0\<close>
  yields 0 instead of -1, and with \<open>x0\<close> as destination, too, it stores the dividend in \<open>gpr[0]\<close>.
\<close>

theorem mul_div_depart:
  assumes "gpr (cpus m h) 0 = 0"
  shows "decode_and_execute h (encode (Op Mul rd rs1 rs2)) m =
      Inr (upd_cpu h (\<lambda>c. goto (pc c + 4) (set_x rd (take_bit 32 (get_x c rs1 * get_x c rs2)) c)) m) \<and>
    decode_and_execute h (encode (Op Div rd rs1 0)) m =
      Inr (upd_cpu h (\<lambda>c. goto (pc c + 4) (if rd = 0 then put_gpr 0 (get_x c rs1) c else set_x rd 0 c)) m)"
proof -
  have w: "(x :: u64) AND 0xFFFFFFFF = take_bit 32 x" for x by (simp add: take_bit_eq_mask mask_eq_exp_minus_1)
  have "set_x rd 0 (put_gpr (ucast rd) v c) = set_x rd 0 c" if "rd \<noteq> 0" for v c
    using that by (simp add: set_x_def put_gpr_def)
  moreover have "advance 4 (put_gpr 0 v c) = goto (pc c + 4) (put_gpr 0 v c)" for v c
    by (simp add: advance_def goto_def put_gpr_def)
  ultimately show ?thesis
    unfolding op_dispatch handler.simps call_def option.map option.case
    using assms
    by (auto intro!: on_cpu_cong simp: exec_mul_def r_op_enc w exec_div_def Let_def reg_rules set_x_def)
qed

theorem mul_div_depart_witness:
  "\<exists>m'. decode_and_execute 0 (encode (Op Div 1 2 0)) blank = Inr m' \<and> gpr (cpus m' 0) 1 = 0"
proof -
  have "gpr (cpus blank 0) 0 = 0" by (simp add: zero_defs)
  from mul_div_depart [OF this, of 1 2] show ?thesis by (auto simp: set_x_def)
qed

end
