(* ===== verification/Isa_System.thy ===== *)
theory Isa_System
  imports Isa
begin

text \<open>
  The CSR instructions against the architecture (the rules of access to a register by its number,
  and what each instruction reads and writes), as words executed through the dispatch of the decoder.
\<close>

datatype csr_op = Csrrw | Csrrs | Csrrc | Csrrwi | Csrrsi | Csrrci

fun csr_code :: "csr_op \<Rightarrow> 3 word" where
  "csr_code Csrrw = 1" | "csr_code Csrrs = 2" | "csr_code Csrrc = 3"
| "csr_code Csrrwi = 5" | "csr_code Csrrsi = 6" | "csr_code Csrrci = 7"

definition encode_csr :: "csr_op \<Rightarrow> reg \<Rightarrow> 12 word \<Rightarrow> reg \<Rightarrow> u32" where
  "encode_csr op rd n rs1 = enc_i n rs1 (csr_code op) rd 0x73"

text \<open>
  The field \<open>rs1\<close> names a register or is the operand itself; the new value of the CSR comes from the
  old one and the operand.
\<close>

definition is_imm :: "csr_op \<Rightarrow> bool" where
  "is_imm op \<longleftrightarrow> op = Csrrwi \<or> op = Csrrsi \<or> op = Csrrci"

definition csr_operand :: "csr_op \<Rightarrow> reg \<Rightarrow> CPU_State \<Rightarrow> u64" where
  "csr_operand op rs1 c = (if is_imm op then ucast rs1 else get_x c rs1)"

fun csr_new :: "csr_op \<Rightarrow> u64 \<Rightarrow> u64 \<Rightarrow> u64" where
  "csr_new Csrrw old v = v" | "csr_new Csrrs old v = old OR v" | "csr_new Csrrc old v = old AND NOT v"
| "csr_new Csrrwi old v = v" | "csr_new Csrrsi old v = old OR v" | "csr_new Csrrci old v = old AND NOT v"

definition set_csr :: "12 word \<Rightarrow> u64 \<Rightarrow> CPU_State \<Rightarrow> CPU_State" where
  "set_csr n v c = c\<lparr>csr := (csr c)(ucast n := v)\<rparr>"

definition get_csr :: "CPU_State \<Rightarrow> 12 word \<Rightarrow> u64" where
  "get_csr c n = csr c (ucast n)"

text \<open>
  The access rules: bits 9:8 of the number are the lowest mode that may access the register, and a
  register whose bits 11:10 are both set is read-only. The set and clear forms do not write when
  their \<open>rs1\<close> field is 0. \<open>None\<close> is the illegal-instruction exception.
\<close>

definition csr_writes :: "csr_op \<Rightarrow> reg \<Rightarrow> bool" where
  "csr_writes op rs1 \<longleftrightarrow> op = Csrrw \<or> op = Csrrwi \<or> rs1 \<noteq> 0"

definition csr_permitted :: "int \<Rightarrow> 12 word \<Rightarrow> bool \<Rightarrow> bool" where
  "csr_permitted mode n wr \<longleftrightarrow> uint (drop_bit 8 n AND 3) \<le> mode \<and> (wr \<longrightarrow> drop_bit 10 n \<noteq> 3)"

definition csr_effect :: "csr_op \<Rightarrow> reg \<Rightarrow> 12 word \<Rightarrow> reg \<Rightarrow> CPU_State \<Rightarrow> CPU_State" where
  "csr_effect op rd n rs1 c = goto (pc c + 4) (set_x rd (get_csr c n)
     (if csr_writes op rs1 then set_csr n (csr_new op (get_csr c n) (csr_operand op rs1 c)) c else c))"

definition isa_csr :: "csr_op \<Rightarrow> reg \<Rightarrow> 12 word \<Rightarrow> reg \<Rightarrow> CPU_State \<Rightarrow> CPU_State option" where
  "isa_csr op rd n rs1 c =
     (if csr_permitted (privilege c) n (csr_writes op rs1) then Some (csr_effect op rd n rs1 c) else None)"

section \<open>Lemmas\<close>

lemma csr_number: "drop_bit 20 (enc_i n rs1 f3 rd op) AND 0xFFF = ucast n"
  using slice [of "enc_i n rs1 f3 rd op" 20 n] bit_enc_i [of n rs1 f3 rd op] by (simp add: mask_consts)

lemma csr_imm: "ucast (drop_bit 15 (enc_i n rs1 f3 rd op) AND 0x1F) = (ucast rs1 :: u64)"
proof (rule bit_word_eqI)
  let ?i = "enc_i n rs1 f3 rd op"
  fix k assume "k < LENGTH(64)"
  have "bit (ucast (drop_bit 15 ?i AND 0x1F) :: u64) k = bit (rs1_of ?i) k"
    by (auto simp: rs1_of_def mask_consts bit_simps)
  then show "bit (ucast (drop_bit 15 ?i AND 0x1F) :: u64) k = bit (ucast rs1 :: u64) k"
    by (auto simp: bit_simps dest: bit_imp_le_length)
qed

lemma csr_index: "(ucast (n :: 12 word) AND 0xFFF :: u32) = ucast n"
  by (rule bit_word_eqI) (auto simp: mask_consts bit_simps dest: bit_imp_le_length)

lemma dispatch_csr:
  "decode_and_execute h (encode_csr op rd n rs1) m = Inr (upd_cpu h (exec_csr (encode_csr op rd n rs1)) m)"
proof -
  let ?i = "encode_csr op rd n rs1"
  have "decode_and_execute h ?i m = handle_system h ?i m"
    unfolding encode_csr_def by (rule dispatch_fields; simp add: opcode_entries)
  also have "\<dots> = Inr (upd_cpu h (exec_csr ?i) m)"
    by (cases op) (simp_all add: handle_system_def Let_def encode_csr_def csr_instr_def call_def on_cpu_def)
  finally show ?thesis .
qed

lemma exec_csr_enc:
  "exec_csr (encode_csr Csrrw rd n rs1) c = advance 4 (set_x rd (get_csr c n) (set_csr n (gpr c (ucast rs1)) c))"
  "exec_csr (encode_csr Csrrs rd n rs1) c = advance 4 (let c' = set_x rd (get_csr c n) c in
     if rs1 \<noteq> 0 then set_csr n (get_csr c' n OR gpr c' (ucast rs1)) c' else c')"
  "exec_csr (encode_csr Csrrc rd n rs1) c = advance 4 (let c' = set_x rd (get_csr c n) c in
     set_csr n (get_csr c' n AND NOT (gpr c' (ucast rs1))) c')"
  "exec_csr (encode_csr Csrrwi rd n rs1) c = advance 4 (set_csr n (ucast rs1) (set_x rd (get_csr c n) c))"
  "exec_csr (encode_csr Csrrci rd n rs1) c =
     advance 4 (set_csr n (get_csr c n AND NOT (ucast rs1)) (set_x rd (get_csr c n) c))"
  by (simp_all add: exec_csr_def encode_csr_def Let_def csr_number csr_imm csr_index set_csr_def get_csr_def read_csr_def write_csr_def)

lemma csr_swap:
  "set_csr n w (set_x r v c) = set_x r v (set_csr n w c)" "get_csr (set_x r v c) n = get_csr c n"
  "pc (set_csr n w c) = pc c" "set_csr n (get_csr c n) c = c"
  by (simp_all add: set_csr_def get_csr_def set_x_def)

lemma get_x_set_other: "gpr c 0 = 0 \<Longrightarrow> r \<noteq> q \<or> q = 0 \<Longrightarrow> gpr (set_x q v c) (ucast r) = get_x c r"
  by (auto simp: set_x_def get_x_def)

lemma get_x_set_same: "gpr c 0 = 0 \<Longrightarrow> r \<noteq> 0 \<Longrightarrow> gpr (set_x r v c) (ucast r) = v"
  by (simp add: set_x_def)

lemma exec_csr_effect:
  assumes "gpr c 0 = 0" "op \<noteq> Csrrsi" "op = Csrrs \<or> op = Csrrc \<longrightarrow> rd \<noteq> rs1 \<or> rd = 0"
  shows "exec_csr (encode_csr op rd n rs1) c = csr_effect op rd n rs1 c"
proof -
  have g: "gpr (set_x rd (get_csr c n) c) (ucast rs1) = get_x c rs1" if "op = Csrrs \<or> op = Csrrc"
    using assms(3) that by (intro get_x_set_other [OF assms(1)]) auto
  note d = exec_csr_enc csr_effect_def csr_writes_def csr_operand_def is_imm_def Let_def advance_goto csr_swap
  show ?thesis
  proof (cases op)
    case Csrrw
    then show ?thesis using assms(1) by (simp add: d gpr_get_x)
  next
    case Csrrs
    with g show ?thesis by (cases "rs1 = 0") (simp_all add: d)
  next
    case Csrrc
    with g show ?thesis by (cases "rs1 = 0") (simp_all add: d get_x_def)
  qed (use assms(2) in \<open>cases "rs1 = 0"; simp add: d\<close>)+
qed

section \<open>Properties\<close>

text \<open>
  C7. What the architecture's rules of access permit, the CSR instructions do as the architecture
  says: \<open>csrrw\<close>, \<open>csrrs\<close>, \<open>csrrc\<close>, \<open>csrrwi\<close> and \<open>csrrci\<close> give the old value to the destination and
  replace the register, or set or clear its bits, by the operand, the set and clear forms not
  writing when their \<open>rs1\<close> field is 0. Left out are \<open>csrrsi\<close>, which has no handler, and
  \<open>csrrs\<close> and \<open>csrrc\<close> with one register as source and destination. What the architecture says of the
  contents of single registers (fields that cannot be written, \<open>sstatus\<close> as a view of \<open>mstatus\<close>) is not
  part of the rule here: a register is 64 bits of storage.
\<close>

theorem csr_follows_isa:
  assumes "gpr (cpus m h) 0 = 0" and "op \<noteq> Csrrsi" and "op = Csrrs \<or> op = Csrrc \<longrightarrow> rd \<noteq> rs1 \<or> rd = 0"
    and "isa_csr op rd n rs1 (cpus m h) = Some c'"
  shows "decode_and_execute h (encode_csr op rd n rs1) m = Inr (upd_cpu h (\<lambda>_. c') m)"
proof -
  have "exec_csr (encode_csr op rd n rs1) (cpus m h) = c'"
    using exec_csr_effect [OF assms(1-3), of n] assms(4) by (simp add: isa_csr_def split: if_splits)
  then show ?thesis unfolding dispatch_csr by (simp only: sum.inject) (rule upd_cpu_cong)
qed

text \<open>\<open>csrrw x1, mscratch, x2\<close> in machine mode.\<close>

definition csr_machine :: machine where
  "csr_machine = upd_cpu 0 (\<lambda>c. put_gpr 2 7 (c\<lparr>privilege := 3, csr := (\<lambda>_. 0)(0x340 := 5)\<rparr>)) blank"

theorem csr_follows_isa_witness:
  "\<exists>m'. decode_and_execute 0 (encode_csr Csrrw 1 0x340 2) csr_machine = Inr m' \<and>
     csr (cpus m' 0) 0x340 = 7 \<and> gpr (cpus m' 0) 1 = 5"
proof -
  have z: "gpr (cpus csr_machine 0) = (\<lambda>_. 0)(2 := 7)" "csr (cpus csr_machine 0) = (\<lambda>_. 0)(0x340 := 5)"
    "privilege (cpus csr_machine 0) = 3"
    by (simp_all add: csr_machine_def put_gpr_def zero_defs)
  have "isa_csr Csrrw 1 0x340 2 (cpus csr_machine 0) = Some (csr_effect Csrrw 1 0x340 2 (cpus csr_machine 0))"
    unfolding isa_csr_def z(3) csr_permitted_def csr_writes_def by (simp add: drop_bit_eq_div)
  from csr_follows_isa [OF _ _ _ this] z show ?thesis
    by (simp add: csr_effect_def csr_writes_def csr_operand_def is_imm_def set_csr_def get_csr_def goto_def set_x_def get_x_def)
qed

text \<open>
  What the rules refuse is done all the same: no mode and no number is checked. In user mode
  \<open>csrrw x1, satp, x2\<close> replaces the root of the page table.
\<close>

theorem csr_access_unchecked:
  assumes "gpr (cpus m h) 0 = 0" and "op \<noteq> Csrrsi" and "op = Csrrs \<or> op = Csrrc \<longrightarrow> rd \<noteq> rs1 \<or> rd = 0"
    and "isa_csr op rd n rs1 (cpus m h) = None"
  shows "decode_and_execute h (encode_csr op rd n rs1) m = Inr (upd_cpu h (csr_effect op rd n rs1) m)"
  using exec_csr_effect [OF assms(1-3), of n] unfolding dispatch_csr
  by (simp only: sum.inject) (rule upd_cpu_cong)

theorem csr_access_unchecked_witness:
  "isa_csr Csrrw 1 0x180 2 (cpus blank 0) = None \<and>
   (\<exists>m'. decode_and_execute 0 (encode_csr Csrrw 1 0x180 2) blank = Inr m' \<and>
     m' = upd_cpu 0 (csr_effect Csrrw 1 0x180 2) blank)"
proof -
  have "isa_csr Csrrw 1 0x180 2 (cpus blank 0) = None"
    by (simp add: isa_csr_def csr_permitted_def zero_defs drop_bit_eq_div)
  then show ?thesis using csr_access_unchecked [of blank 0 Csrrw 1 2 "0x180"] by (simp add: zero_defs)
qed

text \<open>
  With one register as source and destination, \<open>csrrs\<close> only reads the CSR, and \<open>csrrc\<close> clears
  it altogether: the operand is read after the old value has been written over it.
\<close>

theorem csr_source_overwritten:
  assumes "gpr (cpus m h) 0 = 0" and "r \<noteq> 0"
  shows "decode_and_execute h (encode_csr Csrrs r n r) m =
      Inr (upd_cpu h (\<lambda>c. goto (pc c + 4) (set_x r (get_csr c n) c)) m) \<and>
    decode_and_execute h (encode_csr Csrrc r n r) m =
      Inr (upd_cpu h (\<lambda>c. goto (pc c + 4) (set_x r (get_csr c n) (set_csr n 0 c))) m)"
proof -
  let ?c = "cpus m h"
  have v: "gpr (set_x r (get_csr ?c n) ?c) (ucast r) = get_csr ?c n" using assms by (rule get_x_set_same)
  show ?thesis
    unfolding dispatch_csr
    by (intro conjI, simp_all only: sum.inject, rule_tac [!] upd_cpu_cong)
      (simp_all add: exec_csr_enc Let_def v csr_swap advance_goto assms(2))
qed

theorem csr_source_overwritten_witness:
  "\<exists>m'. decode_and_execute 0 (encode_csr Csrrc 5 0x300 5) (upd_cpu 0 (\<lambda>c. c\<lparr>csr := (\<lambda>_. 8)\<rparr>) blank) = Inr m' \<and>
     csr (cpus m' 0) CSR_MSTATUS = 0"
proof -
  have "gpr (cpus (upd_cpu 0 (\<lambda>c. c\<lparr>csr := (\<lambda>_. 8)\<rparr>) blank) 0) 0 = 0" by (simp add: zero_defs)
  from csr_source_overwritten [OF this, of 5 "0x300"] show ?thesis
    by (simp add: set_csr_def goto_def set_x_def)
qed

end
