(* ===== verification/Isa_Memory.thy ===== *)
theory Isa_Memory
  imports Isa
begin

text \<open>
  Loads and stores against the architecture. The access is stated for an address that translates
  to guest memory; addresses of devices and faults are in \<open>Bus\<close> and \<open>Mmu\<close>.
\<close>

section \<open>Abstract loads and stores\<close>

datatype load_op = Lb | Lh | Lw | Ld | Lbu | Lhu | Lwu
datatype store_op = Sb | Sh | Sw | Sd

fun load_code :: "load_op \<Rightarrow> 3 word" where
  "load_code Lb = 0" | "load_code Lh = 1" | "load_code Lw = 2" | "load_code Ld = 3"
| "load_code Lbu = 4" | "load_code Lhu = 5" | "load_code Lwu = 6"

fun load_size :: "load_op \<Rightarrow> nat" where
  "load_size Lb = 1" | "load_size Lh = 2" | "load_size Lw = 4" | "load_size Ld = 8"
| "load_size Lbu = 1" | "load_size Lhu = 2" | "load_size Lwu = 4"

text \<open>How the loaded bytes become a register value.\<close>

fun extend :: "load_op \<Rightarrow> u64 \<Rightarrow> u64" where
  "extend Lb v = scast (ucast v :: u8)" | "extend Lh v = scast (ucast v :: u16)"
| "extend Lw v = scast (ucast v :: u32)" | "extend Ld v = v"
| "extend Lbu v = ucast (ucast v :: u8)" | "extend Lhu v = ucast (ucast v :: u16)"
| "extend Lwu v = ucast (ucast v :: u32)"

fun store_code :: "store_op \<Rightarrow> 3 word" where
  "store_code Sb = 0" | "store_code Sh = 1" | "store_code Sw = 2" | "store_code Sd = 3"

fun store_size :: "store_op \<Rightarrow> nat" where
  "store_size Sb = 1" | "store_size Sh = 2" | "store_size Sw = 4" | "store_size Sd = 8"

definition encode_load :: "load_op \<Rightarrow> reg \<Rightarrow> reg \<Rightarrow> 12 word \<Rightarrow> u32" where
  "encode_load op rd rs1 imm = enc_i imm rs1 (load_code op) rd 0x03"

definition encode_store :: "store_op \<Rightarrow> reg \<Rightarrow> reg \<Rightarrow> 12 word \<Rightarrow> u32" where
  "encode_store op rs1 rs2 imm = enc_s imm rs2 rs1 (store_code op) 0x23"

definition mem_addr :: "CPU_State \<Rightarrow> reg \<Rightarrow> 12 word \<Rightarrow> u64" where
  "mem_addr c rs1 imm = get_x c rs1 + scast imm"

text \<open>What a load leaves behind.\<close>

definition isa_load :: "load_op \<Rightarrow> reg \<Rightarrow> u64 \<Rightarrow> CPU_State \<Rightarrow> CPU_State" where
  "isa_load op rd v c = goto (pc c + 4) (set_x rd (extend op v) c)"

section \<open>Lemmas\<close>

lemma le_load_small: "n < 8 \<Longrightarrow> take_bit (8 * n) (le_load rd a n) = le_load rd a n"
  by (rule bit_word_eqI) (auto simp: bit_simps bit_le_load)

lemma byte_casts:
  "(ucast (ucast (ucast (b :: u8) :: u64) :: u32) :: u64) = ucast b" "(ucast (ucast (b :: u8) :: u64) :: u8) = b"
  by (rule bit_word_eqI; auto simp: bit_simps dest: bit_imp_le_length)+

lemma half_mask: "x AND 0xFFFF = (ucast (ucast (x :: u64) :: u16) :: u64)"
proof -
  have m: "(0xFFFF :: u64) = mask 16" by (simp add: mask_eq_exp_minus_1)
  show ?thesis unfolding m by (rule bit_word_eqI) (auto simp: bit_simps)
qed

lemma load_into_ram:
  assumes "ram_addr pa n" "0 < n" "n \<le> 8" "cpu_bus (cpus m h) = emu_bus"
  shows "load_into conv n h pa rd m =
    Inr (upd_cpu h (write_gpr rd (conv (le_load (memory m) (pa - MEMORY_BASE) n))) m)"
  by (simp add: load_into_def hart_read_def assms bus_read_ram)

lemma exec_load_meaning:
  assumes "cpu_bus (cpus m1 h) = emu_bus" "ram_addr pa (load_size op)" "op \<noteq> Lw"
    "get_pa h (gpr (cpus m h) (rs1_of (encode_load op rd rs1 imm)) + imm_i (encode_load op rd rs1 imm)) ACC_LOAD m = Inr (pa, m1)"
  shows "exec_load h (encode_load op rd rs1 imm) m =
    Inr (upd_cpu h (isa_load op rd (le_load (memory m1) (pa - MEMORY_BASE) (load_size op))) m1)"
  unfolding exec_load_def Let_def assms(4) rbind.simps split_beta fst_conv snd_conv
  using assms(1-3)
  by (cases op)
    (simp_all add: encode_load_def load_lb_def load_lh_def load_lbu_def load_into_ram
      isa_load_def advance_goto byte_casts half_mask)

text \<open>Storing the low bytes of a value is storing the value.\<close>

lemma le_store_low: "n \<le> 8 \<Longrightarrow> le_store put a (take_bit (8 * n) v) n s = le_store put a v n s"
proof -
  assume n: "n \<le> 8"
  have "k \<le> n \<Longrightarrow> le_store put a (take_bit (8 * n) v) k s = le_store put a v k s" for k
  proof (induction k)
    case (Suc k)
    have "(ucast (drop_bit (8 * k) (take_bit (8 * n) v)) :: u8) = ucast (drop_bit (8 * k) v)"
      using Suc.prems by (intro bit_word_eqI) (auto simp: bit_simps)
    with Suc show ?case by simp
  qed simp
  then show ?thesis by simp
qed

lemma store_casts:
  fixes v :: u64
  shows "ucast (ucast (v AND 0xFF) :: u8) = take_bit (8 * 1) v"
    and "ucast (ucast (v AND 0xFFFF) :: u16) = take_bit (8 * 2) v"
    and "ucast (ucast (v AND 0xFFFFFFFF) :: u32) = take_bit (8 * 4) v"
proof -
  have m: "(0xFF :: u64) = mask 8" "(0xFFFF :: u64) = mask 16" "(0xFFFFFFFF :: u64) = mask 32"
    by (simp_all add: mask_eq_exp_minus_1)
  show "ucast (ucast (v AND 0xFF) :: u8) = take_bit (8 * 1) v" unfolding m
    by (rule bit_word_eqI) (auto simp: bit_simps)
  show "ucast (ucast (v AND 0xFFFF) :: u16) = take_bit (8 * 2) v" unfolding m
    by (rule bit_word_eqI) (auto simp: bit_simps)
  show "ucast (ucast (v AND 0xFFFFFFFF) :: u32) = take_bit (8 * 4) v" unfolding m
    by (rule bit_word_eqI) (auto simp: bit_simps)
qed

lemma bus_write_low:
  "ram_addr pa n \<Longrightarrow> 0 < n \<Longrightarrow> n \<le> 8 \<Longrightarrow>
   bus_write emu_bus pa (take_bit (8 * n) v) n m = Inr (le_store poke (pa - MEMORY_BASE) v n m)"
  by (simp only: bus_write_ram le_store_low)

lemma store_pa_ram:
  assumes "cpu_bus (cpus m h) = emu_bus"
  shows "ram_addr pa 1 \<Longrightarrow> cpu_store8_pa h pa (ucast (v AND 0xFF)) m = Inr (le_store poke (pa - MEMORY_BASE) v 1 m)"
    and "ram_addr pa 2 \<Longrightarrow> cpu_store16_pa h pa (ucast (v AND 0xFFFF)) m = Inr (le_store poke (pa - MEMORY_BASE) v 2 m)"
    and "ram_addr pa 4 \<Longrightarrow> cpu_store32_pa h pa (ucast (v AND 0xFFFFFFFF)) m = Inr (le_store poke (pa - MEMORY_BASE) v 4 m)"
    and "ram_addr pa 8 \<Longrightarrow> cpu_store64_pa h pa v m = Inr (le_store poke (pa - MEMORY_BASE) v 8 m)"
  unfolding cpu_store8_pa_def cpu_store16_pa_def cpu_store32_pa_def cpu_store64_pa_def assms store_casts
  by (rule bus_write_low bus_write_ram; simp)+

section \<open>Properties\<close>

lemma dispatch_load: "decode_and_execute h (encode_load op rd rs1 imm) m = exec_load h (encode_load op rd rs1 imm) m"
  by (simp add: encode_load_def dispatch_enc)

lemma dispatch_store: "decode_and_execute h (encode_store op rs1 rs2 imm) m = exec_store h (encode_store op rs1 rs2 imm) m"
  by (simp add: encode_store_def dispatch_enc)

lemma addr_load: "gpr (cpus m h) 0 = 0 \<Longrightarrow> gpr (cpus m h) (rs1_of (encode_load op rd rs1 imm)) + imm_i (encode_load op rd rs1 imm) =
    mem_addr (cpus m h) rs1 imm"
  by (simp add: encode_load_def mem_addr_def imm_forms_i reg_rules)

lemma addr_store: "gpr (cpus m h) 0 = 0 \<Longrightarrow> gpr (cpus m h) (rs1_of (encode_store op rs1 rs2 imm)) + imm_s (encode_store op rs1 rs2 imm) =
    mem_addr (cpus m h) rs1 imm"
  by (simp add: encode_store_def mem_addr_def reg_rules)

lemma load_exec:
  assumes "gpr (cpus m h) 0 = 0"
    and "get_pa h (mem_addr (cpus m h) rs1 imm) ACC_LOAD m = Inr (pa, m1)" and "cpu_bus (cpus m1 h) = emu_bus"
    and "ram_addr pa (load_size op)"
  shows "decode_and_execute h (encode_load op rd rs1 imm) m =
    Inr (upd_cpu h (isa_load (if op = Lw then Lwu else op) rd
      (le_load (memory m1) (pa - MEMORY_BASE) (load_size op))) m1)"
proof (cases "op = Lw")
  case False
  with assms exec_load_meaning [of m1 h pa op m rd rs1 imm] show ?thesis
    by (simp add: dispatch_load addr_load)
next
  case True
  have "load_lw = load_into (\<lambda>v. ucast (ucast v :: u32)) 4" by (simp add: load_lw_def)
  then have "decode_and_execute h (encode_load Lw rd rs1 imm) m = decode_and_execute h (encode_load Lwu rd rs1 imm) m"
    unfolding dispatch_load exec_load_def Let_def by (simp add: encode_load_def imm_forms_i)
  with True assms exec_load_meaning [of m1 h pa Lwu m rd rs1 imm] show ?thesis
    by (simp add: dispatch_load addr_load)
qed

lemma store_exec:
  assumes "gpr (cpus m h) 0 = 0"
    and "get_pa h (mem_addr (cpus m h) rs1 imm) ACC_STORE m = Inr (pa, m1)" and "cpu_bus (cpus m1 h) = emu_bus"
    and "ram_addr pa (store_size op)"
  shows "decode_and_execute h (encode_store op rs1 rs2 imm) m =
    Inr (upd_cpu h (\<lambda>c. goto (pc c + 4) c)
      (le_store poke (pa - MEMORY_BASE) (get_x (cpus m h) rs2) (store_size op) m1))"
proof -
  have v: "gpr (cpus m h) (rs2_of (encode_store op rs1 rs2 imm)) = get_x (cpus m h) rs2"
    using assms(1) by (simp add: encode_store_def reg_rules)
  show ?thesis
    unfolding dispatch_store exec_store_def Let_def addr_store [OF assms(1)] v assms(2) rbind.simps split_beta fst_conv snd_conv
    using assms(3,4) store_pa_ram
    by (cases op) (simp_all add: encode_store_def advance_goto del: le_store.simps One_nat_def)
qed

text \<open>
  C5. Loads follow the architecture: when the address translates to guest memory, the bytes there
  end up in the destination register, extended as the operation says, and the program counter
  moves on; nothing else changes beyond the translation. The exception is \<open>lw\<close>, which
  does whatever \<open>lwu\<close> does: the word is not sign-extended.
\<close>

theorem loads_follow_isa:
  assumes "gpr (cpus m h) 0 = 0"
    and "get_pa h (mem_addr (cpus m h) rs1 imm) ACC_LOAD m = Inr (pa, m1)" and "cpu_bus (cpus m1 h) = emu_bus"
    and "ram_addr pa (load_size op)"
  shows "decode_and_execute h (encode_load op rd rs1 imm) m =
    Inr (upd_cpu h (isa_load (if op = Lw then Lwu else op) rd
      (le_load (memory m1) (pa - MEMORY_BASE) (load_size op))) m1)"
  by (rule load_exec [OF assms])

text \<open>
  C6. Stores follow the architecture: when the address translates to guest memory, the low bytes of
  the source register go there, the program counter moves on, and nothing else changes beyond
  the translation.
\<close>

theorem stores_follow_isa:
  assumes "gpr (cpus m h) 0 = 0"
    and "get_pa h (mem_addr (cpus m h) rs1 imm) ACC_STORE m = Inr (pa, m1)" and "cpu_bus (cpus m1 h) = emu_bus"
    and "ram_addr pa (store_size op)"
  shows "decode_and_execute h (encode_store op rs1 rs2 imm) m =
    Inr (upd_cpu h (\<lambda>c. goto (pc c + 4) c)
      (le_store poke (pa - MEMORY_BASE) (get_x (cpus m h) rs2) (store_size op) m1))"
  by (rule store_exec [OF assms])

text \<open>A hart on the bus of \<open>main\<close>, untranslated, with an address in \<open>x2\<close> and a value in \<open>x3\<close>.\<close>

definition ram_machine :: machine where
  "ram_machine = upd_cpu 0 (\<lambda>c. c\<lparr>cpu_bus := emu_bus, gpr := (\<lambda>_. 0)(2 := 0x80001000, 3 := 0x12345678ABCD)\<rparr>) blank"

lemma ram_machine_simps:
  "gpr (cpus ram_machine 0) = (\<lambda>_. 0)(2 := 0x80001000, 3 := 0x12345678ABCD)" "cpu_bus (cpus ram_machine 0) = emu_bus"
  "csr (cpus ram_machine 0) = (\<lambda>_. 0)" "pc (cpus ram_machine 0) = 0" "memory ram_machine = (\<lambda>_. 0)"
  "mem_addr (cpus ram_machine 0) 2 8 = 0x80001008"
  by (simp_all add: ram_machine_def blank_def zero_machine_def zero_cpu_def mem_addr_def get_x_def)

lemma get_pa_off: "drop_bit 60 (csr (cpus m h) CSR_SATP) AND 0xF = 0 \<Longrightarrow> get_pa h va acc m = Inr (va, m)"
  by (simp add: get_pa_def)

theorem loads_follow_isa_witness:
  "\<exists>m'. decode_and_execute 0 (encode_load Lhu 1 2 8) ram_machine = Inr m' \<and> gpr (cpus m' 0) 1 = 0 \<and> pc (cpus m' 0) = 4"
proof -
  have "get_pa 0 (mem_addr (cpus ram_machine 0) 2 8) ACC_LOAD ram_machine = Inr (0x80001008, ram_machine)"
    unfolding ram_machine_simps by (rule get_pa_off) (simp add: ram_machine_simps)
  then have "decode_and_execute 0 (encode_load Lhu 1 2 8) ram_machine = Inr (upd_cpu 0 (isa_load (if Lhu = Lw then Lwu else Lhu) 1
      (le_load (memory ram_machine) (0x80001008 - MEMORY_BASE) (load_size Lhu))) ram_machine)"
    by (intro loads_follow_isa) (simp_all add: ram_machine_simps ram_addr_def)
  then show ?thesis
    by (simp add: ram_machine_simps isa_load_def set_x_def le_load_2)
qed

theorem stores_follow_isa_witness:
  "\<exists>m'. decode_and_execute 0 (encode_store Sh 2 3 8) ram_machine = Inr m' \<and>
     memory m' 0x1008 = 0xCD \<and> memory m' 0x1009 = 0xAB \<and> pc (cpus m' 0) = 4"
proof -
  let ?n = "le_store poke (0x80001008 - MEMORY_BASE) (get_x (cpus ram_machine 0) 3) (store_size Sh) ram_machine"
  have "get_pa 0 (mem_addr (cpus ram_machine 0) 2 8) ACC_STORE ram_machine = Inr (0x80001008, ram_machine)"
    unfolding ram_machine_simps by (rule get_pa_off) (simp add: ram_machine_simps)
  then have "decode_and_execute 0 (encode_store Sh 2 3 8) ram_machine = Inr (upd_cpu 0 (\<lambda>c. goto (pc c + 4) c) ?n)"
    by (intro stores_follow_isa) (simp_all add: ram_machine_simps ram_addr_def)
  moreover have v: "get_x (cpus ram_machine 0) 3 = 0x12345678ABCD" by (simp add: get_x_def ram_machine_simps)
  have "memory ?n (0x1008 + of_nat i) = ucast (drop_bit (8 * i) (0x12345678ABCD :: u64))" if "i < 2" for i
    unfolding v using host_mem.get_le_store_inside [of i 2 "0x1008"] that by simp
  from this [of 0] this [of 1] have "memory ?n 0x1008 = 0xCD" "memory ?n 0x1009 = 0xAB" by simp_all
  ultimately show ?thesis by (simp add: frame ram_machine_simps)
qed

text \<open>
  C31. A store followed by a load of the same width from the same address, untranslated and in
  guest memory, brings back the stored register: the load finds the low bytes of the source and
  extends them (\<open>lw\<close> as \<open>lwu\<close>), and the next instruction is eight bytes on.
\<close>

theorem store_load_roundtrip:
  assumes "gpr (cpus m h) 0 = 0" and "drop_bit 60 (csr (cpus m h) CSR_SATP) AND 0xF = 0"
    and "cpu_bus (cpus m h) = emu_bus" and "ram_addr (mem_addr (cpus m h) rs1 imm) (store_size s)"
    and "load_size l = store_size s" and "rd \<noteq> 0"
  shows "\<exists>m1 m2. decode_and_execute h (encode_store s rs1 rs2 imm) m = Inr m1 \<and>
    decode_and_execute h (encode_load l rd rs1 imm) m1 = Inr m2 \<and>
    get_x (cpus m2 h) rd = extend (if l = Lw then Lwu else l) (take_bit (8 * store_size s) (get_x (cpus m h) rs2)) \<and>
    pc (cpus m2 h) = pc (cpus m h) + 8"
proof -
  let ?a = "mem_addr (cpus m h) rs1 imm"
  let ?n = "le_store poke (?a - MEMORY_BASE) (get_x (cpus m h) rs2) (store_size s) m"
  let ?m1 = "upd_cpu h (\<lambda>c. goto (pc c + 4) c) ?n"
  have g: "gpr (cpus ?m1 h) = gpr (cpus m h)" "csr (cpus ?m1 h) = csr (cpus m h)" "pc (cpus ?m1 h) = pc (cpus m h) + 4"
    "cpu_bus (cpus ?m1 h) = cpu_bus (cpus m h)" "mem_addr (cpus ?m1 h) rs1 imm = ?a"
    by (simp_all add: frame mem_addr_def get_x_def goto_def)
  have st: "decode_and_execute h (encode_store s rs1 rs2 imm) m = Inr ?m1"
    by (rule store_exec [OF assms(1) get_pa_off [OF assms(2)] assms(3,4)])
  have "get_pa h (mem_addr (cpus ?m1 h) rs1 imm) ACC_LOAD ?m1 = Inr (?a, ?m1)"
    unfolding g(5) by (rule get_pa_off) (use assms(2) g(2) in simp)
  then have "decode_and_execute h (encode_load l rd rs1 imm) ?m1 = Inr (upd_cpu h (isa_load (if l = Lw then Lwu else l) rd
      (le_load (memory ?m1) (?a - MEMORY_BASE) (load_size l))) ?m1)"
    by (rule load_exec [rotated]) (use assms g in simp_all)
  moreover have "le_load (memory ?m1) (?a - MEMORY_BASE) (load_size l) = take_bit (8 * store_size s) (get_x (cpus m h) rs2)"
    using host_mem.load_after_store [of "store_size s"] assms(5) by (cases s) simp_all
  ultimately show ?thesis
    using st assms(6) g(3) by (auto simp: isa_load_def get_x_def set_x_def)
qed

theorem store_load_roundtrip_witness:
  "\<exists>m1 m2. decode_and_execute 0 (encode_store Sw 2 3 8) ram_machine = Inr m1 \<and>
    decode_and_execute 0 (encode_load Lwu 4 2 8) m1 = Inr m2 \<and> get_x (cpus m2 0) 4 = 0x5678ABCD"
proof -
  have v: "extend Lwu (take_bit 32 0x12345678ABCD) = 0x5678ABCD" by (simp add: take_bit_eq_mod)
  have "get_x (cpus ram_machine 0) 3 = 0x12345678ABCD" by (simp add: get_x_def ram_machine_simps)
  with v store_load_roundtrip [of ram_machine 0 2 8 Sw Lwu 4 3] show ?thesis
    by (auto simp: ram_machine_simps ram_addr_def)
qed

end
