(* ===== verification/Isa_Compressed.thy ===== *)
theory Isa_Compressed
  imports Isa
begin

text \<open>
  The compressed instructions of quadrants 1 and 2 that work on registers, against the
  architecture: each stands for a full instruction, its expansion, executed with length 2.
\<close>

section \<open>Abstract compressed instructions\<close>

type_synonym creg = "3 word"

datatype cinstr =
    C_Addi reg "6 word"
  | C_Li reg "6 word"
  | C_Lui reg "6 word"
  | C_Addi16sp "6 word"
  | C_Slli reg "6 word"
  | C_Srli creg "6 word"
  | C_Srai creg "6 word"
  | C_Andi creg "6 word"
  | C_Op alu_op creg creg
  | C_Addw creg creg
  | C_Subw creg creg
  | C_J "11 word"
  | C_Beqz creg "8 word"
  | C_Bnez creg "8 word"
  | C_Mv reg reg
  | C_Add reg reg
  | C_Jr reg
  | C_Jalr reg

text \<open>The eight registers that a three-bit field can name.\<close>

definition cr :: "creg \<Rightarrow> reg" where
  "cr r = ucast r OR 8"

fun expand :: "cinstr \<Rightarrow> instr" where
  "expand (C_Addi rd imm) = Op_Imm Addi rd rd (scast imm)"
| "expand (C_Li rd imm) = Op_Imm Addi rd 0 (scast imm)"
| "expand (C_Lui rd imm) = Lui rd (scast imm)"
| "expand (C_Addi16sp imm) = Op_Imm Addi 2 2 (push_bit 4 (scast imm))"
| "expand (C_Slli rd sh) = Shift Lsl rd rd sh"
| "expand (C_Srli r sh) = Shift Lsr (cr r) (cr r) sh"
| "expand (C_Srai r sh) = Shift Asr (cr r) (cr r) sh"
| "expand (C_Andi r imm) = Op_Imm Andi (cr r) (cr r) (scast imm)"
| "expand (C_Op op r s) = Op op (cr r) (cr r) (cr s)"
| "expand (C_Addw r s) = Op_W Addw (cr r) (cr r) (cr s)"
| "expand (C_Subw r s) = Op_W Subw (cr r) (cr r) (cr s)"
| "expand (C_J off) = Jal 0 (scast off)"
| "expand (C_Beqz r off) = Branch Beq (cr r) 0 (scast off)"
| "expand (C_Bnez r off) = Branch Bne (cr r) 0 (scast off)"
| "expand (C_Mv rd rs) = Op Add rd 0 rs"
| "expand (C_Add rd rs) = Op Add rd rd rs"
| "expand (C_Jr rs) = Jalr 0 rs 0"
| "expand (C_Jalr rs) = Jalr 1 rs 0"

section \<open>Encoding\<close>

text \<open>The common layout: \<open>funct3\<close>, bit 12, five bits from 7, five bits from 2, the quadrant.\<close>

definition enc_c :: "3 word \<Rightarrow> 1 word \<Rightarrow> 5 word \<Rightarrow> 5 word \<Rightarrow> 2 word \<Rightarrow> u16" where
  "enc_c f3 hi r lo q = push_bit 13 (ucast f3) OR push_bit 12 (ucast hi) OR push_bit 7 (ucast r) OR
     push_bit 2 (ucast lo) OR ucast q"

definition enc_ci :: "3 word \<Rightarrow> 6 word \<Rightarrow> 5 word \<Rightarrow> 2 word \<Rightarrow> u16" where
  "enc_ci f3 imm r q = enc_c f3 (ucast (drop_bit 5 imm)) r (ucast imm) q"

definition sub_field :: "2 word \<Rightarrow> creg \<Rightarrow> 5 word" where
  "sub_field f2 r = push_bit 3 (ucast f2) OR ucast r"

definition enc_ca :: "1 word \<Rightarrow> 2 word \<Rightarrow> creg \<Rightarrow> creg \<Rightarrow> u16" where
  "enc_ca hi f2 r s = enc_c 4 hi (sub_field 3 r) (sub_field f2 s) 1"

text \<open>Offset bits 11, 4, 9-8, 10, 6, 7, 3-1 and 5 of \<open>c.j\<close>, from the top; \<open>off\<close> starts at offset bit 1.\<close>

definition enc_cj :: "11 word \<Rightarrow> u16" where
  "enc_cj off = enc_c 5 (ucast (drop_bit 10 off))
     (push_bit 4 (take_bit 1 (ucast (drop_bit 3 off))) OR push_bit 2 (take_bit 2 (ucast (drop_bit 7 off))) OR
      push_bit 1 (take_bit 1 (ucast (drop_bit 9 off))) OR take_bit 1 (ucast (drop_bit 5 off)))
     (push_bit 4 (take_bit 1 (ucast (drop_bit 6 off))) OR push_bit 1 (take_bit 3 (ucast off)) OR
      take_bit 1 (ucast (drop_bit 4 off))) 1"

text \<open>Offset bits 8, 4-3, then 7-6, 2-1 and 5 of the branches.\<close>

definition enc_cb :: "3 word \<Rightarrow> creg \<Rightarrow> 8 word \<Rightarrow> u16" where
  "enc_cb f3 r off = enc_c f3 (ucast (drop_bit 7 off)) (sub_field (ucast (drop_bit 2 off)) r)
     (push_bit 3 (take_bit 2 (ucast (drop_bit 5 off))) OR push_bit 1 (take_bit 2 (ucast off)) OR
      take_bit 1 (ucast (drop_bit 4 off))) 1"

definition enc_sp :: "6 word \<Rightarrow> u16" where
  "enc_sp imm = enc_c 3 (ucast (drop_bit 5 imm)) 2
     (push_bit 4 (take_bit 1 (ucast imm)) OR push_bit 3 (take_bit 1 (ucast (drop_bit 2 imm))) OR
      push_bit 1 (take_bit 2 (ucast (drop_bit 3 imm))) OR take_bit 1 (ucast (drop_bit 1 imm))) 1"

fun ca_code :: "alu_op \<Rightarrow> 2 word" where
  "ca_code Sub = 0" | "ca_code Xor = 1" | "ca_code Or = 2" | "ca_code And = 3" | "ca_code _ = 0"

fun encode_c :: "cinstr \<Rightarrow> u16" where
  "encode_c (C_Addi rd imm) = enc_ci 0 imm rd 1"
| "encode_c (C_Li rd imm) = enc_ci 2 imm rd 1"
| "encode_c (C_Lui rd imm) = enc_ci 3 imm rd 1"
| "encode_c (C_Addi16sp imm) = enc_sp imm"
| "encode_c (C_Slli rd sh) = enc_ci 0 sh rd 2"
| "encode_c (C_Srli r sh) = enc_ci 4 sh (sub_field 0 r) 1"
| "encode_c (C_Srai r sh) = enc_ci 4 sh (sub_field 1 r) 1"
| "encode_c (C_Andi r imm) = enc_ci 4 imm (sub_field 2 r) 1"
| "encode_c (C_Op op r s) = enc_ca 0 (ca_code op) r s"
| "encode_c (C_Addw r s) = enc_ca 1 1 r s"
| "encode_c (C_Subw r s) = enc_ca 1 0 r s"
| "encode_c (C_J off) = enc_cj off"
| "encode_c (C_Beqz r off) = enc_cb 6 r off"
| "encode_c (C_Bnez r off) = enc_cb 7 r off"
| "encode_c (C_Mv rd rs) = enc_c 4 0 rd rs 2"
| "encode_c (C_Add rd rs) = enc_c 4 1 rd rs 2"
| "encode_c (C_Jr rs) = enc_c 4 0 rs 0 2"
| "encode_c (C_Jalr rs) = enc_c 4 1 rs 0 2"

section \<open>Fields\<close>

lemma bit_enc_c:
  "bit (enc_c f3 hi r lo q) n \<longleftrightarrow>
     (if n < 2 then bit q n else if n < 7 then bit lo (n - 2) else if n < 12 then bit r (n - 7)
      else if n = 12 then bit hi 0 else n < 16 \<and> bit f3 (n - 13))"
proof -
  have z: "2 \<le> k \<Longrightarrow> \<not> bit q k" "5 \<le> k \<Longrightarrow> \<not> bit x k" "1 \<le> k \<Longrightarrow> \<not> bit hi k" "3 \<le> k \<Longrightarrow> \<not> bit f3 k"
    for k and x :: "5 word" by (auto dest: bit_imp_le_length)
  show ?thesis
    unfolding enc_c_def bit_rules
    by (cases "n < 2"; cases "n < 7"; cases "n < 12"; cases "n = 12"; cases "n < 16") (simp_all add: z, auto simp: z)
qed

lemma bit_ucast_u16: "bit (ucast (x :: u16) :: u32) n = bit x n"
  by (auto simp: bit_simps dest: bit_imp_le_length)

lemma low_half [simp]: "(ucast (ucast (x :: u16) :: u32) :: u16) = x"
  by (rule bit_word_eqI) (auto simp: bit_simps)

lemmas bits_c = bit_ucast_u16 bit_enc_c

lemma fields_c:
  "cfunct3 (ucast (enc_c f3 hi r lo q)) = ucast f3" "rd_of (ucast (enc_c f3 hi r lo q)) = ucast r"
  "crs2 (ucast (enc_c f3 hi r lo q)) = ucast lo"
  "drop_bit 12 (ucast (enc_c f3 hi r lo q) :: u32) AND 0x1 = ucast hi" "(ucast (enc_c f3 hi r lo q) :: u32) AND 0x3 = ucast q"
proof -
  let ?w = "ucast (enc_c f3 hi r lo q) :: u32"
  show "cfunct3 (?w) = ucast f3"
    using slice [of ?w 13 f3] by (simp add: cfunct3_def mask_consts bits_c)
  show "rd_of (?w) = ucast r"
    using slice [of ?w 7 r] by (simp add: rd_of_def mask_consts bits_c ucast_via_u32)
  show "crs2 (?w) = ucast lo"
    using slice [of ?w 2 lo] by (simp add: crs2_def mask_consts bits_c ucast_via_u32)
  show "drop_bit 12 (?w) AND 0x1 = ucast hi"
    using slice [of ?w 12 hi] unfolding mask_consts(8) by (simp add: bits_c)
  show "?w AND 0x3 = ucast q"
    using slice [of ?w 0 q] by (simp add: mask_consts bits_c)
qed

lemma imm6_enc: "imm6_c (ucast (enc_ci f3 imm r q)) = ucast imm"
proof (rule bit_word_eqI)
  fix n assume "n < LENGTH(32)"
  have z: "6 \<le> k \<Longrightarrow> \<not> bit imm k" for k by (auto dest: bit_imp_le_length)
  show "bit (imm6_c (ucast (enc_ci f3 imm r q))) n = bit (ucast imm :: u32) n"
    unfolding imm6_c_def cfield_def mask_consts bit_rules bits_c enc_ci_def
    by (cases "n < 5"; cases "n = 5") (auto simp: z)
qed

lemma creg_bits:
  assumes "\<forall>i < 3. bit w (k + i) = bit (x :: creg) i"
  shows "creg k w = ucast (cr x)"
proof -
  have s: "drop_bit k w AND mask 3 = ucast x" using slice [of w k x] assms by simp
  have d: "ucast x + 8 = (ucast x OR 8 :: u32)"
    by (rule disjunctive_add) (use bit_imp_le_length [of x] bit_exp_iff [of 3, where 'a = "32 word"] in \<open>auto simp: bit_simps\<close>)
  have e: "(8 :: u32) = push_bit 3 1" "(8 :: reg) = push_bit 3 1" by simp_all
  have "ucast (ucast x OR push_bit 3 1 :: u32) = (ucast (ucast x OR push_bit 3 1 :: reg) :: u8)"
    by (rule bit_word_eqI, unfold bit_rules, auto simp: bit_1_iff dest: bit_imp_le_length)
  then show ?thesis unfolding creg_def mask_consts(2) s d cr_def unfolding e .
qed

lemma creg_enc:
  "creg 7 (ucast (enc_c f3 hi (sub_field f2 r) lo q)) = ucast (cr r)"
  "creg 2 (ucast (enc_c f3 hi ra (sub_field f2 r) q)) = ucast (cr r)"
  by (rule creg_bits, unfold bits_c sub_field_def, unfold bit_rules, auto)+

lemma funct2_enc:
  "drop_bit 10 (ucast (enc_c f3 hi (sub_field f2 r) lo q) :: u32) AND 0x3 = ucast f2"
  "drop_bit 5 (ucast (enc_c f3 hi ra (sub_field f2 r) q) :: u32) AND 0x3 = ucast f2"
proof -
  let ?w = "ucast (enc_c f3 hi (sub_field f2 r) lo q) :: u32"
  let ?v = "ucast (enc_c f3 hi ra (sub_field f2 r) q) :: u32"
  have "bit ?w (10 + i) = bit f2 i" "bit ?v (5 + i) = bit f2 i" if "i < 2" for i
    unfolding bits_c sub_field_def bit_rules using that by (auto dest: bit_imp_le_length)
  then show "drop_bit 10 ?w AND 0x3 = ucast f2" "drop_bit 5 ?v AND 0x3 = ucast f2"
    using slice [of ?w 10 f2] slice [of ?v 5 f2] by (simp_all add: mask_consts)
qed

lemma fields_ci:
  "cfunct3 (ucast (enc_ci f3 imm r q)) = ucast f3" "rd_of (ucast (enc_ci f3 imm r q)) = ucast r"
  "creg 7 (ucast (enc_ci f3 imm (sub_field f2 x) q)) = ucast (cr x)"
  "drop_bit 10 (ucast (enc_ci f3 imm (sub_field f2 x) q) :: u32) AND 0x3 = ucast f2"
  by (simp_all add: enc_ci_def fields_c creg_enc funct2_enc)

section \<open>Handlers against expansions\<close>

lemma cr_nonzero [simp]: "cr r \<noteq> 0"
proof
  assume "cr r = 0"
  then have "\<not> bit (cr r) 3" by simp
  moreover have "(8 :: reg) = push_bit 3 1" by simp
  ultimately show False unfolding cr_def by (simp add: bit_or_iff bit_push_bit_iff del: push_bit_of_1)
qed

lemma put_cr [simp]: "put_gpr (ucast (cr r)) v c = set_x (cr r) v c"
  by (simp add: put_set_x)

lemma get_x_zero [simp]: "get_x c 0 = 0"
  by (simp add: get_x_def)

lemma dispatch_c:
  "decode_and_execute h (ucast (enc_c f3 hi r lo 1)) m = on_cpu (\<lambda>i. exec_c1 (ucast i)) h (ucast (enc_c f3 hi r lo 1)) m"
  "decode_and_execute h (ucast (enc_c f3 hi r lo 2)) m = exec_c2 h (enc_c f3 hi r lo 2) m"
proof -
  have o: "opcode_of (ucast (enc_c f3 hi r lo 1)) = 1" "opcode_of (ucast (enc_c f3 hi r lo 2)) = 2"
    by (simp_all add: opcode_of_def Let_def fields_c)
  have n: "ucast (enc_c f3 hi r lo 1) \<noteq> (0 :: u32)" "ucast (enc_c f3 hi r lo 2) \<noteq> (0 :: u32)"
    using o by (auto simp: opcode_of_def)
  show "decode_and_execute h (ucast (enc_c f3 hi r lo 1)) m = on_cpu (\<lambda>i. exec_c1 (ucast i)) h (ucast (enc_c f3 hi r lo 1)) m"
    "decode_and_execute h (ucast (enc_c f3 hi r lo 2)) m = exec_c2 h (enc_c f3 hi r lo 2) m"
    unfolding decode_and_execute_def handle_opcode_def o using n by (simp_all add: opcode_table_def)
qed

lemma sx_small [simp]: "sx 26 (ucast (imm :: 6 word)) = scast imm"
  by (simp add: sx_scast)

lemma scast_via_12: "scast (scast (imm :: 6 word) :: 12 word) = (scast imm :: u64)"
  by (rule bit_word_eqI) (simp add: bit_signed_iff min_less_iff_disj min.left_commute [of 5] min.assoc [symmetric])

lemma unat_shift_6: "unat (ucast (a :: 6 word) :: u32) = unat a"
  by (rule unat_shift)

lemma ci_meaning:
  assumes "gpr c 0 = 0"
  shows "exec_c1 (encode_c (C_Addi rd imm)) c = isa 2 (expand (C_Addi rd imm)) c"
    and "exec_c1 (encode_c (C_Li rd imm)) c = isa 2 (expand (C_Li rd imm)) c"
    and "exec_c1 (encode_c (C_Andi r imm)) c = isa 2 (expand (C_Andi r imm)) c"
    and "exec_c1 (encode_c (C_Srli r imm)) c = isa 2 (expand (C_Srli r imm)) c"
    and "exec_c1 (encode_c (C_Srai r imm)) c = isa 2 (expand (C_Srai r imm)) c"
    and "c_slli (ucast (encode_c (C_Slli rd imm))) c = isa 2 (expand (C_Slli rd imm)) c"
  using assms
  by (simp_all add: exec_c1_def Let_def fields_ci imm6_enc c_addi_def c_li_def c_alu_def c_slli_def
      reg_rules scast_via_12 unat_shift)

text \<open>The scrambled immediates.\<close>

lemma imm_lui_enc:
  "sx 14 (cfield 2 0x1F 12 (ucast (enc_ci f3 imm r q)) OR cfield 12 0x1 17 (ucast (enc_ci f3 imm r q))) =
   scast (push_bit 12 (ucast (scast imm :: 20 word)) :: u32)"
proof (rule bit_word_eqI)
  fix n assume n: "n < LENGTH(64)"
  show "bit (sx 14 (cfield 2 0x1F 12 (ucast (enc_ci f3 imm r q)) OR cfield 12 0x1 17 (ucast (enc_ci f3 imm r q)))) n =
      bit (scast (push_bit 12 (ucast (scast imm :: 20 word)) :: u32) :: u64) n"
    unfolding cfield_def mask_consts bit_sx [of 14, simplified] bit_rules enc_ci_def bits_c using n
    by (cases "n < 12"; cases "n < 17"; cases "n < 31") (auto simp: min_def bit_rules)
qed

lemma imm_sp_enc:
  "sx 22 (cfield 2 0x1 5 (ucast (enc_sp imm)) OR cfield 3 0x3 7 (ucast (enc_sp imm)) OR cfield 5 0x1 6 (ucast (enc_sp imm)) OR
     cfield 6 0x1 4 (ucast (enc_sp imm)) OR cfield 12 0x1 9 (ucast (enc_sp imm))) =
   scast (push_bit 4 (scast imm :: 12 word) :: 12 word)"
  (is "sx 22 ?x = ?y")
proof (rule bit_word_eqI)
  fix n assume n: "n < LENGTH(64)"
  then consider "n < 4" | "n = 4" | "n = 5" | "n = 6" | "n = 7" | "n = 8" | "9 \<le> n" by linarith
  then show "bit (sx 22 ?x) n = bit ?y n"
    unfolding cfield_def mask_consts bit_sx [of 22, simplified] bit_rules enc_sp_def bits_c using n
    by cases (auto simp: min_def bit_rules)
qed

lemma imm_j_c_enc: "imm_cj (ucast (enc_cj off)) = scast off * 2"
proof (rule double_eqI)
  fix n assume n: "n < LENGTH(64)"
  have "n \<in> {0, 1, 2, 3, 4, 5, 6, 7, 8, 9, 10} \<or> 11 \<le> n"
    by (simp, presburger)
  then show "bit (imm_cj (ucast (enc_cj off))) n = bit (push_bit 1 (scast off) :: u64) n"
    unfolding imm_cj_def cfield_def mask_consts bit_sx [of 20, simplified] bit_rules enc_cj_def bits_c using n
    by (elim disjE insertE) (auto simp: min_def bit_rules)
qed

lemma imm_b_c_enc: "imm_cb (ucast (enc_cb f3 r off)) = scast off * 2"
proof (rule double_eqI)
  fix n assume n: "n < LENGTH(64)"
  then consider "n = 0" | "n = 1" | "n = 2" | "n = 3" | "n = 4" | "n = 5" | "n = 6" | "n = 7" | "8 \<le> n" by linarith
  then show "bit (imm_cb (ucast (enc_cb f3 r off))) n = bit (push_bit 1 (scast off) :: u64) n"
    unfolding imm_cb_def cfield_def mask_consts bit_sx [of 23, simplified] bit_rules enc_cb_def bits_c sub_field_def using n
    by cases (auto simp: min_def bit_rules dest: bit_imp_le_length)
qed

lemma fields_cj: "cfunct3 (ucast (enc_cj off)) = 5"
  by (simp add: enc_cj_def fields_c)

lemma fields_cb: "cfunct3 (ucast (enc_cb f3 r off)) = ucast f3" "creg 7 (ucast (enc_cb f3 r off)) = ucast (cr r)"
  by (simp_all add: enc_cb_def fields_c creg_enc)

lemma fields_sp: "cfunct3 (ucast (enc_sp imm)) = 3" "rd_of (ucast (enc_sp imm)) = 2"
  by (simp_all add: enc_sp_def fields_c)

lemma fields_ca:
  "cfunct3 (ucast (enc_ca hi f2 r s)) = 4" "creg 7 (ucast (enc_ca hi f2 r s)) = ucast (cr r)"
  "creg 2 (ucast (enc_ca hi f2 r s)) = ucast (cr s)"
  "drop_bit 10 (ucast (enc_ca hi f2 r s) :: u32) AND 0x3 = 3" "drop_bit 5 (ucast (enc_ca hi f2 r s) :: u32) AND 0x3 = ucast f2"
  by (simp_all add: enc_ca_def fields_c creg_enc funct2_enc)

lemma off_scast: "offset (scast (off :: 11 word) :: 20 word) = scast off * 2" "offset (scast (boff :: 8 word) :: 12 word) = scast boff * 2"
proof -
  have "(scast (scast off :: 20 word) :: u64) = scast off" "(scast (scast boff :: 12 word) :: u64) = scast boff"
    by (rule bit_word_eqI, simp add: bit_signed_iff min_less_iff_disj min.left_commute [of 10] min.left_commute [of 7]
        min.assoc [symmetric])+
  then show "offset (scast off :: 20 word) = scast off * 2" "offset (scast boff :: 12 word) = scast boff * 2"
    by (simp_all add: offset_def)
qed

lemma reg_two: "(ucast (r :: reg) :: u8) = 2 \<longleftrightarrow> r = 2"
  using reg_inj [of r 2] by simp

lemma link_register: "put_gpr 1 v c = set_x 1 v c"
  using put_set_x [of 1] by simp

lemma get_x_set: "get_x (set_x q v c) r = (if r = q \<and> q \<noteq> 0 then v else get_x c r)"
  by (simp add: set_x_def get_x_def)

lemma even_and: "\<not> bit (x :: u64) 0 \<Longrightarrow> x AND - 2 = x"
proof -
  assume "\<not> bit x 0"
  moreover have "(- 2 :: u64) = NOT 1" by simp
  ultimately show "x AND - 2 = x"
    by (simp only:) (rule bit_word_eqI, metis bit_and_iff bit_not_iff bit_1_iff possible_bit_word)
qed

lemma c1_meaning:
  assumes "gpr c 0 = 0"
  shows "rd \<noteq> 2 \<Longrightarrow> exec_c1 (encode_c (C_Lui rd imm)) c = isa 2 (expand (C_Lui rd imm)) c"
    and "exec_c1 (encode_c (C_Addi16sp imm)) c = isa 2 (expand (C_Addi16sp imm)) c"
    and "op \<in> {Sub, Or, And} \<Longrightarrow> exec_c1 (encode_c (C_Op op r s)) c = isa 2 (expand (C_Op op r s)) c"
    and "exec_c1 (encode_c (C_Addw r s)) c = isa 2 (expand (C_Addw r s)) c"
    and "exec_c1 (encode_c (C_J off)) c = isa 2 (expand (C_J off)) c"
    and "exec_c1 (encode_c (C_Beqz r boff)) c = isa 2 (expand (C_Beqz r boff)) c"
    and "exec_c1 (encode_c (C_Bnez r boff)) c = isa 2 (expand (C_Bnez r boff)) c"
proof -
  show "exec_c1 (encode_c (C_Lui rd imm)) c = isa 2 (expand (C_Lui rd imm)) c" if "rd \<noteq> 2"
    using that set_x_def [of 0]
    by (auto simp: exec_c1_def Let_def fields_ci c_lui_addi16sp_def imm_lui_enc advance_goto put_set_x reg_two)
  show "exec_c1 (encode_c (C_Addi16sp imm)) c = isa 2 (expand (C_Addi16sp imm)) c"
    using assms put_set_x [of 2] gpr_get_x [OF assms, of 2]
    by (simp add: exec_c1_def Let_def fields_sp c_lui_addi16sp_def imm_sp_enc advance_goto)
  show "exec_c1 (encode_c (C_Op op r s)) c = isa 2 (expand (C_Op op r s)) c" if "op \<in> {Sub, Or, And}"
    using that assms by (auto simp: exec_c1_def Let_def fields_ca c_alu_def reg_rules)
  show "exec_c1 (encode_c (C_Addw r s)) c = isa 2 (expand (C_Addw r s)) c"
    using assms by (simp add: exec_c1_def Let_def fields_ca c_alu_def reg_rules)
  show "exec_c1 (encode_c (C_J off)) c = isa 2 (expand (C_J off)) c"
    by (simp add: exec_c1_def Let_def fields_cj c_j_def imm_j_c_enc off_scast reg_rules set_x_def)
  show "exec_c1 (encode_c (C_Beqz r boff)) c = isa 2 (expand (C_Beqz r boff)) c"
    "exec_c1 (encode_c (C_Bnez r boff)) c = isa 2 (expand (C_Bnez r boff)) c"
    using assms by (simp_all add: exec_c1_def Let_def fields_cb c_branch_def imm_b_c_enc off_scast reg_rules)
qed

lemma c2_meaning:
  assumes "gpr c 0 = 0"
  shows "rd \<noteq> 0 \<Longrightarrow> rs \<noteq> 0 \<Longrightarrow> c_jr_mv_add (ucast (encode_c (C_Mv rd rs))) c = isa 2 (expand (C_Mv rd rs)) c"
    and "rd \<noteq> 0 \<Longrightarrow> rs \<noteq> 0 \<Longrightarrow> c_jr_mv_add (ucast (encode_c (C_Add rd rs))) c = isa 2 (expand (C_Add rd rs)) c"
    and "rs \<noteq> 0 \<Longrightarrow> \<not> bit (get_x c rs) 0 \<Longrightarrow> c_jr_mv_add (ucast (encode_c (C_Jr rs))) c = isa 2 (expand (C_Jr rs)) c"
    and "rs \<noteq> 0 \<Longrightarrow> rs \<noteq> 1 \<Longrightarrow> c_jr_mv_add (ucast (encode_c (C_Jalr rs))) c = isa 2 (expand (C_Jalr rs)) c"
  using assms
  by (simp_all add: c_jr_mv_add_def fields_c Let_def put_set_x reg_rules link_register get_x_set even_and goto_def [symmetric]
      set_x_def [of 0])

section \<open>The comparison\<close>

fun faithful_c :: "CPU_State \<Rightarrow> cinstr \<Rightarrow> bool" where
  "faithful_c c (C_Lui rd imm) = (rd \<noteq> 2)"
| "faithful_c c (C_Op op r s) = (op \<in> {Sub, Or, And})"
| "faithful_c c (C_Subw r s) = False"
| "faithful_c c (C_Mv rd rs) = (rd \<noteq> 0 \<and> rs \<noteq> 0)"
| "faithful_c c (C_Add rd rs) = (rd \<noteq> 0 \<and> rs \<noteq> 0)"
| "faithful_c c (C_Jr rs) = (rs \<noteq> 0 \<and> \<not> bit (get_x c rs) 0)"
| "faithful_c c (C_Jalr rs) = (rs \<noteq> 0 \<and> rs \<noteq> 1)"
| "faithful_c c _ = True"

text \<open>Every encoding goes to its quadrant.\<close>

lemma quadrant_1:
  assumes "encode_c ci = enc_c f3 hi r lo 1" "exec_c1 (encode_c ci) (cpus m h) = f (cpus m h)"
  shows "decode_and_execute h (ucast (encode_c ci)) m = Inr (upd_cpu h f m)"
proof -
  have "on_cpu (\<lambda>i. exec_c1 (ucast i)) h (ucast (encode_c ci)) m = Inr (upd_cpu h f m)"
    by (rule on_cpu_cong) (use assms(2) in simp)
  then show ?thesis unfolding assms(1) dispatch_c .
qed

lemma quadrant_2:
  assumes "encode_c ci = enc_c f3 hi r lo 2" "f3 = 0 \<or> f3 = 4"
    "(if f3 = 0 then c_slli else c_jr_mv_add) (ucast (encode_c ci)) (cpus m h) = f (cpus m h)"
  shows "decode_and_execute h (ucast (encode_c ci)) m = Inr (upd_cpu h f m)"
proof -
  have "exec_c2 h (encode_c ci) m = Inr (upd_cpu h ((if f3 = 0 then c_slli else c_jr_mv_add) (ucast (encode_c ci))) m)"
    using assms(2) unfolding assms(1) exec_c2_def Let_def fields_c by auto
  also have "\<dots> = Inr (upd_cpu h f m)"
    by (simp only: sum.inject) (rule upd_cpu_cong, rule assms(3))
  finally show ?thesis unfolding assms(1) dispatch_c .
qed

lemmas formats = enc_ci_def enc_ca_def enc_cj_def enc_cb_def enc_sp_def

lemma compressed_exec:
  assumes "gpr (cpus m h) 0 = 0" and "faithful_c (cpus m h) ci"
  shows "decode_and_execute h (ucast (encode_c ci)) m = Inr (upd_cpu h (isa 2 (expand ci)) m)"
proof (cases ci)
  case (C_Slli rd sh)
  show ?thesis unfolding C_Slli
    by (rule quadrant_2, unfold encode_c.simps enc_ci_def, rule refl)
      (use ci_meaning(6) [OF assms(1)] in \<open>simp_all add: enc_ci_def\<close>)
next
  case (C_Mv rd rs)
  show ?thesis unfolding C_Mv
    by (rule quadrant_2, rule encode_c.simps) (use c2_meaning(1) assms in \<open>simp_all add: C_Mv\<close>)
next
  case (C_Add rd rs)
  show ?thesis unfolding C_Add
    by (rule quadrant_2, rule encode_c.simps) (use c2_meaning(2) assms in \<open>simp_all add: C_Add\<close>)
next
  case (C_Jr rs)
  show ?thesis unfolding C_Jr
    by (rule quadrant_2, rule encode_c.simps) (use c2_meaning(3) assms in \<open>simp_all add: C_Jr\<close>)
next
  case (C_Jalr rs)
  show ?thesis unfolding C_Jalr
    by (rule quadrant_2, rule encode_c.simps) (use c2_meaning(4) assms in \<open>simp_all add: C_Jalr\<close>)
qed (rule quadrant_1, simp add: formats, use ci_meaning c1_meaning assms in simp)+

text \<open>
  C4. The compressed instructions of \<open>cinstr\<close>, those of quadrants 1 and 2 that work on registers only,
  do what their expansions do, with length 2, and nothing else, where \<open>faithful_c\<close> admits them. It excludes
  \<open>c.xor\<close> and \<open>c.subw\<close> (taken for other instructions), \<open>c.mv\<close> and \<open>c.add\<close> to \<open>x0\<close> (hints),
  \<open>c.lui\<close> to \<open>x2\<close> and the zero source registers (encodings of other instructions), \<open>c.jr\<close> to an odd address and
  \<open>c.jalr\<close> through the link register. \<open>c.addiw\<close>, which does not truncate, \<open>c.addi4spn\<close> and the compressed loads and
  stores are not in \<open>cinstr\<close>.
\<close>

theorem executes_compressed:
  assumes "gpr (cpus m h) 0 = 0" and "faithful_c (cpus m h) ci"
  shows "decode_and_execute h (ucast (encode_c ci)) m = Inr (upd_cpu h (isa 2 (expand ci)) m)"
  by (rule compressed_exec [OF assms])

text \<open>\<open>c.li x10, -3\<close> and the branch over it.\<close>

theorem executes_compressed_witness:
  "encode_c (C_Li 10 (-3)) = 0x5575 \<and>
   (\<exists>m'. decode_and_execute 0 0x5575 blank = Inr m' \<and> gpr (cpus m' 0) 10 = -3 \<and> pc (cpus m' 0) = 2)"
proof -
  have e: "encode_c (C_Li 10 (-3)) = 0x5575" by (simp add: enc_ci_def enc_c_def)
  have "decode_and_execute 0 (ucast (encode_c (C_Li 10 (-3)))) blank = Inr (upd_cpu 0 (isa 2 (expand (C_Li 10 (-3)))) blank)"
    by (rule executes_compressed) (simp_all add: zero_defs)
  then show ?thesis
    unfolding e by (simp add: goto_def set_x_def get_x_def zero_defs)
qed

text \<open>
  Two encodings are taken for others: \<open>c.xor\<close> executes as \<open>c.addw\<close> (the sum of the low halves
  instead of the exclusive or), and \<open>c.subw\<close> as \<open>c.sub\<close>.
\<close>

theorem xor_subw_misdecoded:
  assumes "gpr (cpus m h) 0 = 0"
  shows "decode_and_execute h (ucast (encode_c (C_Op Xor r s))) m = Inr (upd_cpu h (isa 2 (expand (C_Addw r s))) m) \<and>
    decode_and_execute h (ucast (encode_c (C_Subw r s))) m = Inr (upd_cpu h (isa 2 (expand (C_Op Sub r s))) m)"
proof
  show "decode_and_execute h (ucast (encode_c (C_Op Xor r s))) m = Inr (upd_cpu h (isa 2 (expand (C_Addw r s))) m)"
    by (rule quadrant_1, simp add: formats)
      (use assms in \<open>simp add: exec_c1_def Let_def fields_ca c_alu_def reg_rules\<close>)
  show "decode_and_execute h (ucast (encode_c (C_Subw r s))) m = Inr (upd_cpu h (isa 2 (expand (C_Op Sub r s))) m)"
    by (rule quadrant_1, simp add: formats)
      (use assms in \<open>simp add: exec_c1_def Let_def fields_ca c_alu_def reg_rules\<close>)
qed

theorem xor_subw_misdecoded_witness:
  "\<exists>m'. decode_and_execute 0 (ucast (encode_c (C_Op Xor 0 1)))
      (upd_cpu 0 (\<lambda>c. c\<lparr>gpr := (\<lambda>_. 0)(8 := 3, 9 := 1)\<rparr>) blank) = Inr m' \<and> gpr (cpus m' 0) 8 = 4"
proof -
  let ?m = "upd_cpu 0 (\<lambda>c. c\<lparr>gpr := (\<lambda>_. 0)(8 := 3, 9 := 1)\<rparr>) blank"
  have "gpr (cpus ?m 0) = (\<lambda>_. 0)(8 := 3, 9 := 1)" "cr 0 = 8" "cr 1 = 9" by (simp_all add: cr_def)
  with xor_subw_misdecoded [of ?m 0 0 1] show ?thesis by (simp add: get_x_def set_x_def)
qed

text \<open>
  The hint encodings of \<open>c.mv\<close> and \<open>c.add\<close> (destination \<open>x0\<close>) leave the whole machine as it is,
  the program counter included, so the hart executes them for ever; and \<open>c.jalr ra\<close> jumps to the
  instruction behind it, because it overwrites \<open>ra\<close> before reading its target.
\<close>

theorem compressed_hints_hang:
  assumes "rs \<noteq> 0"
  shows "decode_and_execute h (ucast (encode_c (C_Mv 0 rs))) m = Inr m \<and>
    decode_and_execute h (ucast (encode_c (C_Add 0 rs))) m = Inr m \<and>
    decode_and_execute h (ucast (encode_c (C_Jalr 1))) m =
      Inr (upd_cpu h (\<lambda>c. goto ((pc c + 2) AND NOT 1) (set_x 1 (pc c + 2) c)) m)"
proof (intro conjI)
  have "decode_and_execute h (ucast (encode_c (C_Mv 0 rs))) m = Inr (upd_cpu h (\<lambda>c. c) m)"
    by (rule quadrant_2, rule encode_c.simps) (use assms in \<open>simp_all add: c_jr_mv_add_def fields_c Let_def\<close>)
  then show "decode_and_execute h (ucast (encode_c (C_Mv 0 rs))) m = Inr m" by simp
  have "decode_and_execute h (ucast (encode_c (C_Add 0 rs))) m = Inr (upd_cpu h (\<lambda>c. c) m)"
    by (rule quadrant_2, rule encode_c.simps) (use assms in \<open>simp_all add: c_jr_mv_add_def fields_c Let_def\<close>)
  then show "decode_and_execute h (ucast (encode_c (C_Add 0 rs))) m = Inr m" by simp
  show "decode_and_execute h (ucast (encode_c (C_Jalr 1))) m =
      Inr (upd_cpu h (\<lambda>c. goto ((pc c + 2) AND NOT 1) (set_x 1 (pc c + 2) c)) m)"
    by (rule quadrant_2, rule encode_c.simps)
      (simp_all add: c_jr_mv_add_def fields_c Let_def link_register, simp add: set_x_def goto_def)
qed

theorem compressed_hints_hang_witness:
  "decode_and_execute 0 (ucast (encode_c (C_Mv 0 5))) blank = Inr blank"
  using compressed_hints_hang [of 5 0 blank] by simp

end
