(* ===== verification/Isa_Run.thy ===== *)
theory Isa_Run
  imports Isa_Memory Isa_Compressed Cpu
begin

text \<open>
  Whole runs against the architecture. The abstract machine has a program counter, 32 registers,
  a byte memory by physical address and an address translation, and fetches what it executes from
  that memory. The interface \<open>address_space\<close> says what a hart owes to its translation; from it
  follows, once, that a turn of the main loop, with its fetch, bookkeeping, disk pass and interrupt
  check, simulates one step of the abstract machine. It is provided twice: by a hart
  without translation and by a hart under Sv39 with its translation cache.
\<close>

section \<open>The abstract machine\<close>

record arch =
  a_pc :: u64
  a_x :: "reg \<Rightarrow> u64"
  a_mem :: "u64 \<Rightarrow> u8"

definition put_x :: "reg \<Rightarrow> u64 \<Rightarrow> arch \<Rightarrow> arch" where
  "put_x r v s = (if r = 0 then s else s\<lparr>a_x := (a_x s)(r := v)\<rparr>)"

definition jump :: "u64 \<Rightarrow> arch \<Rightarrow> arch" where
  "jump a s = s\<lparr>a_pc := a\<rparr>"

text \<open>An instruction of \<open>n\<close> bytes.\<close>

fun instr_step :: "u64 \<Rightarrow> instr \<Rightarrow> arch \<Rightarrow> arch" where
  "instr_step n (Op op rd rs1 rs2) s = jump (a_pc s + n) (put_x rd (alu op (a_x s rs1) (a_x s rs2)) s)"
| "instr_step n (Op_Imm op rd rs1 imm) s = jump (a_pc s + n) (put_x rd (alu_imm op (a_x s rs1) (scast imm)) s)"
| "instr_step n (Shift op rd rs1 sh) s = jump (a_pc s + n) (put_x rd (shift op (unat sh) (a_x s rs1)) s)"
| "instr_step n (Op_W op rd rs1 rs2) s =
     jump (a_pc s + n) (put_x rd (scast (alu_w op (ucast (a_x s rs1)) (ucast (a_x s rs2)))) s)"
| "instr_step n (Addiw rd rs1 imm) s =
     jump (a_pc s + n) (put_x rd (scast (ucast (a_x s rs1) + scast imm :: u32)) s)"
| "instr_step n (Shift_W op rd rs1 sh) s =
     jump (a_pc s + n) (put_x rd (scast (shift op (unat sh) (ucast (a_x s rs1) :: u32))) s)"
| "instr_step n (Lui rd imm) s = jump (a_pc s + n) (put_x rd (scast (push_bit 12 (ucast imm) :: u32)) s)"
| "instr_step n (Auipc rd imm) s =
     jump (a_pc s + n) (put_x rd (a_pc s + scast (push_bit 12 (ucast imm) :: u32)) s)"
| "instr_step n (Jal rd off) s = jump (a_pc s + offset off) (put_x rd (a_pc s + n) s)"
| "instr_step n (Jalr rd rs1 imm) s = jump ((a_x s rs1 + scast imm) AND NOT 1) (put_x rd (a_pc s + n) s)"
| "instr_step n (Branch op rs1 rs2 off) s =
     jump (if taken op (a_x s rs1) (a_x s rs2) then a_pc s + offset off else a_pc s + n) s"

definition load_step :: "load_op \<Rightarrow> reg \<Rightarrow> u64 \<Rightarrow> arch \<Rightarrow> arch" where
  "load_step op rd pa s = jump (a_pc s + 4) (put_x rd (Isa_Memory.extend op (le_load (a_mem s) pa (load_size op))) s)"

definition store_step :: "store_op \<Rightarrow> reg \<Rightarrow> u64 \<Rightarrow> arch \<Rightarrow> arch" where
  "store_step op rs2 pa s =
     jump (a_pc s + 4) (s\<lparr>a_mem := le_store (\<lambda>a b f. f(a := b)) pa (a_x s rs2) (store_size op) (a_mem s)\<rparr>)"

text \<open>
  A translation gives the physical address of an access, which may depend on what memory holds
  (page tables). The \<open>n\<close> bytes from \<open>va\<close> on map to consecutive bytes of guest memory.
\<close>

type_synonym translation = "(u64 \<Rightarrow> u8) \<Rightarrow> acc \<Rightarrow> u64 \<Rightarrow> u64 option"

definition maps :: "(u64 \<Rightarrow> u64 option) \<Rightarrow> u64 \<Rightarrow> nat \<Rightarrow> u64 \<Rightarrow> bool" where
  "maps t va n pa \<longleftrightarrow> ram_addr pa n \<and> (\<forall>k < n. t (va + of_nat k) = Some (pa + of_nat k))"

text \<open>
  Which of the encodings execute as the architecture says: \<open>faithful\<close> and \<open>faithful_c\<close>, with the
  value of the jump register read from the abstract state.
\<close>

fun short_ok :: "arch \<Rightarrow> cinstr \<Rightarrow> bool" where
  "short_ok s (C_Lui rd imm) = (rd \<noteq> 2)"
| "short_ok s (C_Op op r r') = (op \<in> {Sub, Or, And})"
| "short_ok s (C_Subw r r') = False"
| "short_ok s (C_Mv rd rs) = (rd \<noteq> 0 \<and> rs \<noteq> 0)"
| "short_ok s (C_Add rd rs) = (rd \<noteq> 0 \<and> rs \<noteq> 0)"
| "short_ok s (C_Jr rs) = (rs \<noteq> 0 \<and> \<not> bit (a_x s rs) 0)"
| "short_ok s (C_Jalr rs) = (rs \<noteq> 0 \<and> rs \<noteq> 1)"
| "short_ok s _ = True"

text \<open>One step. A store may not change the translation (\<open>same\<close>): that takes a fence.\<close>

inductive arch_step :: "translation \<Rightarrow> ((u64 \<Rightarrow> u8) \<Rightarrow> (u64 \<Rightarrow> u8) \<Rightarrow> bool) \<Rightarrow> arch \<Rightarrow> arch \<Rightarrow> bool" for tr same where
  long: "maps (tr (a_mem s) ACC_FETCH) (a_pc s) 4 pa \<Longrightarrow> le_load (a_mem s) pa 4 = ucast (encode ins) \<Longrightarrow>
    faithful ins \<Longrightarrow> arch_step tr same s (instr_step 4 ins s)"
| short: "maps (tr (a_mem s) ACC_FETCH) (a_pc s) 2 pa \<Longrightarrow> le_load (a_mem s) pa 2 = ucast (encode_c ci) \<Longrightarrow>
    short_ok s ci \<Longrightarrow> arch_step tr same s (instr_step 2 (expand ci) s)"
| load: "maps (tr (a_mem s) ACC_FETCH) (a_pc s) 4 pa \<Longrightarrow> le_load (a_mem s) pa 4 = ucast (encode_load op rd rs1 imm) \<Longrightarrow>
    op \<noteq> Lw \<Longrightarrow> maps (tr (a_mem s) ACC_LOAD) (a_x s rs1 + scast imm) (load_size op) q \<Longrightarrow>
    arch_step tr same s (load_step op rd q s)"
| store: "maps (tr (a_mem s) ACC_FETCH) (a_pc s) 4 pa \<Longrightarrow> le_load (a_mem s) pa 4 = ucast (encode_store op rs1 rs2 imm) \<Longrightarrow>
    maps (tr (a_mem s) ACC_STORE) (a_x s rs1 + scast imm) (store_size op) q \<Longrightarrow>
    same (a_mem s) (a_mem (store_step op rs2 q s)) \<Longrightarrow> arch_step tr same s (store_step op rs2 q s)"

section \<open>The abstraction\<close>

definition phys :: "machine \<Rightarrow> u64 \<Rightarrow> u8" where
  "phys m a = memory m (a - MEMORY_BASE)"

definition arch_of :: "machine \<Rightarrow> arch" where
  "arch_of m = \<lparr>a_pc = pc (cpus m 0), a_x = get_x (cpus m 0), a_mem = phys m\<rparr>"

text \<open>Interrupts off: supervisor mode with \<open>SIE\<close> clear, or machine mode with \<open>MIE\<close> clear.\<close>

definition quiet :: "CPU_State \<Rightarrow> bool" where
  "quiet c \<longleftrightarrow> privilege c = 1 \<and> \<not> bit (csr c CSR_SSTATUS) 1 \<or> privilege c = 3 \<and> \<not> bit (csr c CSR_MSTATUS) 3"

text \<open>Ready to run: the hart keeps what its translation needs (\<open>ok\<close>), and nothing else wants a turn.\<close>

definition ready :: "(machine \<Rightarrow> bool) \<Rightarrow> machine \<Rightarrow> bool" where
  "ready ok m \<longleftrightarrow> ok m \<and> gpr (cpus m 0) 0 = 0 \<and> running (cpus m 0) \<and> \<not> halted (cpus m 0) \<and>
     quiet (cpus m 0) \<and> pending_ops m = []"

text \<open>What the instructions of the abstract machine leave alone.\<close>

definition env :: "machine \<Rightarrow> (int \<times> (u32 \<Rightarrow> u64) \<times> bool \<times> bool \<times> Bus) \<times> disk_operation list \<times> PLICState \<times> UARTDevice \<times> host_answers" where
  "env m = ((privilege (cpus m 0), csr (cpus m 0), running (cpus m 0), halted (cpus m 0), cpu_bus (cpus m 0)),
     pending_ops m, g_plic m, g_uart m, host m)"

lemma envD:
  assumes "env m' = env m"
  shows "privilege (cpus m' 0) = privilege (cpus m 0)" "csr (cpus m' 0) = csr (cpus m 0)"
    "running (cpus m' 0) = running (cpus m 0)" "halted (cpus m' 0) = halted (cpus m 0)"
    "cpu_bus (cpus m' 0) = cpu_bus (cpus m 0)" "pending_ops m' = pending_ops m" "g_plic m' = g_plic m" "g_uart m' = g_uart m" "host m' = host m"
  using assms by (simp_all add: env_def)

lemma arch_of_simps [simp]:
  "a_pc (arch_of m) = pc (cpus m 0)" "a_x (arch_of m) = get_x (cpus m 0)"
  "a_mem (arch_of m) = phys m"
  by (simp_all add: arch_of_def)

lemma put_x_simps [simp]: "a_pc (put_x r v s) = a_pc s" "a_mem (put_x r v s) = a_mem s"
  by (simp_all add: put_x_def)

lemma get_x_set_fun: "get_x (set_x q v c) = (if q = 0 then get_x c else (get_x c)(q := v))"
  by (rule ext) (simp add: get_x_set)

lemma arch_of_set: "arch_of (upd_cpu 0 (\<lambda>c. goto a (set_x r v c)) m) = jump a (put_x r v (arch_of m))"
  by (simp add: arch_of_def jump_def put_x_def goto_def get_x_set_fun set_x_def get_x_def fun_eq_iff phys_def)

lemma arch_of_goto: "arch_of (upd_cpu 0 (goto a) m) = jump a (arch_of m)"
  by (simp add: arch_of_def jump_def goto_def get_x_def fun_eq_iff phys_def)

lemma arch_of_cong: "f (cpus m 0) = g (cpus m 0) \<Longrightarrow> arch_of (upd_cpu 0 f m) = arch_of (upd_cpu 0 g m)"
  by (simp add: arch_of_def phys_def fun_eq_iff)

lemma arch_of_isa: "arch_of (upd_cpu 0 (isa n ins) m) = instr_step n ins (arch_of m)"
proof -
  have a: "arch_of (upd_cpu 0 f m) = jump a (put_x r v (arch_of m))"
    if "f (cpus m 0) = goto a (set_x r v (cpus m 0))" for f a r v
    unfolding arch_of_set [symmetric] by (rule arch_of_cong) (rule that)
  have b: "arch_of (upd_cpu 0 f m) = jump a (arch_of m)" if "f (cpus m 0) = goto a (cpus m 0)" for f a
    unfolding arch_of_goto [symmetric] by (rule arch_of_cong) (rule that)
  show ?thesis
  proof (cases ins)
    case (Branch op rs1 rs2 off)
    show ?thesis unfolding Branch instr_step.simps arch_of_simps by (rule b) simp
  qed (simp only: instr_step.simps arch_of_simps, rule a, simp)+
qed

lemma phys_upd_cpu [simp]: "phys (upd_cpu h f m) = phys m"
  by (simp add: phys_def fun_eq_iff)

lemma phys_store: "phys (le_store poke (p - MEMORY_BASE) v n m) = le_store (\<lambda>a b f. f(a := b)) p v n (phys m)"
proof (induction n)
  case (Suc n)
  have "a - MEMORY_BASE = p - MEMORY_BASE + of_nat n \<longleftrightarrow> a = p + of_nat n" for a by (auto simp: algebra_simps)
  with Suc show ?case by (auto simp: fun_eq_iff poke_def phys_def)
qed simp

lemma le_load_phys: "le_load (phys m) p n = le_load (memory m) (p - MEMORY_BASE) n"
  by (induction n) (simp_all add: phys_def algebra_simps)

interpretation plain_mem: byte_store "\<lambda>f. f" "\<lambda>a b f. f(a := b)"
  by unfold_locales simp

section \<open>One turn\<close>

text \<open>Fetching.\<close>

lemma memory_read_ram: "ram_addr a n \<Longrightarrow> 0 < n \<Longrightarrow> n \<le> 8 \<Longrightarrow> memory_read a n m = (le_load (memory m) (a - MEMORY_BASE) n, m)"
  using phys_read_ram [of a n m] by (simp add: phys_read_def)

lemma ram_addr_part: "ram_addr a n \<Longrightarrow> i + k \<le> n \<Longrightarrow> ram_addr (a + of_nat i) k"
proof -
  assume a: "ram_addr a n" "i + k \<le> n"
  then have "unat a + i \<le> 0xC0000000" by (simp add: ram_addr_def)
  then have "unat (a + of_nat i) = unat a + i"
    by (simp add: unat_word_ariths unsigned_of_nat take_bit_eq_mod mod_add_right_eq)
  with a show ?thesis by (simp add: ram_addr_def word_le_nat_alt)
qed

lemma le_load_split: "le_load f a (j + n) = le_load f a j OR push_bit (8 * j) (le_load f (a + of_nat j) n)"
  by (induction n) (simp_all add: push_bit_or ac_simps)

lemma half: "(ucast (x AND 0xFFFF :: u64) :: u16) = ucast x"
  unfolding half_mask by (rule bit_word_eqI) (simp add: bit_simps)

lemma half_of: "(ucast (ucast (w :: u16) :: u64) :: u16) = w" "(ucast (ucast (i :: u32) :: u64) :: u16) = ucast i"
  by (rule bit_word_eqI; auto simp: bit_simps)+

lemma fetch_short:
  assumes "get_pa 0 (pc (cpus m 0)) ACC_FETCH m = Inr (pa, m1)" "ram_addr pa 2"
    "le_load (memory m1) (pa - MEMORY_BASE) 2 = ucast (w :: u16)" "w AND 3 \<noteq> 3"
  shows "fetch_instruction 0 m = Inr (ucast w, m1)"
proof -
  have r: "memory_read pa 2 m1 = (ucast w, m1)" using assms(2,3) by (simp add: memory_read_ram)
  show ?thesis
    using assms(4)
    unfolding fetch_instruction_def assms(1) rbind.simps split_beta fst_conv snd_conv r half half_of Let_def by simp
qed

lemma fetch_long:
  assumes "get_pa 0 (pc (cpus m 0)) ACC_FETCH m = Inr (pa, m1)" "ram_addr pa 4"
    "le_load (memory m1) (pa - MEMORY_BASE) 4 = ucast (w :: u32)" "w AND 3 = 3"
  shows "fetch_instruction 0 m = Inr (w, m1)"
proof -
  let ?lo = "le_load (memory m1) (pa - MEMORY_BASE) 2" and ?hi = "le_load (memory m1) (pa + 2 - MEMORY_BASE) 2"
  have "ram_addr pa 2" "ram_addr (pa + 2) 2"
    using ram_addr_part [OF assms(2), of 0 2] ram_addr_part [OF assms(2), of 2 2] by simp_all
  then have r: "memory_read pa 2 m1 = (?lo, m1)" "memory_read (pa + 2) 2 m1 = (?hi, m1)"
    by (simp_all add: memory_read_ram)
  have "pa + 2 - MEMORY_BASE = pa - MEMORY_BASE + of_nat 2" by simp
  with assms(3) le_load_split [of "memory m1" "pa - MEMORY_BASE" 2 2] have w: "?lo OR push_bit 16 ?hi = ucast w" by simp
  have l: "bit ?lo i \<Longrightarrow> i < 16" for i by (simp add: bit_le_load)
  have b: "bit w i = (bit ?lo i \<or> 16 \<le> i \<and> bit ?hi (i - 16))" if "i < 32" for i
    using arg_cong [OF w, of "\<lambda>x. bit x i"] that by (simp add: bit_simps)
  have lo: "(ucast ?lo :: u16) = ucast w"
    by (rule bit_word_eqI) (simp add: bit_simps b)
  have "push_bit 16 (ucast (ucast ?hi :: u16)) OR ucast (ucast w :: u16) = w"
    by (rule bit_word_eqI) (use l in \<open>auto simp: bit_simps b\<close>)
  moreover have "(ucast w :: u16) AND 3 = 3"
    using arg_cong [OF assms(4), of "ucast :: u32 \<Rightarrow> u16"] by (simp add: unsigned_and_eq)
  ultimately show ?thesis
    unfolding fetch_instruction_def assms(1) rbind.simps split_beta fst_conv snd_conv r half lo Let_def
    by simp
qed

text \<open>The rest of a turn, when no interrupt is taken and no disk operation waits.\<close>

lemma quiet_check: "quiet c \<Longrightarrow> check_and_handle_interrupts ho c = c"
proof -
  assume q: "quiet c"
  have "mmode_cause c = 0" if "\<not> bit (csr c CSR_MSTATUS) 3"
    using that by (simp add: mmode_cause_def mask_bits)
  with q consider "privilege c = 1" "\<not> bit (csr c CSR_SSTATUS) 1" | "privilege c = 3" "mmode_cause c = 0"
    by (auto simp: quiet_def)
  then show ?thesis
    by cases (rule check_masked, simp_all add: check_deliver deliver_def selected_cause_def)
qed

lemma clint_tick_csr: "i \<noteq> CSR_MIP \<Longrightarrow> i \<noteq> CSR_SIP \<Longrightarrow> csr (cpus (clint_tick h n m) k) i = csr (cpus m k) i"
  by (simp add: clint_tick_def clint_update_interrupts_def Let_def)

lemma step_counters_cpu:
  "pc (cpus (step_counters h m) k) = pc (cpus m k)" "gpr (cpus (step_counters h m) k) = gpr (cpus m k)"
  "privilege (cpus (step_counters h m) k) = privilege (cpus m k)" "running (cpus (step_counters h m) k) = running (cpus m k)"
  "halted (cpus (step_counters h m) k) = halted (cpus m k)" "cpu_bus (cpus (step_counters h m) k) = cpu_bus (cpus m k)"
  "tlb (cpus (step_counters h m) k) = tlb (cpus m k)" "sum (cpus (step_counters h m) k) = sum (cpus m k)"
  "mxr (cpus (step_counters h m) k) = mxr (cpus m k)"
  "rest (step_counters h m) = rest m" "g_plic (step_counters h m) = g_plic m" "g_uart (step_counters h m) = g_uart m"
proof -
  let ?m1 = "upd_cpu h (\<lambda>c. c\<lparr>cycle_count := cycle_count c + 1\<rparr>) m"
  have c: "core (cpus (clint_tick h 1 ?m1) k) = core (cpus ?m1 k)" by (simp add: frame)
  show "pc (cpus (step_counters h m) k) = pc (cpus m k)" "gpr (cpus (step_counters h m) k) = gpr (cpus m k)"
    "privilege (cpus (step_counters h m) k) = privilege (cpus m k)" "running (cpus (step_counters h m) k) = running (cpus m k)"
    "cpu_bus (cpus (step_counters h m) k) = cpu_bus (cpus m k)"
    "tlb (cpus (step_counters h m) k) = tlb (cpus m k)" "sum (cpus (step_counters h m) k) = sum (cpus m k)"
    "mxr (cpus (step_counters h m) k) = mxr (cpus m k)"
    using coreD [OF c] by (auto simp: step_counters_def Let_def upd_cpu_def)
  show "halted (cpus (step_counters h m) k) = halted (cpus m k)" "rest (step_counters h m) = rest m"
    "g_plic (step_counters h m) = g_plic m" "g_uart (step_counters h m) = g_uart m"
    unfolding step_counters_def Let_def by (simp_all add: frame)
qed

lemma step_counters_csr:
  "i \<notin> {CSR_MIP, CSR_SIP, CSR_TIME} \<Longrightarrow> csr (cpus (step_counters h m) k) i = csr (cpus m k) i"
  by (auto simp: step_counters_def Let_def upd_cpu_def clint_tick_csr)

lemma turn_eq:
  assumes "cpu_step 0 m = Inr (step_counters 0 m')" "gpr (cpus m' 0) 0 = 0" "pending_ops m' = []"
  shows "main_turn m = Inr (upd_cpu 0 (check_and_handle_interrupts (host m')) (step_counters 0 m'))"
  using assms restD [OF step_counters_cpu(10), of 0 m']
  by (simp add: main_turn_def step_counters_cpu virtio_disk_update_def Let_def)

section \<open>The simulation\<close>

lemma opcode_low: "w AND 0x7F = ucast (op :: 7 word) \<Longrightarrow> op AND 3 = 3 \<Longrightarrow> (w :: u32) AND 3 = 3"
proof -
  assume w: "w AND 0x7F = ucast op" and o: "op AND 3 = 3"
  have "(0x3 :: u32) = 0x7F AND 0x3" by simp
  then have "w AND 3 = (w AND 0x7F) AND 3" by (metis and.assoc)
  also have "\<dots> = ucast (op AND 3)" unfolding w
    by (rule bit_word_eqI) (auto simp: bit_simps dest: bit_imp_le_length)
  finally show ?thesis unfolding o by simp
qed

lemma long_low: "encode ins AND 3 = 3" "encode_load l rd rs1 imm AND 3 = 3" "encode_store st rs1 rs2 imm AND 3 = 3"
proof -
  note f = opcode_low [OF fields_r(6)] opcode_low [OF fields_i(6)] opcode_low [OF fields_s(4)]
    opcode_low [OF fields_u(2)] opcode_low [OF fields_j(2)] opcode_low [OF fields_b(4)]
  show "encode ins AND 3 = 3" by (cases ins) (simp_all add: f)
  show "encode_load l rd rs1 imm AND 3 = 3" by (simp add: encode_load_def f)
  show "encode_store st rs1 rs2 imm AND 3 = 3" by (simp add: encode_store_def f)
qed

lemma short_low: "encode_c ci AND 3 \<noteq> 3"
proof -
  have q: "enc_c f3 hi r lo q AND 3 \<noteq> 3" if "q = 1 \<or> q = 2" for f3 hi r lo q
  proof
    assume e: "enc_c f3 hi r lo q AND 3 = 3"
    have "bit (enc_c f3 hi r lo q) 0" "bit (enc_c f3 hi r lo q) 1"
      using arg_cong [OF e, of "\<lambda>x. bit x 0"] arg_cong [OF e, of "\<lambda>x. bit x 1"] by (simp_all add: bit_simps)
    then have "bit q 0" "bit q 1" by (simp_all add: bit_enc_c)
    with that show False by auto
  qed
  show ?thesis by (cases ci) (simp_all add: formats q)
qed

lemma short_ok_faithful: "short_ok (arch_of m) ci \<longleftrightarrow> faithful_c (cpus m 0) ci"
  by (cases ci) simp_all

section \<open>The interface of translation\<close>

text \<open>What a translation may depend on, besides memory.\<close>

definition view :: "machine \<Rightarrow> int \<times> u64 \<times> Bus \<times> (TLB \<times> int \<times> int) \<times> host_answers" where
  "view m = (let c = cpus m 0 in (privilege c, csr c CSR_SATP, cpu_bus c, (tlb c, sum c, mxr c), host m))"

locale address_space =
  fixes tr :: translation
    and same :: "(u64 \<Rightarrow> u8) \<Rightarrow> (u64 \<Rightarrow> u8) \<Rightarrow> bool"
    and ok :: "machine \<Rightarrow> bool"
  assumes ok_bus: "ok m \<Longrightarrow> cpu_bus (cpus m 0) = emu_bus"
    and ok_translate: "ok m \<Longrightarrow> tr (phys m) acc va = Some pa \<Longrightarrow>
      \<exists>m'. get_pa 0 va acc m = Inr (pa, m') \<and> same_but_tlb 0 m m' \<and> ok m'"
    and ok_view: "ok m \<Longrightarrow> view m' = view m \<Longrightarrow> same (phys m) (phys m') \<Longrightarrow> ok m'"
    and same_refl: "same f f"

lemma same_but_tlb_env:
  assumes "same_but_tlb 0 m m'"
  shows "env m' = env m" "arch_of m' = arch_of m" "cpus m' 0 = (cpus m 0)\<lparr>tlb := tlb (cpus m' 0),
    tlb_cnt := tlb_cnt (cpus m' 0), satp := satp (cpus m' 0), mem_fault := mem_fault (cpus m' 0)\<rparr>"
  by (subst assms [unfolded same_but_tlb_def], simp add: env_def arch_of_def get_x_def phys_def fun_eq_iff)+

text \<open>One instruction, up to the bookkeeping.\<close>

definition performs :: "(machine \<Rightarrow> bool) \<Rightarrow> machine \<Rightarrow> arch \<Rightarrow> bool" where
  "performs ok m s \<longleftrightarrow> (\<exists>m'. cpu_step 0 m = Inr (step_counters 0 m') \<and> ok m' \<and> env m' = env m \<and>
     gpr (cpus m' 0) 0 = 0 \<and> arch_of m' = s)"

lemma isa_frame:
  "privilege (isa n ins c) = privilege c" "csr (isa n ins c) = csr c" "running (isa n ins c) = running c"
  "halted (isa n ins c) = halted c" "cpu_bus (isa n ins c) = cpu_bus c" "gpr c 0 = 0 \<Longrightarrow> gpr (isa n ins c) 0 = 0"
  "tlb (isa n ins c) = tlb c" "sum (isa n ins c) = sum c" "mxr (isa n ins c) = mxr c"
  by (cases ins; simp add: goto_def set_x_def)+

lemma maps_first: "maps t va n pa \<Longrightarrow> 0 < n \<Longrightarrow> t va = Some pa"
  by (force simp: maps_def)

lemma arch_of_counters: "arch_of (step_counters 0 m) = arch_of m"
  using restD(1) [OF step_counters_cpu(10), of 0 m]
  by (simp add: arch_of_def step_counters_cpu get_x_def phys_def fun_eq_iff)

lemma view_counters: "view (step_counters 0 m) = view m" "phys (step_counters 0 m) = phys m"
  using restD [OF step_counters_cpu(10), of 0 m]
  by (simp_all add: view_def Let_def step_counters_cpu step_counters_csr phys_def fun_eq_iff)

context address_space
begin

lemma performsI:
  assumes "fetch_instruction 0 m = Inr (i, m1)" "decode_and_execute 0 i m1 = Inr m'" "ok m2"
    "view m' = view m2" "same (phys m2) (phys m')" "env m' = env m" "gpr (cpus m' 0) 0 = 0" "arch_of m' = s"
  shows "performs ok m s"
  using assms ok_view [OF assms(3-5)] by (auto simp: performs_def cpu_step_def)

lemma translated:
  assumes "ok m" "maps (tr (phys m) acc) va n pa" "0 < n"
  obtains m' where "get_pa 0 va acc m = Inr (pa, m')" "ok m'" "env m' = env m" "arch_of m' = arch_of m"
    "gpr (cpus m' 0) = gpr (cpus m 0)"
proof -
  from ok_translate [OF assms(1) maps_first [OF assms(2,3)]] obtain m' where
    m': "get_pa 0 va acc m = Inr (pa, m')" "same_but_tlb 0 m m'" "ok m'" by blast
  with that [of m'] same_but_tlb_env [OF m'(2)] same_but_tlbD(2) [OF m'(2)] show ?thesis by blast
qed

lemma fetched_long:
  assumes "ok m" "maps (tr (phys m) ACC_FETCH) (pc (cpus m 0)) 4 pa" "le_load (phys m) pa 4 = ucast (w :: u32)" "w AND 3 = 3"
  obtains m' where "fetch_instruction 0 m = Inr (w, m')" "ok m'" "env m' = env m" "arch_of m' = arch_of m"
    "gpr (cpus m' 0) = gpr (cpus m 0)"
proof -
  from translated [OF assms(1,2)] obtain m' where m': "get_pa 0 (pc (cpus m 0)) ACC_FETCH m = Inr (pa, m')"
    "ok m'" "env m' = env m" "arch_of m' = arch_of m" "gpr (cpus m' 0) = gpr (cpus m 0)" by auto
  have "le_load (memory m') (pa - MEMORY_BASE) 4 = ucast w"
    using assms(3) arg_cong [OF m'(4), of a_mem] by (simp add: le_load_phys [symmetric])
  with fetch_long [OF m'(1) _ this assms(4)] assms(2) m' that show ?thesis by (simp add: maps_def)
qed

lemma fetched_short:
  assumes "ok m" "maps (tr (phys m) ACC_FETCH) (pc (cpus m 0)) 2 pa" "le_load (phys m) pa 2 = ucast (w :: u16)" "w AND 3 \<noteq> 3"
  obtains m' where "fetch_instruction 0 m = Inr (ucast w, m')" "ok m'" "env m' = env m" "arch_of m' = arch_of m"
    "gpr (cpus m' 0) = gpr (cpus m 0)"
proof -
  from translated [OF assms(1,2)] obtain m' where m': "get_pa 0 (pc (cpus m 0)) ACC_FETCH m = Inr (pa, m')"
    "ok m'" "env m' = env m" "arch_of m' = arch_of m" "gpr (cpus m' 0) = gpr (cpus m 0)" by auto
  have "le_load (memory m') (pa - MEMORY_BASE) 2 = ucast w"
    using assms(3) arg_cong [OF m'(4), of a_mem] by (simp add: le_load_phys [symmetric])
  with fetch_short [OF m'(1) _ this assms(4)] assms(2) m' that show ?thesis by (simp add: maps_def)
qed

lemma perform_isa:
  assumes "fetch_instruction 0 m = Inr (i, m1)" "decode_and_execute 0 i m1 = Inr (upd_cpu 0 (isa n ins) m1)"
    "ok m1" "env m1 = env m" "arch_of m1 = arch_of m" "gpr (cpus m1 0) 0 = 0"
  shows "performs ok m (instr_step n ins (arch_of m))"
proof (rule performsI [OF assms(1-3)])
  show "view (upd_cpu 0 (isa n ins) m1) = view m1" by (simp add: view_def Let_def isa_frame)
  show "env (upd_cpu 0 (isa n ins) m1) = env m" unfolding assms(4) [symmetric] by (simp add: env_def isa_frame)
  show "same (phys m1) (phys (upd_cpu 0 (isa n ins) m1))" by (simp add: same_refl)
  show "gpr (cpus (upd_cpu 0 (isa n ins) m1) 0) 0 = 0" using assms(6) by (simp add: isa_frame)
  show "arch_of (upd_cpu 0 (isa n ins) m1) = instr_step n ins (arch_of m)" by (simp only: arch_of_isa assms(5))
qed

lemma perform_long:
  assumes "ok m" "gpr (cpus m 0) 0 = 0" "maps (tr (phys m) ACC_FETCH) (pc (cpus m 0)) 4 pa"
    "le_load (phys m) pa 4 = ucast (encode ins)" "faithful ins"
  shows "performs ok m (instr_step 4 ins (arch_of m))"
proof -
  from fetched_long [OF assms(1,3,4) long_low(1)] obtain m1 where m1: "fetch_instruction 0 m = Inr (encode ins, m1)"
    "ok m1" "env m1 = env m" "arch_of m1 = arch_of m" "gpr (cpus m1 0) = gpr (cpus m 0)" by blast
  have z: "gpr (cpus m1 0) 0 = 0" using m1(5) assms(2) by simp
  show ?thesis by (rule perform_isa [OF m1(1) isa_exec [OF z assms(5)] m1(2-4) z])
qed

lemma perform_short:
  assumes "ok m" "gpr (cpus m 0) 0 = 0" "maps (tr (phys m) ACC_FETCH) (pc (cpus m 0)) 2 pa"
    "le_load (phys m) pa 2 = ucast (encode_c ci)" "short_ok (arch_of m) ci"
  shows "performs ok m (instr_step 2 (expand ci) (arch_of m))"
proof -
  from fetched_short [OF assms(1,3,4) short_low] obtain m1 where m1: "fetch_instruction 0 m = Inr (ucast (encode_c ci), m1)"
    "ok m1" "env m1 = env m" "arch_of m1 = arch_of m" "gpr (cpus m1 0) = gpr (cpus m 0)" by blast
  have z: "gpr (cpus m1 0) 0 = 0" using m1(5) assms(2) by simp
  have f: "faithful_c (cpus m1 0) ci" using assms(5) unfolding m1(4) [symmetric] short_ok_faithful .
  show ?thesis by (rule perform_isa [OF m1(1) compressed_exec [OF z f] m1(2-4) z])
qed

lemma perform_load:
  assumes "ok m" "gpr (cpus m 0) 0 = 0" "maps (tr (phys m) ACC_FETCH) (pc (cpus m 0)) 4 pa"
    "le_load (phys m) pa 4 = ucast (encode_load op rd rs1 imm)" "op \<noteq> Lw"
    "maps (tr (phys m) ACC_LOAD) (get_x (cpus m 0) rs1 + scast imm) (load_size op) q"
  shows "performs ok m (load_step op rd q (arch_of m))"
proof -
  from fetched_long [OF assms(1,3,4) long_low(2)] obtain m1 where m1: "fetch_instruction 0 m = Inr (encode_load op rd rs1 imm, m1)"
    "ok m1" "env m1 = env m" "arch_of m1 = arch_of m" "gpr (cpus m1 0) = gpr (cpus m 0)" by blast
  note e1 = arg_cong [OF m1(4), of a_pc] arg_cong [OF m1(4), of a_x] arg_cong [OF m1(4), of a_mem]
  have "maps (tr (phys m1) ACC_LOAD) (mem_addr (cpus m1 0) rs1 imm) (load_size op) q"
    using assms(6) e1 by (simp add: mem_addr_def)
  moreover have "0 < load_size op" by (cases op) simp_all
  ultimately obtain m2 where m2: "get_pa 0 (mem_addr (cpus m1 0) rs1 imm) ACC_LOAD m1 = Inr (q, m2)"
    "ok m2" "env m2 = env m1" "arch_of m2 = arch_of m1" "gpr (cpus m2 0) = gpr (cpus m1 0)"
    by (rule translated [OF m1(2)]) blast
  let ?l = "isa_load op rd (le_load (memory m2) (q - MEMORY_BASE) (load_size op))"
  have z: "gpr (cpus m1 0) 0 = 0" "gpr (cpus m2 0) 0 = 0" using assms(2) m1(5) m2(5) by simp_all
  have r: "ram_addr q (load_size op)" using assms(6) by (simp add: maps_def)
  have d: "decode_and_execute 0 (encode_load op rd rs1 imm) m1 = Inr (upd_cpu 0 ?l m2)"
    using load_exec [OF z(1) m2(1) ok_bus [OF m2(2)] r] assms(5) by simp
  have "arch_of (upd_cpu 0 ?l m2) = arch_of (upd_cpu 0 (\<lambda>c. goto (pc (cpus m2 0) + 4)
      (set_x rd (Isa_Memory.extend op (le_load (memory m2) (q - MEMORY_BASE) (load_size op))) c)) m2)"
    by (intro arch_of_cong) (simp only: isa_load_def)
  also have "\<dots> = load_step op rd q (arch_of m2)"
    unfolding arch_of_set load_step_def arch_of_simps le_load_phys ..
  finally have a: "arch_of (upd_cpu 0 ?l m2) = load_step op rd q (arch_of m)" unfolding m2(4) m1(4) .
  show ?thesis
  proof (rule performsI [OF m1(1) d m2(2) _ _ _ _ a])
    show "view (upd_cpu 0 ?l m2) = view m2" by (simp add: view_def Let_def isa_load_def goto_def set_x_def)
    show "same (phys m2) (phys (upd_cpu 0 ?l m2))" by (simp add: same_refl)
    show "env (upd_cpu 0 ?l m2) = env m" unfolding m1(3) [symmetric] m2(3) [symmetric]
      by (simp add: env_def isa_load_def goto_def set_x_def)
    show "gpr (cpus (upd_cpu 0 ?l m2) 0) 0 = 0" using z(2) by (simp add: isa_load_def goto_def set_x_def)
  qed
qed

lemma perform_store:
  assumes "ok m" "gpr (cpus m 0) 0 = 0" "maps (tr (phys m) ACC_FETCH) (pc (cpus m 0)) 4 pa"
    "le_load (phys m) pa 4 = ucast (encode_store op rs1 rs2 imm)"
    "maps (tr (phys m) ACC_STORE) (get_x (cpus m 0) rs1 + scast imm) (store_size op) q"
    "same (phys m) (a_mem (store_step op rs2 q (arch_of m)))"
  shows "performs ok m (store_step op rs2 q (arch_of m))"
proof -
  from fetched_long [OF assms(1,3,4) long_low(3)] obtain m1 where m1: "fetch_instruction 0 m = Inr (encode_store op rs1 rs2 imm, m1)"
    "ok m1" "env m1 = env m" "arch_of m1 = arch_of m" "gpr (cpus m1 0) = gpr (cpus m 0)" by blast
  note e1 = arg_cong [OF m1(4), of a_pc] arg_cong [OF m1(4), of a_x] arg_cong [OF m1(4), of a_mem]
  have "maps (tr (phys m1) ACC_STORE) (mem_addr (cpus m1 0) rs1 imm) (store_size op) q"
    using assms(5) e1 by (simp add: mem_addr_def)
  moreover have "0 < store_size op" by (cases op) simp_all
  ultimately obtain m2 where m2: "get_pa 0 (mem_addr (cpus m1 0) rs1 imm) ACC_STORE m1 = Inr (q, m2)"
    "ok m2" "env m2 = env m1" "arch_of m2 = arch_of m1" "gpr (cpus m2 0) = gpr (cpus m1 0)"
    by (rule translated [OF m1(2)]) blast
  let ?n = "le_store poke (q - MEMORY_BASE) (get_x (cpus m1 0) rs2) (store_size op) m2"
  let ?m = "upd_cpu 0 (\<lambda>c. goto (pc c + 4) c) ?n"
  have z: "gpr (cpus m1 0) 0 = 0" "gpr (cpus m2 0) 0 = 0" using assms(2) m1(5) m2(5) by simp_all
  have r: "ram_addr q (store_size op)" using assms(5) by (simp add: maps_def)
  have d: "decode_and_execute 0 (encode_store op rs1 rs2 imm) m1 = Inr ?m"
    by (rule store_exec [OF z(1) m2(1) ok_bus [OF m2(2)] r])
  have "arch_of ?m = jump (pc (cpus m2 0) + 4) (arch_of ?n)"
    by (simp add: arch_of_def jump_def goto_def frame get_x_def fun_eq_iff)
  also have "arch_of ?n = (arch_of m2)\<lparr>a_mem := phys ?n\<rparr>"
    by (simp only: arch_of_def arch.simps frame)
  finally have a: "arch_of ?m = store_step op rs2 q (arch_of m)"
    using e1 m2(4) m1(4) unfolding phys_store by (simp add: store_step_def) (simp add: arch_of_def)
  show ?thesis
  proof (rule performsI [OF m1(1) d m2(2) _ _ _ _ a])
    show "view ?m = view m2" by (simp add: view_def Let_def goto_def frame)
    have "phys ?m = a_mem (store_step op rs2 q (arch_of m))" using arg_cong [OF a, of a_mem] by simp
    then show "same (phys m2) (phys ?m)" using assms(6) m1(4) arg_cong [OF m2(4), of a_mem] e1 by simp
    show "env ?m = env m" unfolding m1(3) [symmetric] m2(3) [symmetric] by (simp add: env_def goto_def frame)
    show "gpr (cpus ?m 0) 0 = 0" using z(2) by (simp add: goto_def frame)
  qed
qed

lemma perform:
  "arch_step tr same (arch_of m) s \<Longrightarrow> ok m \<Longrightarrow> gpr (cpus m 0) 0 = 0 \<Longrightarrow> performs ok m s"
  by (erule arch_step.cases)
    (auto simp only: arch_of_simps intro: perform_long perform_short perform_load perform_store)

text \<open>A turn with interrupts off, and \<open>n\<close> of them.\<close>

lemma ok_counters: "ok m \<Longrightarrow> ok (step_counters 0 m)"
  using ok_view [of m "step_counters 0 m"] by (simp add: view_counters same_refl)

lemma ready_counters: "ready ok m \<Longrightarrow> ready ok (step_counters 0 m)"
  using restD(4) [OF step_counters_cpu(10), of 0 m]
  by (simp add: ready_def ok_counters quiet_def step_counters_cpu step_counters_csr)

lemma simulate:
  assumes "arch_step tr same (arch_of m) s" "ready ok m"
  shows "\<exists>m'. main_turn m = Inr m' \<and> ready ok m' \<and> arch_of m' = s"
proof -
  from perform [OF assms(1)] assms(2) obtain m' where m': "cpu_step 0 m = Inr (step_counters 0 m')" "ok m'"
    "env m' = env m" "gpr (cpus m' 0) 0 = 0" "arch_of m' = s" unfolding ready_def performs_def by blast
  have r: "ready ok m'" using assms(2) m'(2,4) envD [OF m'(3)] by (simp add: ready_def quiet_def)
  note c = ready_counters [OF r]
  then have "upd_cpu 0 (check_and_handle_interrupts (host m')) (step_counters 0 m') = step_counters 0 m'"
    by (simp add: ready_def quiet_check upd_cpu_def)
  with turn_eq [OF m'(1,4)] r have "main_turn m = Inr (step_counters 0 m')" by (simp add: ready_def)
  with c m'(5) show ?thesis by (simp add: arch_of_counters)
qed

lemma simulate_runs:
  "(arch_step tr same ^^ n) (arch_of m) s \<Longrightarrow> ready ok m \<Longrightarrow> \<exists>m'. runs m n m' \<and> ready ok m' \<and> arch_of m' = s"
proof (induction n arbitrary: s)
  case 0
  then show ?case by (auto intro: runs.start)
next
  case (Suc n)
  then obtain t where t: "(arch_step tr same ^^ n) (arch_of m) t" "arch_step tr same t s" by auto
  with Suc obtain m' where m': "runs m n m'" "ready ok m'" "arch_of m' = t" by blast
  with t(2) simulate [of m' s] obtain m'' where "main_turn m' = Inr m''" "ready ok m''" "arch_of m'' = s" by blast
  with m' show ?case by (auto intro: runs.turn simp: ready_def)
qed

end

section \<open>A hart without translation\<close>

definition bare_tr :: translation where
  "bare_tr mem acc va = Some va"

definition any_store :: "(u64 \<Rightarrow> u8) \<Rightarrow> (u64 \<Rightarrow> u8) \<Rightarrow> bool" where
  "any_store f g \<longleftrightarrow> True"

definition untranslated :: "machine \<Rightarrow> bool" where
  "untranslated m \<longleftrightarrow> drop_bit 60 (csr (cpus m 0) CSR_SATP) AND 0xF = 0 \<and> cpu_bus (cpus m 0) = emu_bus"

interpretation bare: address_space bare_tr any_store untranslated
proof
  fix m m' :: machine and acc va pa
  assume u: "untranslated m"
  then show "cpu_bus (cpus m 0) = emu_bus" by (simp add: untranslated_def)
  show "\<exists>m'. get_pa 0 va acc m = Inr (pa, m') \<and> same_but_tlb 0 m m' \<and> untranslated m'"
    if "bare_tr (phys m) acc va = Some pa"
    using that u get_pa_off [of m 0 va acc] by (auto simp: bare_tr_def untranslated_def same_but_tlb_def)
  show "untranslated m'" if "view m' = view m"
    using that u by (simp add: view_def Let_def untranslated_def)
qed (simp add: any_store_def)

lemma maps_bare: "maps (bare_tr mem acc) va n pa \<longleftrightarrow> ram_addr va n \<and> pa = va" if "0 < n"
  using that by (force simp: maps_def bare_tr_def)

section \<open>The end of main\<close>

lemma report_reads_ram:
  "gbus m = emu_bus \<Longrightarrow> \<forall>a\<in>set as. ram_addr a 8 \<Longrightarrow> report_reads as m = Inr m"
  by (induction as) (simp_all add: bus_read_ram)

text \<open>
  When the loop has ended, \<open>main\<close> returns: for a hart without translation the reads and
  translations of its report all succeed and change nothing.
\<close>

theorem main_returns:
  assumes "gbus m = emu_bus" "drop_bit 60 (csr (cpus m 0) CSR_SATP) AND 0xF = 0"
  shows "main_report m = Inr m"
proof -
  have "ram_addr (0x8001a000 + of_nat (16 * i)) 8" if "i < 0x40" for i
  proof -
    have "unat (0x8001a000 + of_nat (16 * i) :: u64) = 0x8001a000 + 16 * i"
      using that by (simp add: unat_word_ariths unsigned_of_nat take_bit_nat_eq_self)
    with that show ?thesis by (simp add: ram_addr_def word_le_nat_alt)
  qed
  then have "report_reads (map (\<lambda>i. 0x8001a000 + of_nat (16 * i)) [0..<0x40]) m = Inr m"
    by (intro report_reads_ram assms(1)) auto
  moreover have "report_reads [0x87f55028, 0x87f56028] m = Inr m"
    by (rule report_reads_ram [OF assms(1)]) (simp add: ram_addr_def)
  ultimately show ?thesis
    unfolding main_report_def by (simp only: rbind.simps prod.case get_pa_off [OF assms(2)])
qed

section \<open>A program\<close>

text \<open>
  The sum of the numbers up to \<open>x1\<close>, stored where \<open>x3\<close> points: \<open>add x2, x2, x1\<close>;
  \<open>c.addi x1, -1\<close>; \<open>bne x1, x0\<close> back to the start; \<open>sd x2, 0(x3)\<close>.
\<close>

definition sum_code :: "translation \<Rightarrow> u64 \<Rightarrow> u64 \<Rightarrow> (u64 \<Rightarrow> u8) \<Rightarrow> bool" where
  "sum_code tr va p f \<longleftrightarrow> maps (tr f ACC_FETCH) va 14 p \<and>
     le_load f p 4 = ucast (encode (Op Add 2 2 1)) \<and>
     le_load f (p + 4) 2 = ucast (encode_c (C_Addi 1 (-1))) \<and>
     le_load f (p + 6) 4 = ucast (encode (Branch Bne 1 0 (-3))) \<and>
     le_load f (p + 10) 4 = ucast (encode_store Sd 3 2 0)"

lemma maps_part: "maps t va n pa \<Longrightarrow> i + k \<le> n \<Longrightarrow> maps t (va + of_nat i) k (pa + of_nat i)"
proof -
  assume a: "maps t va n pa" "i + k \<le> n"
  have "t (va + of_nat i + of_nat j) = Some (pa + of_nat i + of_nat j)" if "j < k" for j
  proof -
    have "t (va + of_nat (i + j)) = Some (pa + of_nat (i + j))" using a that by (simp add: maps_def del: of_nat_add)
    then show ?thesis by (simp add: add.assoc)
  qed
  with a ram_addr_part [of pa n i k] show ?thesis by (simp add: maps_def)
qed

lemma sum_turn:
  assumes "sum_code tr va p (a_mem s)" "a_pc s = va" "a_x s 0 = 0"
  shows "(arch_step tr same ^^ 3) s (s\<lparr>a_pc := if a_x s 1 = 1 then va + 10 else va,
    a_x := (a_x s)(2 := a_x s 2 + a_x s 1, 1 := a_x s 1 - 1)\<rparr>)"
proof -
  let ?s1 = "instr_step 4 (Op Add 2 2 1) s"
  let ?s2 = "instr_step 2 (expand (C_Addi 1 (-1))) ?s1"
  let ?s3 = "instr_step 4 (Branch Bne 1 0 (-3)) ?s2"
  have c: "maps (tr (a_mem s) ACC_FETCH) va 14 p" using assms(1) by (simp add: sum_code_def)
  have r: "maps (tr (a_mem s) ACC_FETCH) va 4 p" "maps (tr (a_mem s) ACC_FETCH) (va + 4) 2 (p + 4)"
    "maps (tr (a_mem s) ACC_FETCH) (va + 6) 4 (p + 6)"
    using maps_part [OF c, of 0 4] maps_part [OF c, of 4 2] maps_part [OF c, of 6 4] by simp_all
  have 1: "arch_step tr same s ?s1"
    by (rule long, unfold assms(2), rule r) (use assms in \<open>simp_all add: sum_code_def\<close>)
  have pc1: "a_pc ?s1 = va + 4" "a_mem ?s1 = a_mem s" using assms by (simp_all add: jump_def)
  have 2: "arch_step tr same ?s1 ?s2"
    by (rule short, unfold pc1, rule r) (use assms in \<open>simp_all add: sum_code_def\<close>)
  have pc2: "a_pc ?s2 = va + 6" "a_mem ?s2 = a_mem s" using assms by (simp_all add: jump_def)
  have 3: "arch_step tr same ?s2 ?s3"
    by (rule long, unfold pc2, rule r) (use assms in \<open>simp_all add: sum_code_def\<close>)
  have "?s3 = s\<lparr>a_pc := if a_x s 1 = 1 then va + 10 else va,
    a_x := (a_x s)(2 := a_x s 2 + a_x s 1, 1 := a_x s 1 - 1)\<rparr>"
    using assms by (simp add: jump_def put_x_def offset_def fun_upd_twist)
  moreover have "(arch_step tr same ^^ Suc (Suc (Suc 0))) s ?s3"
    using 1 2 3 by (auto simp del: instr_step.simps)
  ultimately show ?thesis by (simp only: numeral_3_eq_3)
qed

fun triangle :: "nat \<Rightarrow> nat" where
  "triangle 0 = 0"
| "triangle (Suc n) = Suc n + triangle n"

lemma triangle_eq: "triangle n = n * Suc n div 2"
  by (induction n) simp_all

lemma sum_loop:
  assumes "sum_code tr va p (a_mem s)" "a_pc s = va" "a_x s 0 = 0" "a_x s 1 = of_nat (Suc k)" "Suc k < 2 ^ 64"
  shows "\<exists>t. (arch_step tr same ^^ (3 * Suc k)) s t \<and> a_pc t = va + 10 \<and> a_mem t = a_mem s \<and>
    a_x t 2 = a_x s 2 + of_nat (triangle (Suc k)) \<and> (\<forall>r. r \<noteq> 1 \<and> r \<noteq> 2 \<longrightarrow> a_x t r = a_x s r)"
  using assms
proof (induction k arbitrary: s)
  case 0
  with sum_turn [of tr va p s same] show ?case by fastforce
next
  case (Suc k)
  let ?t = "s\<lparr>a_pc := va, a_x := (a_x s)(2 := a_x s 2 + a_x s 1, 1 := a_x s 1 - 1)\<rparr>"
  have "a_x s 1 \<noteq> 1"
  proof
    assume "a_x s 1 = 1"
    with Suc.prems have "(of_nat (Suc (Suc k)) :: u64) = of_nat 1" by simp
    then have "unat (of_nat (Suc (Suc k)) :: u64) = 1" by simp
    with Suc.prems(5) show False by (simp add: unsigned_of_nat take_bit_nat_eq_self del: of_nat_Suc)
  qed
  with sum_turn [of tr va p s same] Suc.prems have t: "(arch_step tr same ^^ 3) s ?t" by simp
  have "a_x ?t 1 = of_nat (Suc k)" "sum_code tr va p (a_mem ?t)" "a_x ?t 0 = 0" "Suc k < 2 ^ 64"
    using Suc.prems by simp_all
  with Suc.IH [of ?t] obtain u where u: "(arch_step tr same ^^ (3 * Suc k)) ?t u" "a_pc u = va + 10" "a_mem u = a_mem s"
    "a_x u 2 = a_x ?t 2 + of_nat (triangle (Suc k))" "\<forall>r. r \<noteq> 1 \<and> r \<noteq> 2 \<longrightarrow> a_x u r = a_x s r" by auto
  have "(arch_step tr same ^^ (3 + 3 * Suc k)) s u" using t u(1) by (auto simp: relpowp_add simp del: mult_Suc_right)
  moreover have "a_x u 2 = a_x s 2 + of_nat (triangle (Suc (Suc k)))"
    using u(4) Suc.prems(4) by (simp add: ac_simps)
  moreover have "3 + 3 * Suc k = 3 * Suc (Suc k)" by simp
  ultimately show ?case using u(2,3,5) by (intro exI [of _ u]) (simp del: relpowp.simps mult_Suc_right triangle.simps)
qed

lemma sum_done:
  assumes "sum_code tr va p (a_mem s)" "a_pc s = va + 10" "maps (tr (a_mem s) ACC_STORE) (a_x s 3) 8 q"
    "same (a_mem s) (a_mem (store_step Sd 2 q s))"
  shows "arch_step tr same s (store_step Sd 2 q s)"
proof (rule store)
  have c: "maps (tr (a_mem s) ACC_FETCH) va 14 p" using assms(1) by (simp add: sum_code_def)
  show "maps (tr (a_mem s) ACC_FETCH) (a_pc s) 4 (p + 10)"
    using maps_part [OF c, of 10 4] assms(2) by simp
  show "le_load (a_mem s) (p + 10) 4 = ucast (encode_store Sd 3 2 0)" using assms(1) by (simp only: sum_code_def)
qed (use assms in simp_all)

text \<open>
  C1. The emulator runs programs. Whatever the abstract machine of the architecture does in \<open>n\<close>
  steps from the state that a hart and its memory represent, fetching 32-bit and 16-bit
  instructions, loads and stores from that memory (a program may store over itself), the emulator
  does in \<open>n\<close> turns of its main loop, to a state that represents the result; for a hart that runs
  without translation and with interrupts off, and for the instructions that the single-instruction
  properties admit.
\<close>

theorem runs_programs:
  assumes "ready untranslated m" and "(arch_step bare_tr any_store ^^ n) (arch_of m) s"
  shows "\<exists>m'. runs m n m' \<and> ready untranslated m' \<and> arch_of m' = s"
  by (rule bare.simulate_runs [OF assms(2,1)])

text \<open>The program in memory, with 100 in \<open>x1\<close>: after 301 turns the sum is in memory.\<close>

definition sum_machine :: machine where
  "sum_machine = (upd_cpu 0 (\<lambda>c. c\<lparr>cpu_bus := emu_bus, pc := 0x80000000, privilege := 1, running := True,
       gpr := (\<lambda>_. 0)(1 := 100, 3 := 0x80001000)\<rparr>) blank)
     \<lparr>memory := (\<lambda>_. 0)(0 := 0x33, 1 := 0x01, 2 := 0x11, 4 := 0xFD, 5 := 0x10, 6 := 0xE3, 7 := 0x9D, 9 := 0xFE,
       0xA := 0x23, 0xB := 0xB0, 0xC := 0x21)\<rparr>"

lemma sum_machine_simps:
  "gpr (cpus sum_machine 0) = (\<lambda>_. 0)(1 := 100, 3 := 0x80001000)" "pc (cpus sum_machine 0) = 0x80000000"
  "get_x (cpus sum_machine 0) 0 = 0" "get_x (cpus sum_machine 0) 1 = 100" "get_x (cpus sum_machine 0) 2 = 0"
  "get_x (cpus sum_machine 0) 3 = 0x80001000"
  "ready untranslated sum_machine"
  by (simp_all add: sum_machine_def ready_def untranslated_def quiet_def get_x_def blank_def zero_machine_def zero_cpu_def)

lemma sum_words:
  "encode (Op Add 2 2 1) = 0x00110133" "encode_c (C_Addi 1 (-1)) = 0x10FD"
  "encode (Branch Bne 1 0 (-3)) = 0xFE009DE3" "encode_store Sd 3 2 0 = 0x0021B023"
  by (simp add: enc_r_def, code_simp, simp_all add: enc_b_def enc_r_def encode_store_def enc_s_def)

lemma sum_machine_code: "sum_code bare_tr 0x80000000 0x80000000 (phys sum_machine)"
  unfolding sum_code_def sum_words
  by (simp add: maps_bare ram_addr_def le_load_phys le_load_4 le_load_2) (simp add: sum_machine_def phys_def)

theorem runs_programs_witness:
  "\<exists>m'. runs sum_machine 301 m' \<and> le_load (memory m') 0x1000 8 = 5050"
proof -
  let ?m = sum_machine
  have k: "sum_code bare_tr 0x80000000 0x80000000 (a_mem (arch_of ?m))" "a_pc (arch_of ?m) = 0x80000000"
    "a_x (arch_of ?m) 0 = 0" "a_x (arch_of ?m) 1 = of_nat (Suc 99)" "Suc 99 < 2 ^ 64"
    using sum_machine_code by (simp_all add: sum_machine_simps)
  from sum_loop [OF k, of any_store] obtain t where
    t: "(arch_step bare_tr any_store ^^ 300) (arch_of ?m) t" "a_pc t = 0x80000000 + 10" "a_mem t = phys ?m"
      "a_x t 2 = 5050" "a_x t 3 = 0x80001000"
    by (auto simp: sum_machine_simps triangle_eq simp del: triangle.simps)
  have "arch_step bare_tr any_store t (store_step Sd 2 0x80001000 t)"
    by (rule sum_done [where va = "0x80000000" and p = "0x80000000"])
      (use t sum_machine_code in \<open>simp_all add: maps_bare any_store_def ram_addr_def\<close>)
  from runs_programs [OF sum_machine_simps(7) relpowp_Suc_I [OF t(1) this]] obtain m' where
    m': "runs ?m 301 m'" "arch_of m' = store_step Sd 2 0x80001000 t" by auto
  have "le_load (phys m') 0x80001000 8 = 5050"
    using arg_cong [OF m'(2), of a_mem] t(4) plain_mem.load_after_store [of 8 "0x80001000" 5050 "a_mem t"]
    by (simp add: store_step_def jump_def del: le_store.simps)
  then have "le_load (memory m') 0x1000 8 = 5050" by (simp add: le_load_phys)
  with m' show ?thesis by blast
qed

end
