(* ===== verification/Paged_Run.thy ===== *)
theory Paged_Run
  imports Isa_Run
begin

text \<open>
  The second provider of the interface of translation: a hart under Sv39, with its page tables in
  guest memory and its translation cache. Programs run at virtual addresses as the architecture
  says, whether the cache hits or misses.
\<close>

section \<open>The translation of the page tables\<close>

text \<open>The tables in the memory of the abstract machine, and what they give for an access by \<open>c\<close>.\<close>

definition offsets :: "(u64 \<Rightarrow> u8) \<Rightarrow> u64 \<Rightarrow> u8" where
  "offsets f a = f (a + MEMORY_BASE)"

definition sv39_tr :: "CPU_State \<Rightarrow> translation" where
  "sv39_tr c f acc va =
     (if va < 2 ^ 38 \<and> pt_wf (offsets f) va 2 (root_table c) then
       (case pt_lookup (offsets f) va 2 (root_table c) of
          Some (i, pte) \<Rightarrow> if i = 0 \<and> leaf_ok c acc 0 pte \<and> phys_ok (page_pa pte va) 1 then Some (page_pa pte va) else None
        | None \<Rightarrow> None)
      else None)"

definition same_tables :: "CPU_State \<Rightarrow> (u64 \<Rightarrow> u8) \<Rightarrow> (u64 \<Rightarrow> u8) \<Rightarrow> bool" where
  "same_tables c f g \<longleftrightarrow> (\<forall>va < 2 ^ 38. pt_lookup (offsets g) va 2 (root_table c) = pt_lookup (offsets f) va 2 (root_table c))"

text \<open>Hart 0 translates as \<open>c\<close> does, and its cache agrees with the tables.\<close>

definition sv39_hart :: "CPU_State \<Rightarrow> machine \<Rightarrow> bool" where
  "sv39_hart c m \<longleftrightarrow> cpu_bus (cpus m 0) = emu_bus \<and> h_shl44 (host m) = 0 \<and>
     drop_bit 60 (csr (cpus m 0) CSR_SATP) = 8 \<and> csr (cpus m 0) CSR_SATP = csr c CSR_SATP \<and>
     privilege (cpus m 0) = privilege c \<and> sum (cpus m 0) = sum c \<and> mxr (cpus m 0) = mxr c \<and>
     tlb_coherent (memory m) (cpus m 0)"

lemma offsets_phys: "offsets (phys m) = memory m"
  by (simp add: offsets_def phys_def fun_eq_iff)

lemma coherent_tables:
  assumes "tlb_coherent f c" "tlb c' = tlb c" "root_table c' = root_table c"
    "\<forall>va < 2 ^ 38. pt_lookup g va 2 (root_table c) = pt_lookup f va 2 (root_table c)"
  shows "tlb_coherent g c'"
  using assms by (simp add: tlb_coherent_def cached_def entry_sound_def)

interpretation paged: address_space "sv39_tr c" "same_tables c" "sv39_hart c" for c
proof
  fix m m' :: machine and acc va pa
  assume h: "sv39_hart c m"
  have root: "root_table (cpus m 0) = root_table c" using h by (simp add: sv39_hart_def root_table_def)
  show "cpu_bus (cpus m 0) = emu_bus" using h by (simp add: sv39_hart_def)
  show "\<exists>m'. get_pa 0 va acc m = Inr (pa, m') \<and> same_but_tlb 0 m m' \<and> sv39_hart c m'"
    if t: "sv39_tr c (phys m) acc va = Some pa"
  proof -
    from t obtain pte where p: "va < 2 ^ 38" "pt_wf (memory m) va 2 (root_table c)"
      "pt_lookup (memory m) va 2 (root_table c) = Some (0, pte)" "leaf_ok c acc 0 pte" "phys_ok pa 1" "pa = page_pa pte va"
      by (auto simp: sv39_tr_def offsets_phys split: if_splits option.splits)
    have "sv39_setup 0 va m" using h p(1,2) unfolding sv39_setup_def sv39_hart_def root by blast
    moreover have "leaf_ok (cpus m 0) acc 0 pte"
      using p(4) h by (subst leaf_ok_cong [of _ c]) (simp_all add: sv39_hart_def)
    ultimately obtain m' where m': "get_pa 0 va acc m = Inr (pa, m')" "same_but_tlb 0 m m'"
      "tlb_coherent (memory m') (cpus m' 0)"
      using get_pa_sv39 [of 0 va m pte acc] p root by auto
    note e = same_but_tlb_env [OF m'(2)] same_but_tlbD [OF m'(2)]
    have "sum (cpus m' 0) = sum (cpus m 0)" "mxr (cpus m' 0) = mxr (cpus m 0)" by (subst e(3), simp)+
    with h m' e(4-) show ?thesis by (auto simp: sv39_hart_def)
  qed
  show "sv39_hart c m'" if v: "view m' = view m" "same_tables c (phys m) (phys m')"
  proof -
    have r: "root_table (cpus m' 0) = root_table (cpus m 0)" "tlb (cpus m' 0) = tlb (cpus m 0)"
      using v(1) by (simp_all add: view_def Let_def root_table_def)
    have "tlb_coherent (memory m') (cpus m' 0)"
      by (rule coherent_tables [OF _ r(2,1)]) (use h v(2) root in \<open>auto simp: sv39_hart_def same_tables_def offsets_phys\<close>)
    with h v(1) show ?thesis by (auto simp: view_def Let_def sv39_hart_def)
  qed
qed (simp add: same_tables_def)

text \<open>
  C2. The emulator runs programs in virtual memory. Under Sv39, for a hart with interrupts off whose
  translation cache agrees with its page tables, every \<open>n\<close> steps of the abstract machine that
  fetches, loads and stores through the page tables (4 KiB pages, each access within what the
  tables map to consecutive bytes, stores outside the tables) are \<open>n\<close> turns of the main loop, to a
  state that represents the result, with the cache still in agreement.
\<close>

theorem runs_paged_programs:
  assumes "ready (sv39_hart c) m" and "(arch_step (sv39_tr c) (same_tables c) ^^ n) (arch_of m) s"
  shows "\<exists>m'. runs m n m' \<and> ready (sv39_hart c) m' \<and> arch_of m' = s"
  by (rule paged.simulate_runs [OF assms(2,1)])

text \<open>The summing program on the page of \<open>paged_machine\<close>, at virtual address 0x900.\<close>

definition paged_sum :: machine where
  "paged_sum = (upd_cpu 0 (\<lambda>c. c\<lparr>pc := 0x900, running := True, gpr := (\<lambda>_. 0)(1 := 100)\<rparr>) paged_machine)
     \<lparr>memory := (memory paged_machine)(0x900 := 0x33, 0x901 := 0x01, 0x902 := 0x11, 0x903 := 0, 0x904 := 0xFD,
       0x905 := 0x10, 0x906 := 0xE3, 0x907 := 0x9D, 0x908 := 0, 0x909 := 0xFE, 0x90A := 0x23, 0x90B := 0xB0,
       0x90C := 0x21, 0x90D := 0)\<rparr>"

lemma paged_sum_ptes:
  "pte_at (memory paged_sum) 0x80000000 = 0x20000401" "pte_at (memory paged_sum) 0x80001000 = 0x20000801"
  "pte_at (memory paged_sum) 0x80002000 = 0x200000CF"
proof -
  have "pte_at (memory paged_sum) a = pte_at (memory paged_machine) a"
    if "a = 0x80000000 \<or> a = 0x80001000 \<or> a = 0x80002000" for a
    using that unfolding pte_at_def le_load_8 paged_sum_def by auto
  then show "pte_at (memory paged_sum) 0x80000000 = 0x20000401" "pte_at (memory paged_sum) 0x80001000 = 0x20000801"
    "pte_at (memory paged_sum) 0x80002000 = 0x200000CF" by (simp_all add: paged_machine_ptes)
qed

lemma page_pa_identity: "va < 0x1000 \<Longrightarrow> page_pa 0x200000CF va = 0x80000000 + va"
proof -
  assume v: "va < 0x1000"
  have m: "(0xFFF :: u64) = mask 12" by (simp add: mask_eq_exp_minus_1)
  have l: "va AND mask 12 = va" by (rule less_mask_eq) (use v in simp)
  have p: "push_bit 12 (drop_bit 10 (0x200000CF :: u64) AND mask 44) = 0x80000000"
    by (simp add: mask_eq_exp_minus_1 push_bit_eq_mult drop_bit_eq_div)
  have "(0x80000000 :: u64) AND va = 0"
  proof (rule bit_word_eqI)
    fix n
    have "bit va n \<Longrightarrow> n < 12" using arg_cong [OF l, of "\<lambda>x. bit x n"] by (auto simp: bit_and_iff bit_mask_iff)
    moreover have "bit (0x80000000 :: u64) n \<longleftrightarrow> n = 31"
      using bit_exp_iff [of 31 n, where 'a = "64 word"] by auto
    ultimately show "bit ((0x80000000 :: u64) AND va) n = bit (0 :: u64) n" by (auto simp: bit_and_iff)
  qed
  then have "0x80000000 OR va = 0x80000000 + va" by (rule disjunctive_add_eq_or [symmetric])
  then show ?thesis unfolding page_pa_def p m l .
qed

lemma paged_sum_tr: "va < 0x1000 \<Longrightarrow> sv39_tr (cpus paged_sum 0) (phys paged_sum) acc va = Some (0x80000000 + va)"
proof -
  assume v: "va < 0x1000"
  have r: "root_table (cpus paged_sum 0) = 0x80000000"
    using paged_machine_root by (simp add: paged_sum_def root_table_def)
  have "leaf_ok (cpus paged_sum 0) acc 0 0x200000CF"
    using paged_machine_cpu by (simp add: paged_sum_def leaf_ok_def masks pte_bits)
  moreover have "phys_ok (0x80000000 + va) 1"
  proof -
    have "unat va < 0x1000" using v by (simp add: word_less_nat_alt)
    then have "unat (0x80000000 + va + 1) = 0x80000001 + unat va" by (simp add: unat_word_ariths)
    with v show ?thesis by (simp add: phys_ok_def word_less_nat_alt not_less)
  qed
  moreover have "va < 2 ^ 38" using v by (rule less_trans) simp
  ultimately show ?thesis
    unfolding sv39_tr_def offsets_phys r page_walk(1) [OF v paged_sum_ptes]
    using page_walk(2) [OF v paged_sum_ptes] page_pa_identity [OF v]
    by (simp only: option.case prod.case if_True simp_thms)
qed

lemma paged_sum_code: "sum_code (sv39_tr (cpus paged_sum 0)) 0x900 0x80000900 (phys paged_sum)"
proof -
  have "maps (sv39_tr (cpus paged_sum 0) (phys paged_sum) ACC_FETCH) 0x900 14 0x80000900"
    unfolding maps_def
  proof (intro conjI allI impI)
    fix k :: nat assume "k < 14"
    then have "0x900 + of_nat k < (0x1000 :: u64)"
      by (simp add: word_less_nat_alt unat_word_ariths unsigned_of_nat take_bit_nat_eq_self)
    from paged_sum_tr [OF this]
    show "sv39_tr (cpus paged_sum 0) (phys paged_sum) ACC_FETCH (0x900 + of_nat k) = Some (0x80000900 + of_nat k)"
      by (simp add: algebra_simps)
  qed (simp add: ram_addr_def)
  then show ?thesis
    unfolding sum_code_def sum_words
    by (simp add: le_load_phys le_load_4 le_load_2) (simp add: paged_sum_def phys_def)
qed

lemma paged_sum_ready: "ready (sv39_hart (cpus paged_sum 0)) paged_sum"
proof -
  have "tlb_coherent f (cpus paged_sum 0)" for f
    by (auto simp: tlb_coherent_def cached_def Mmu.covers_def tlb_match_def paged_sum_def paged_machine_cpu zero_tlb_def zero_entry_def)
  then show ?thesis
    by (simp add: ready_def sv39_hart_def) (simp add: paged_sum_def quiet_def paged_machine_def frame blank_def
        zero_machine_def zero_cpu_def drop_bit_eq_div)
qed

theorem runs_paged_programs_witness:
  "\<exists>m'. runs paged_sum 300 m' \<and> get_x (cpus m' 0) 2 = 5050 \<and> pc (cpus m' 0) = 0x90A"
proof -
  let ?c = "cpus paged_sum 0" and ?m = paged_sum
  have r: "ready (sv39_hart ?c) ?m" by (rule paged_sum_ready)
  have k: "sum_code (sv39_tr ?c) 0x900 0x80000900 (a_mem (arch_of ?m))" "a_pc (arch_of ?m) = 0x900"
    "a_x (arch_of ?m) 0 = 0" "a_x (arch_of ?m) 1 = of_nat (Suc 99)" "Suc 99 < 2 ^ 64"
    using paged_sum_code by (simp_all add: get_x_def) (simp_all add: paged_sum_def)
  from sum_loop [OF k, of "same_tables ?c"] obtain t where
    t: "(arch_step (sv39_tr ?c) (same_tables ?c) ^^ 300) (arch_of ?m) t" "a_pc t = 0x900 + 10"
      "a_x t 2 = get_x ?c 2 + 5050"
    by (auto simp: triangle_eq simp del: triangle.simps)
  have "get_x ?c 2 = 0" by (simp add: get_x_def paged_sum_def)
  from runs_paged_programs [OF r t(1)] t(2,3) this show ?thesis by auto
qed

end
