(* ===== verification/Device_Runs.thy ===== *)
theory Device_Runs
  imports Paged_Run
begin

text \<open>
  Devices and hart together: a request that a device raises travels through the interrupt
  controller to the hart, which takes the trap at the end of the same turn of the main loop.
\<close>

section \<open>From the controller to the hart\<close>

text \<open>The controller would deliver source \<open>irq\<close> to hart 0, and the hart would take it.\<close>

definition source_on :: "int \<Rightarrow> machine \<Rightarrow> bool" where
  "source_on irq m \<longleftrightarrow> plic_is_enabled (g_plic m) irq 0 \<and> \<not> irq_bit (claimed (g_plic m) 0) irq \<and>
     threshold (g_plic m) 0 < priority (g_plic m) (nat irq)"

definition takes_external :: "CPU_State \<Rightarrow> bool" where
  "takes_external c \<longleftrightarrow> (privilege c = 0 \<or> privilege c = 1 \<and> bit (csr c CSR_SSTATUS) 1) \<and>
     bit (csr c CSR_MIDELEG) 9 \<and> bit (csr c CSR_SIE) 9"

lemma plic_update_csr: "i \<noteq> CSR_MIP \<Longrightarrow> csr (cpus (plic_update c m) k) i = csr (cpus m k) i"
  by (cases "valid_cpu c") (simp_all add: plic_update_eq Let_def)

lemma plic_raise_csr: "i \<noteq> CSR_MIP \<Longrightarrow> csr (cpus (plic_set_irq irq l m) k) i = csr (cpus m k) i"
  by (simp add: plic_set_irq_eq Let_def plic_update_csr)

lemma bit_meip: "bit (x OR ucast MIP_MEIP :: u64) 11" "(x OR ucast MIP_MEIP :: u64) AND ucast MIP_MEIP \<noteq> 0"
  using bit_set_u32 [of 11 x 11] by (simp_all add: masks)

text \<open>A request of such a source sets the external line and wakes the hart.\<close>

lemma plic_raise:
  assumes "source_on irq m"
  shows "bit (csr (cpus (plic_set_irq irq 1 m) 0) CSR_MIP) 11" "\<not> halted (cpus (plic_set_irq irq 1 m) 0)"
    "deliverable (g_plic (plic_set_irq irq 1 m)) 0 (nat irq)"
proof -
  let ?m = "m\<lparr>g_plic := (g_plic m)\<lparr>pending := set_irq_bit irq (pending (g_plic m))\<rparr>\<rparr>"
  have e: "plic_is_enabled (g_plic m) irq 0" "1 \<le> irq" "irq < MAX_IRQS"
    using assms by (auto simp: source_on_def plic_is_enabled_iff)
  then have s: "plic_set_irq irq 1 m = plic_update 0 ?m" by (simp add: plic_set_irq_eq)
  have d: "deliverable (g_plic ?m) 0 (nat irq)"
    using assms e by (simp add: source_on_def deliverable_def candidate_def plic_is_enabled_def)
  then have "winner (g_plic ?m) 0 \<noteq> 0" using winner_iff by blast
  then show "bit (csr (cpus (plic_set_irq irq 1 m) 0) CSR_MIP) 11" "\<not> halted (cpus (plic_set_irq irq 1 m) 0)"
    unfolding s using bit_meip
    by (simp_all add: plic_update_eq valid_cpu_def Let_def word_gt_0 cpu_try_wakeup_def cpu_has_interrupts_pending_def)
  show "deliverable (g_plic (plic_set_irq irq 1 m)) 0 (nat irq)" using d by (simp add: s)
qed

text \<open>The bookkeeping of an instruction does not clear the line.\<close>

lemma clint_tick_line: "bit (csr (cpus m k) CSR_MIP) 11 \<Longrightarrow> bit (csr (cpus (clint_tick h n m) k) CSR_MIP) 11"
  by (auto simp: clint_tick_def clint_update_interrupts_def Let_def bit_timer_line)

lemma counters_line: "bit (csr (cpus m k) CSR_MIP) 11 \<Longrightarrow> bit (csr (cpus (step_counters h m) k) CSR_MIP) 11"
  by (auto simp: step_counters_def Let_def upd_cpu_def clint_tick_line)

lemma external_taken:
  assumes "takes_external c" "bit (csr c CSR_MIP) 11"
  shows "check_and_handle_interrupts ho c = take_smode_trap 9 True c"
proof -
  have "find (irq_ready c) [9, 5, 1] = Some 9" using assms by (simp add: irq_ready_def takes_external_def)
  with check_supervisor [of c ho] assms(1) show ?thesis
    by (auto simp: takes_external_def simp del: find.simps)
qed

section \<open>A received byte\<close>

definition rx_interrupt_on :: "UARTDevice \<Rightarrow> bool" where
  "rx_interrupt_on u \<longleftrightarrow> \<not> u_locked u \<and> bit (u_ier u) 0 \<and> u_plic u \<and> u_irq_num u = UART_IRQ_NUM"

context address_space
begin

text \<open>One instruction of a program and then the trap.\<close>

lemma turn_traps:
  assumes "arch_step tr same (arch_of m) s" "ok m" "gpr (cpus m 0) 0 = 0" "pending_ops m = []" "takes_external (cpus m 0)"
    "bit (csr (cpus m 0) CSR_MIP) 11"
  shows "\<exists>m'. main_turn m = Inr m' \<and> arch_of m' = s\<lparr>a_pc := trap_target (csr (cpus m 0) CSR_STVEC) 9 True\<rparr> \<and>
    csr (cpus m' 0) CSR_SEPC = a_pc s \<and> csr (cpus m' 0) CSR_SCAUSE = push_bit 63 1 OR 9 \<and>
    privilege (cpus m' 0) = 1 \<and> \<not> bit (csr (cpus m' 0) CSR_SSTATUS) 1 \<and> g_uart m' = g_uart m \<and> g_plic m' = g_plic m"
proof -
  from perform [OF assms(1-3)] obtain n where n: "cpu_step 0 m = Inr (step_counters 0 n)" "env n = env m"
    "gpr (cpus n 0) 0 = 0" "arch_of n = s" unfolding performs_def by blast
  note e = envD [OF n(2)]
  let ?c = "cpus (step_counters 0 n) 0"
  let ?m' = "upd_cpu 0 (take_smode_trap 9 True) (step_counters 0 n)"
  have "takes_external ?c" using assms(5) e by (simp add: takes_external_def step_counters_cpu step_counters_csr)
  moreover have "bit (csr ?c CSR_MIP) 11" using assms(6) e by (intro counters_line) simp
  ultimately have "check_and_handle_interrupts (host n) ?c = take_smode_trap 9 True ?c" by (rule external_taken)
  with turn_eq [OF n(1,3)] assms(4) e have t: "main_turn m = Inr ?m'" by (simp add: upd_cpu_def)
  have pc: "pc ?c = a_pc s" using arg_cong [OF n(4), of a_pc] by (simp add: step_counters_cpu)
  have "arch_of ?m' = (arch_of (step_counters 0 n))\<lparr>a_pc := trap_target (csr ?c CSR_STVEC) 9 True\<rparr>"
    by (simp add: arch_of_def get_x_def fun_eq_iff phys_def)
  then have "arch_of ?m' = s\<lparr>a_pc := trap_target (csr (cpus m 0) CSR_STVEC) 9 True\<rparr>"
    using n(4) e by (simp add: arch_of_counters step_counters_csr)
  with t pc e show ?thesis by (intro exI [of _ ?m']) (simp add: smode_trap_sstatus step_counters_cpu)
qed

text \<open>A byte at the console: the same turn, after the console thread has stored it.\<close>

lemma byte_interrupts:
  assumes "ok m" and "gpr (cpus m 0) 0 = 0" and "running (cpus m 0)" and "pending_ops m = []" and "takes_external (cpus m 0)"
    and "rx_interrupt_on (g_uart m)" and "rx_ok (g_uart m)" and "source_on UART_IRQ_NUM m"
    and "b \<noteq> 4" and "arch_step tr same (arch_of m) s"
  shows "\<exists>m1 m2. console_step m m1 \<and> running (cpus m1 0) \<and> \<not> halted (cpus m1 0) \<and> main_turn m1 = Inr m2 \<and>
    arch_of m2 = s\<lparr>a_pc := trap_target (csr (cpus m 0) CSR_STVEC) 9 True\<rparr> \<and>
    csr (cpus m2 0) CSR_SEPC = a_pc s \<and> csr (cpus m2 0) CSR_SCAUSE = push_bit 63 1 OR 9 \<and>
    privilege (cpus m2 0) = 1 \<and> \<not> bit (csr (cpus m2 0) CSR_SSTATUS) 1 \<and>
    (\<exists>q. rx_queue (g_uart m2) = q @ [b]) \<and> deliverable (g_plic m2) 0 10"
proof -
  let ?n = "m\<lparr>g_uart := rx_pushed b (g_uart m)\<rparr>"
  let ?p = "plic_set_irq UART_IRQ_NUM 1 ?n"
  let ?m1 = "uart_unlock ?p"
  have u: "\<not> u_locked (g_uart m)" "u_ier (g_uart m) AND 1 \<noteq> 0" "u_plic (g_uart m)" "u_irq_num (g_uart m) = UART_IRQ_NUM"
    using assms(6) by (simp_all add: rx_interrupt_on_def masks)
  have "rx_buf_push b m = Inr ?m1"
    using u by (simp add: rx_buf_push_eq [OF u(1)] uart_plic_irq_def Let_def)
  then have c: "console_step m ?m1" using assms(9) by (intro rx [of b]) simp
  have src: "source_on UART_IRQ_NUM ?n" using assms(8) by (simp add: source_on_def)
  note r = plic_raise [OF src]
  have core: "core (cpus ?m1 0) = core (cpus m 0)" and rst: "rest ?m1 = rest m" by (simp_all add: frame)
  have csr: "i \<noteq> CSR_MIP \<Longrightarrow> csr (cpus ?m1 0) i = csr (cpus m 0) i" for i by (simp add: plic_raise_csr)
  have ph: "phys ?m1 = phys m" using restD [OF rst] by (simp add: phys_def fun_eq_iff)
  have "view ?m1 = view m" using coreD [OF core] restD [OF rst] csr by (simp add: view_def Let_def)
  then have ok: "ok ?m1" by (rule ok_view [OF assms(1)]) (simp add: ph same_refl)
  have m1: "gpr (cpus ?m1 0) 0 = 0" "pending_ops ?m1 = []" "takes_external (cpus ?m1 0)" "arch_of ?m1 = arch_of m"
    using assms coreD [OF core] restD [OF rst] csr
    by (simp_all add: takes_external_def arch_of_def get_x_def fun_eq_iff ph)
  obtain m2 where m2: "main_turn ?m1 = Inr m2" "arch_of m2 = s\<lparr>a_pc := trap_target (csr (cpus ?m1 0) CSR_STVEC) 9 True\<rparr>"
    "csr (cpus m2 0) CSR_SEPC = a_pc s" "csr (cpus m2 0) CSR_SCAUSE = push_bit 63 1 OR 9"
    "privilege (cpus m2 0) = 1" "\<not> bit (csr (cpus m2 0) CSR_SSTATUS) 1" "g_uart m2 = g_uart ?m1" "g_plic m2 = g_plic ?m1"
    using turn_traps [of ?m1 s] ok m1 assms(10) r(1) by auto
  have "rx_queue (g_uart ?m1) = (if length (rx_queue (g_uart m)) = 1024 then tl (rx_queue (g_uart m)) else rx_queue (g_uart m)) @ [b]"
    using rx_queue_accept [OF assms(7), of b] by (simp add: frame)
  moreover have "deliverable (g_plic ?m1) 0 10" using r(3) by simp
  ultimately show ?thesis
    using c m2 r(2) coreD(5) [OF core] assms(3) csr by (intro exI [of _ ?m1] exI [of _ m2]) auto
qed

end

text \<open>
  C10. A byte typed at the console interrupts the running program. With the receive interrupt enabled
  at the serial device, its source enabled and above the threshold at the controller, and external
  interrupts delegated and enabled at the hart, the console thread wakes the hart if it was halted,
  and the next turn of the main loop executes one more instruction of the program as the
  architecture says, then enters the supervisor's handler: the cause is 9, the saved program counter
  is that of the following instruction, registers and memory are those of the program, the byte is
  the last of the receive queue, and source 10 can be claimed.
\<close>

theorem received_byte_interrupts:
  assumes "sv39_hart c m" and "gpr (cpus m 0) 0 = 0" and "running (cpus m 0)" and "pending_ops m = []" and "takes_external (cpus m 0)"
    and "rx_interrupt_on (g_uart m)" and "rx_ok (g_uart m)" and "source_on UART_IRQ_NUM m"
    and "b \<noteq> 4" and "arch_step (sv39_tr c) (same_tables c) (arch_of m) s"
  shows "\<exists>m1 m2. console_step m m1 \<and> running (cpus m1 0) \<and> \<not> halted (cpus m1 0) \<and> main_turn m1 = Inr m2 \<and>
    arch_of m2 = s\<lparr>a_pc := trap_target (csr (cpus m 0) CSR_STVEC) 9 True\<rparr> \<and>
    csr (cpus m2 0) CSR_SEPC = a_pc s \<and> csr (cpus m2 0) CSR_SCAUSE = push_bit 63 1 OR 9 \<and>
    privilege (cpus m2 0) = 1 \<and> \<not> bit (csr (cpus m2 0) CSR_SSTATUS) 1 \<and>
    (\<exists>q. rx_queue (g_uart m2) = q @ [b]) \<and> deliverable (g_plic m2) 0 10"
  by (rule paged.byte_interrupts [OF assms])

text \<open>The program of \<open>Paged_Run\<close> with interrupts on, interrupted after its first instruction.\<close>

definition listening_machine :: machine where
  "listening_machine = (upd_cpu 0 (\<lambda>c. c\<lparr>csr := (csr c)(CSR_SSTATUS := 2, CSR_SIE := 0x200, CSR_STVEC := 0xF00,
       CSR_MIDELEG := 0x200)\<rparr>) paged_sum)
     \<lparr>g_uart := (uart_create UART_IRQ_NUM)\<lparr>u_ier := 1\<rparr>,
      g_plic := zero_plic\<lparr>priority := (\<lambda>_. 1), enable := (\<lambda>_ _. 1024)\<rparr>\<rparr>"

lemma listening_machine_hart:
  "sv39_hart (cpus paged_sum 0) listening_machine" "arch_of listening_machine = arch_of paged_sum"
  "csr (cpus listening_machine 0) CSR_STVEC = 0xF00"
proof -
  let ?m = "listening_machine"
  have p: "phys ?m = phys paged_sum" by (simp add: listening_machine_def phys_def fun_eq_iff)
  have "view ?m = view paged_sum" by (simp add: listening_machine_def view_def Let_def)
  moreover have "sv39_hart (cpus paged_sum 0) paged_sum" using paged_sum_ready by (simp add: ready_def)
  ultimately show "sv39_hart (cpus paged_sum 0) ?m"
    by (intro paged.ok_view [of _ paged_sum ?m]) (simp_all add: p paged.same_refl)
  show "arch_of ?m = arch_of paged_sum" unfolding arch_of_def p by (simp add: listening_machine_def get_x_def fun_eq_iff)
qed (simp add: listening_machine_def)

theorem received_byte_interrupts_witness:
  "\<exists>m1 m2. console_step listening_machine m1 \<and> main_turn m1 = Inr m2 \<and> pc (cpus m2 0) = 0xF00 \<and>
     csr (cpus m2 0) CSR_SEPC = 0x904 \<and> get_x (cpus m2 0) 2 = 100"
proof -
  let ?m = "listening_machine" and ?c = "cpus paged_sum 0"
  have sum: "privilege ?c = 1" "running ?c" "pending_ops paged_sum = []" "pc ?c = 0x900"
    "gpr ?c = (\<lambda>_. 0)(1 := 100)" "get_x ?c 1 = 100" "get_x ?c 2 = 0"
    using paged_sum_ready by (simp_all add: ready_def) (simp_all add: paged_sum_def paged_machine_cpu get_x_def)
  have m: "gpr (cpus ?m 0) 0 = 0" "running (cpus ?m 0)" "pending_ops ?m = []" "takes_external (cpus ?m 0)"
    "rx_interrupt_on (g_uart ?m)" "rx_ok (g_uart ?m)" "source_on UART_IRQ_NUM ?m"
    by (simp_all add: listening_machine_def sum takes_external_def bit_simps rx_interrupt_on_def uart_create_def
        uart_init_def zero_uart_def rx_ok_def ring_ok_def Let_def source_on_def plic_is_enabled_iff irq_bit_def zero_plic_def)
  let ?s = "instr_step 4 (Op Add 2 2 1) (arch_of paged_sum)"
  have f: "maps (sv39_tr ?c (phys paged_sum) ACC_FETCH) 0x900 4 0x80000900"
    using maps_part [of _ "0x900" 14 "0x80000900" 0 4] paged_sum_code by (simp add: sum_code_def)
  have "arch_step (sv39_tr ?c) (same_tables ?c) (arch_of ?m) ?s" unfolding listening_machine_hart(2)
    by (rule long, unfold arch_of_simps sum(4), rule f) (use paged_sum_code in \<open>simp_all add: sum_code_def\<close>)
  from received_byte_interrupts [OF listening_machine_hart(1) m _ this, of 65] obtain m1 m2 where
    r: "console_step ?m m1" "main_turn m1 = Inr m2" "arch_of m2 = ?s\<lparr>a_pc := trap_target 0xF00 9 True\<rparr>"
      "csr (cpus m2 0) CSR_SEPC = a_pc ?s" by (auto simp: listening_machine_hart(3))
  have "pc (cpus m2 0) = 0xF00" "get_x (cpus m2 0) 2 = 100"
    using arg_cong [OF r(3), of a_pc] arg_cong [OF r(3), of a_x]
    by (simp_all add: trap_target_def jump_def put_x_def sum)
  with r show ?thesis by (auto simp: jump_def sum)
qed

end
