(* ===== verification/Disk_Runs.thy ===== *)
theory Disk_Runs
  imports Device_Runs
begin

text \<open>
  A disk request from the descriptor chain in guest memory to the interrupt at the hart: what one
  pass of \<open>virtio_disk_update\<close> leaves in guest memory, at the device, at the interrupt
  controller and at the hart.
\<close>

section \<open>Regions of guest memory\<close>

definition apart :: "u64 \<Rightarrow> nat \<Rightarrow> u64 \<Rightarrow> nat \<Rightarrow> bool" where
  "apart a n b k \<longleftrightarrow> unat a + n \<le> unat b \<or> unat b + k \<le> unat a"

lemma unat_in_region: "ram_addr a n \<Longrightarrow> p < n \<Longrightarrow> unat (a - MEMORY_BASE + of_nat p) = unat a - unat MEMORY_BASE + p"
proof -
  assume a: "ram_addr a n" "p < n"
  then have b: "(unat a - 0x80000000 + p) mod 2 ^ 64 = unat a - 0x80000000 + p"
    by (intro mod_less) (simp add: ram_addr_def, linarith)
  have "unat (of_nat p :: u64) = p"
    using a by (simp add: ram_addr_def unsigned_of_nat take_bit_nat_eq_self)
  moreover have "unat (a - MEMORY_BASE) = unat a - 0x80000000"
    using a by (simp add: ram_addr_def unat_sub word_le_nat_alt)
  ultimately show ?thesis using b by (simp add: unat_word_ariths)
qed

lemma apart_bytes:
  assumes "ram_addr a n" "ram_addr b k" "apart a n b k" "p < n" "q < k"
  shows "a - MEMORY_BASE + of_nat p \<noteq> b - MEMORY_BASE + of_nat q"
proof
  assume "a - MEMORY_BASE + of_nat p = b - MEMORY_BASE + of_nat q"
  with unat_in_region [OF assms(1,4)] unat_in_region [OF assms(2,5)]
  have "unat a - unat MEMORY_BASE + p = unat b - unat MEMORY_BASE + q" by metis
  with assms show False by (auto simp: apart_def ram_addr_def word_le_nat_alt)
qed

lemma region_bytes:
  assumes "ram_addr a n" "p < n" "q < n" "p \<noteq> q"
  shows "a - MEMORY_BASE + of_nat p \<noteq> a - MEMORY_BASE + of_nat q"
  using assms unat_in_region [OF assms(1,2)] unat_in_region [OF assms(1,3)] by auto

text \<open>A store inside one region does not reach another.\<close>

lemma store_apart:
  assumes "ram_addr a n" "ram_addr b k" "apart a n b k" "p + l \<le> n" "q < k"
  shows "memory (le_store poke (a + of_nat p - MEMORY_BASE) v l m) (b - MEMORY_BASE + of_nat q) =
    memory m (b - MEMORY_BASE + of_nat q)"
proof (rule host_mem.get_le_store_outside)
  fix i assume "i < l"
  then have "a - MEMORY_BASE + of_nat (p + i) \<noteq> b - MEMORY_BASE + of_nat q"
    using assms by (intro apart_bytes [OF assms(1-3)]) auto
  then show "b - MEMORY_BASE + of_nat q \<noteq> a + of_nat p - MEMORY_BASE + of_nat i" by (simp add: algebra_simps)
qed

section \<open>Reading a block\<close>

lemma store_bytes_memory:
  assumes "ram_addr a 1024" "n \<le> 1024"
  shows "store_bytes (bus_write emu_bus) a d n m = Inr (m\<lparr>memory := (\<lambda>x.
    if unat (x - (a - MEMORY_BASE)) < n then d (unat (x - (a - MEMORY_BASE))) else memory m x)\<rparr>)"
  using assms(2)
proof (induction n)
  case (Suc n)
  have r: "ram_addr (a + of_nat n) 1" using Suc.prems assms(1) by (intro ram_addr_part) auto
  let ?o = "a - MEMORY_BASE"
  have u: "unat (x - ?o) = n \<longleftrightarrow> x = ?o + of_nat n" for x
  proof
    assume "unat (x - ?o) = n"
    moreover have "of_nat (unat (x - ?o)) = x - ?o" by simp
    ultimately show "x = ?o + of_nat n" by (simp add: algebra_simps)
  qed (use unat_small [of n] Suc.prems in simp)
  have e: "a + of_nat n - MEMORY_BASE = ?o + of_nat n" by simp
  have "(\<lambda>x. if unat (x - ?o) < n then d (unat (x - ?o)) else memory m x)(a + of_nat n - MEMORY_BASE := d n) =
      (\<lambda>x. if unat (x - ?o) < Suc n then d (unat (x - ?o)) else memory m x)"
    unfolding e using u unat_small [of n] Suc.prems by (auto simp: less_Suc_eq fun_eq_iff)
  then show ?case
    using Suc bus_write_ram [OF r] by (simp add: poke_def ucast_byte)
qed simp

lemma disk_in_exact:
  assumes "cpu_bus (cpus m 0) = emu_bus" "cache_ok m" "ram_addr req 16" "ram_addr data 1024"
    and "req_type m req = 0" "even (req_sector m req)" "block_in_image (req_sector m req div 2) m"
  obtains c where "disk_io req data m = Inr (m\<lparr>bc := c, memory := (\<lambda>x. if unat (x - (data - MEMORY_BASE)) < 1024
    then d_disk_data (dev m) (req_sector m req * 512 + (x - (data - MEMORY_BASE))) else memory m x)\<rparr>)"
    "cache_ok (m\<lparr>bc := c\<rparr>)"
proof -
  let ?b = "req_sector m req div 2"
  from load_block_ok [OF assms(2,7)] obtain m1 where m1: "load_block ?b m = Inr m1" "m1 = m\<lparr>bc := bc m1\<rparr>"
    "cache_ok m1" "bc_valid (bc m1)" "bc_blockno (bc m1) = ?b" by blast
  have c1: "cpus m1 = cpus m" "dev m1 = dev m" "memory m1 = memory m" by (subst m1(2), simp)+
  have d: "bc_data (bc m1) (of_nat i) = d_disk_data (dev m) (req_sector m req * 512 + of_nat i)" if "i < 1024" for i
    using m1(3,4,5) that block_offset [OF assms(6)] by (simp add: cache_ok_def c1)
  have "req_sector m req mod 2 * 512 = 0" using assms(6) by (simp add: even_iff_mod_2_eq_zero)
  then have "disk_io req data m = store_bytes (bus_write emu_bus) data (\<lambda>i. bc_data (bc m1) (of_nat i)) 1024 m1"
    using disk_io_eq [OF assms(3,4), of m] assms(5) m1(1) disk_in_loop [OF assms(4), of m1 1024] assms(1)
    by (simp add: Let_def c1)
  also have "\<dots> = Inr (m1\<lparr>memory := (\<lambda>x. if unat (x - (data - MEMORY_BASE)) < 1024
    then d_disk_data (dev m) (req_sector m req * 512 + (x - (data - MEMORY_BASE))) else memory m x)\<rparr>)"
    unfolding store_bytes_memory [OF assms(4) order_refl] c1
    using d [of "unat (x - (data - MEMORY_BASE))" for x] by (simp add: fun_eq_iff cong: if_cong)
  also have "m1\<lparr>memory := f\<rparr> = m\<lparr>bc := bc m1, memory := f\<rparr>" for f by (subst m1(2)) simp
  finally show ?thesis using m1(3) by (intro that [of "bc m1"]) (simp_all add: cache_ok_def c1)
qed

section \<open>The descriptor chain\<close>

definition next_flag :: "machine \<Rightarrow> u16 \<Rightarrow> bool" where
  "next_flag m i \<longleftrightarrow> bit (desc_flags m i) 0"

definition desc_target :: "machine \<Rightarrow> u16 \<Rightarrow> u64" where
  "desc_target m i = le_load (memory m) (d_desc_addr (dev m) + ucast i * 16 - MEMORY_BASE) 8"

text \<open>Header, data buffer and status byte: the chain of three descriptors a driver builds.\<close>

definition block_chain :: "machine \<Rightarrow> u16 \<Rightarrow> u64 \<Rightarrow> u64 \<Rightarrow> u64 \<Rightarrow> bool" where
  "block_chain m i req data status \<longleftrightarrow>
     (let j = desc_next m i; k = desc_next m j in
      i \<noteq> j \<and> desc_in_ram m i \<and> desc_in_ram m j \<and> desc_in_ram m k \<and>
      next_flag m i \<and> next_flag m j \<and> \<not> next_flag m k \<and>
      desc_target m i = req \<and> desc_target m j = data \<and> desc_target m k = status)"

lemma chain_walk_step:
  assumes "desc_in_ram m i" "drop_bit 60 (csr (cpus m 0) CSR_SATP) AND 0xF = 0"
  shows "chain_walk h i ra da m =
    (let ra' = (if i = h then desc_target m i else ra);
         da' = (if i \<noteq> h \<and> next_flag m i then desc_target m i else da)
     in if next_flag m i then chain_walk h (desc_next m i) ra' da' m
        else Some (Inr (ra', da', phys_write (desc_target m i) 0 1 m)))"
proof -
  have f: "(ucast (desc_flags m i) :: u16) AND VRING_DESC_F_NEXT = 0 \<longleftrightarrow> \<not> next_flag m i"
    by (simp add: next_flag_def mask_bits bit_simps)
  show ?thesis
    by (subst chain_walk.simps)
      (simp add: desc_reads [OF assms(1)] get_pa_off [OF assms(2)] f desc_target_def desc_next_def Let_def)
qed

lemma chain_walk_three:
  assumes "block_chain m i req data status" "drop_bit 60 (csr (cpus m 0) CSR_SATP) AND 0xF = 0" "ram_addr status 1"
  shows "chain_walk i i 0 0 m = Some (Inr (req, data, poke (status - MEMORY_BASE) 0 m))"
proof -
  let ?j = "desc_next m i"
  have b: "i \<noteq> ?j" "desc_in_ram m i" "desc_in_ram m ?j" "desc_in_ram m (desc_next m ?j)" "next_flag m i"
    "next_flag m ?j" "\<not> next_flag m (desc_next m ?j)" "desc_target m i = req" "desc_target m ?j = data"
    "desc_target m (desc_next m ?j) = status"
    using assms(1) by (simp_all add: block_chain_def Let_def)
  have k: "desc_next m ?j \<noteq> i" using b(5,7) by metis
  have "phys_write status 0 1 m = poke (status - MEMORY_BASE) 0 m" using phys_write_ram [OF assms(3), of 0 m] by simp
  with b k show ?thesis
    by (simp add: chain_walk_step [OF b(2) assms(2)] chain_walk_step [OF b(3) assms(2)] chain_walk_step [OF b(4) assms(2)])
qed

section \<open>The used ring\<close>

definition used_idx :: "machine \<Rightarrow> u16" where
  "used_idx m = ucast (le_load (memory m) (d_used_ring (dev m) + 2 - MEMORY_BASE) 2)"

definition used_id :: "machine \<Rightarrow> u16 \<Rightarrow> u16" where
  "used_id m r = ucast (le_load (memory m) (d_used_ring (dev m) + of_nat (4 + 8 * unat r) - MEMORY_BASE) 2)"

definition used_len :: "machine \<Rightarrow> u16 \<Rightarrow> u32" where
  "used_len m r = ucast (le_load (memory m) (d_used_ring (dev m) + of_nat (8 + 8 * unat r) - MEMORY_BASE) 4)"

text \<open>The offsets in the used ring that a completion writes: the index, and of the entry half of the id and the length.\<close>

definition used_offsets :: "machine \<Rightarrow> nat set" where
  "used_offsets m = (let s = 4 + 8 * unat (used_idx m mod d_queue_num (dev m)) in {2, 3} \<union> {s, s + 1} \<union> {s + 4..<s + 8})"

definition used_size :: "machine \<Rightarrow> nat" where
  "used_size m = 4 + 8 * unat (d_queue_num (dev m))"

definition used_written :: "u16 \<Rightarrow> machine \<Rightarrow> machine" where
  "used_written i m =
     (let u = d_used_ring (dev m); s = 4 + 8 * unat (used_idx m mod d_queue_num (dev m)) in
      le_store poke (u + of_nat 2 - MEMORY_BASE) (ucast (used_idx m + 1)) 2
       (le_store poke (u + of_nat (s + 4) - MEMORY_BASE) 512 4
         (le_store poke (u + of_nat s - MEMORY_BASE) (ucast i) 2 m)))"

lemma push_used_eq:
  assumes "ram_addr (d_used_ring (dev m)) (used_size m)" "d_queue_num (dev m) \<noteq> 0"
  shows "push_used i m = Inr (used_written i m)"
proof -
  let ?u = "d_used_ring (dev m)"
  define s where "s = 4 + 8 * unat (used_idx m mod d_queue_num (dev m))"
  have "unat (used_idx m mod d_queue_num (dev m)) < unat (d_queue_num (dev m))"
    using assms(2) by (simp add: unat_mod unat_gt_0)
  then have "s + 8 \<le> used_size m" by (simp add: used_size_def s_def)
  then have r: "ram_addr (?u + of_nat 2) 2" "ram_addr (?u + of_nat s) 2" "ram_addr (?u + of_nat (s + 4)) 4"
    by (intro ram_addr_part [OF assms(1)]; simp add: s_def)+
  have o: "?u + (4 + ucast (used_idx m mod d_queue_num (dev m)) * 8) = ?u + of_nat s"
    by (simp add: s_def unsigned_ucast_eq)
  have o2: "?u + 2 = ?u + of_nat 2" and o4: "?u + of_nat s + 4 = ?u + of_nat (s + 4)" by simp_all
  have n: "phys_read (?u + of_nat 2) 2 m = (le_load (memory m) (?u + of_nat 2 - MEMORY_BASE) 2, m)"
    "phys_write (?u + of_nat s) v 2 t = le_store poke (?u + of_nat s - MEMORY_BASE) v 2 t"
    "phys_write (?u + of_nat (s + 4)) v 4 t = le_store poke (?u + of_nat (s + 4) - MEMORY_BASE) v 4 t"
    "phys_write (?u + of_nat 2) v 2 t = le_store poke (?u + of_nat 2 - MEMORY_BASE) v 2 t" for v t
    by (rule phys_read_ram phys_write_ram; use r in simp)+
  have idx: "ucast (le_load (memory m) (?u + of_nat 2 - MEMORY_BASE) 2) = used_idx m"
    by (simp add: used_idx_def)
  show ?thesis
    unfolding push_used_def Let_def
    by (simp only: split_beta fst_conv snd_conv o2 n idx o4 o used_written_def Let_def s_def [symmetric] assms(2) if_False)
qed

lemma take_bit_half: "(ucast (take_bit 16 x :: u64) :: u16) = ucast x"
  by (rule bit_word_eqI) (simp add: bit_simps)

lemma poke_memory: "t = m\<lparr>memory := f\<rparr> \<Longrightarrow> poke a v t = m\<lparr>memory := memory (poke a v t)\<rparr>"
  by (simp add: poke_def)

lemma used_written_facts:
  assumes "ram_addr (d_used_ring (dev m)) (used_size m)" "d_queue_num (dev m) \<noteq> 0"
  shows "used_idx (used_written i m) = used_idx m + 1" "used_id (used_written i m) (used_idx m mod d_queue_num (dev m)) = i"
    "ram_addr b k \<Longrightarrow> apart (d_used_ring (dev m)) (used_size m) b k \<Longrightarrow> q < k \<Longrightarrow>
       memory (used_written i m) (b - MEMORY_BASE + of_nat q) = memory m (b - MEMORY_BASE + of_nat q)"
    "used_written i m = m\<lparr>memory := memory (used_written i m)\<rparr>"
    "used_len (used_written i m) (used_idx m mod d_queue_num (dev m)) = 512"
    "p < used_size m \<Longrightarrow> p \<notin> used_offsets m \<Longrightarrow>
       memory (used_written i m) (d_used_ring (dev m) - MEMORY_BASE + of_nat p) = memory m (d_used_ring (dev m) - MEMORY_BASE + of_nat p)"
proof -
  let ?u = "d_used_ring (dev m)"
  let ?s = "4 + 8 * unat (used_idx m mod d_queue_num (dev m))"
  let ?m1 = "le_store poke (?u + of_nat ?s - MEMORY_BASE) (ucast i) 2 m"
  let ?m2 = "le_store poke (?u + of_nat (?s + 4) - MEMORY_BASE) 512 4 ?m1"
  have w: "used_written i m = le_store poke (?u + of_nat 2 - MEMORY_BASE) (ucast (used_idx m + 1)) 2 ?m2"
    by (simp only: used_written_def Let_def)
  have "unat (used_idx m mod d_queue_num (dev m)) < unat (d_queue_num (dev m))"
    using assms(2) by (simp add: unat_mod unat_gt_0)
  then have s: "?s + 8 \<le> used_size m" by (simp add: used_size_def)
  have d: "dev (used_written i m) = dev m" unfolding w by (simp only: frame)
  have "le_load (memory (used_written i m)) (?u + of_nat 2 - MEMORY_BASE) 2 = take_bit (8 * 2) (ucast (used_idx m + 1))"
    unfolding w by (rule host_mem.load_after_store) simp
  then show "used_idx (used_written i m) = used_idx m + 1"
    unfolding used_idx_def [of "used_written i m"] d by (simp add: half_of take_bit_half)
  have b: "?u + of_nat p - MEMORY_BASE + of_nat x \<noteq> ?u + of_nat q - MEMORY_BASE + of_nat y"
    if "p + x < used_size m" "q + y < used_size m" "p + x \<noteq> q + y" for p q x y
    using region_bytes [OF assms(1) that] by (simp add: algebra_simps)
  show "used_id (used_written i m) (used_idx m mod d_queue_num (dev m)) = i"
  proof -
    let ?a = "?u + of_nat ?s - MEMORY_BASE"
    have "le_load (memory (used_written i m)) ?a 2 = le_load (memory ?m2) ?a 2"
      unfolding w by (rule host_mem.load_after_disjoint_store) (rule b; use s in simp)
    also have "\<dots> = le_load (memory ?m1) ?a 2"
      by (rule host_mem.load_after_disjoint_store) (rule b; use s in simp)
    also have "\<dots> = take_bit (8 * 2) (ucast i)" by (rule host_mem.load_after_store) simp
    finally show ?thesis unfolding used_id_def d by (simp add: half_of take_bit_half)
  qed
  show "used_len (used_written i m) (used_idx m mod d_queue_num (dev m)) = 512"
  proof -
    let ?a = "?u + of_nat (?s + 4) - MEMORY_BASE"
    have "le_load (memory (used_written i m)) ?a 4 = le_load (memory ?m2) ?a 4"
      unfolding w by (rule host_mem.load_after_disjoint_store) (rule b; use s in simp)
    also have "\<dots> = take_bit (8 * 4) 512" by (rule host_mem.load_after_store) simp
    finally show ?thesis unfolding used_len_def d by (simp add: take_bit_eq_mod)
  qed
  show "memory (used_written i m) (?u - MEMORY_BASE + of_nat p) = memory m (?u - MEMORY_BASE + of_nat p)"
    if "p < used_size m" "p \<notin> used_offsets m"
  proof -
    have o: "?u - MEMORY_BASE + of_nat p \<noteq> ?u + of_nat q - MEMORY_BASE + of_nat y" if "q + y < used_size m" "q + y \<noteq> p" for q y
      using b [of p 0 q y] that \<open>p < used_size m\<close> by (simp add: algebra_simps)
    have n: "2 + x \<noteq> p" if "x < 2" for x using \<open>p \<notin> used_offsets m\<close> that by (auto simp: used_offsets_def Let_def)
    have n1: "?s + x \<noteq> p" if "x < 2" for x
      using \<open>p \<notin> used_offsets m\<close> that by (auto simp: used_offsets_def Let_def less_2_cases_iff)
    have n2: "?s + 4 + x \<noteq> p" if "x < 4" for x using \<open>p \<notin> used_offsets m\<close> that by (auto simp: used_offsets_def Let_def)
    have "memory (used_written i m) (?u - MEMORY_BASE + of_nat p) = memory ?m2 (?u - MEMORY_BASE + of_nat p)"
      unfolding w by (rule host_mem.get_le_store_outside, rule o) (use s n in simp_all)
    also have "\<dots> = memory ?m1 (?u - MEMORY_BASE + of_nat p)"
      by (rule host_mem.get_le_store_outside, rule o) (use s n2 in simp_all)
    also have "\<dots> = memory m (?u - MEMORY_BASE + of_nat p)"
      by (rule host_mem.get_le_store_outside, rule o) (use s n1 in simp_all)
    finally show ?thesis .
  qed
  show "memory (used_written i m) (b - MEMORY_BASE + of_nat q) = memory m (b - MEMORY_BASE + of_nat q)"
    if "ram_addr b k" "apart ?u (used_size m) b k" "q < k"
  proof -
    note a = store_apart [OF assms(1) that(1,2) _ that(3)]
    have "2 + 2 \<le> used_size m" "?s + 4 + 4 \<le> used_size m" "?s + 2 \<le> used_size m" using s by simp_all
    from a [OF this(1)] a [OF this(2)] a [OF this(3)] show ?thesis unfolding w by metis
  qed
  have e: "le_store poke a v n t = t\<lparr>memory := memory (le_store poke a v n t)\<rparr>" for a v n and t :: machine
    by (induction n) (simp, metis (no_types) poke_memory le_store.simps(2))
  show "used_written i m = m\<lparr>memory := memory (used_written i m)\<rparr>"
    unfolding w by (subst e, subst e, subst e) simp
qed

section \<open>Completion\<close>

lemma outside_buffer:
  assumes "ram_addr data 1024" "ram_addr b k" "apart data 1024 b k" "q < k"
  shows "\<not> unat (b - MEMORY_BASE + of_nat q - (data - MEMORY_BASE)) < 1024"
proof
  let ?p = "unat (b - MEMORY_BASE + of_nat q - (data - MEMORY_BASE))"
  assume "?p < 1024"
  from apart_bytes [OF assms(1-3) this assms(4)] show False by simp
qed

text \<open>The parts of a read request lie in guest memory and do not overlap where it matters.\<close>

definition request_layout :: "machine \<Rightarrow> u64 \<Rightarrow> u64 \<Rightarrow> u64 \<Rightarrow> bool" where
  "request_layout m req data status \<longleftrightarrow>
     ram_addr req 16 \<and> ram_addr data 1024 \<and> ram_addr status 1 \<and> ram_addr (d_used_ring (dev m)) (used_size m) \<and>
     d_queue_num (dev m) \<noteq> 0 \<and> apart status 1 req 16 \<and> apart data 1024 status 1 \<and>
     apart data 1024 (d_used_ring (dev m)) (used_size m) \<and> apart status 1 (d_used_ring (dev m)) (used_size m)"

text \<open>
  What a completed read leaves in the machine. The entry of the used ring is what the code writes: its id is
  two bytes wide, and its length says 512.
\<close>

definition read_done :: "machine \<Rightarrow> u16 \<Rightarrow> u64 \<Rightarrow> u64 \<Rightarrow> u64 \<Rightarrow> machine \<Rightarrow> bool" where
  "read_done m i req data status m' \<longleftrightarrow>
     (\<forall>k < 1024. memory m' (data - MEMORY_BASE + of_nat k) = d_disk_data (dev m) (req_sector m req * 512 + of_nat k)) \<and>
     memory m' (status - MEMORY_BASE) = 0 \<and>
     used_idx m' = used_idx m + 1 \<and> used_id m' (used_idx m mod d_queue_num (dev m)) = i \<and>
     used_len m' (used_idx m mod d_queue_num (dev m)) = 512 \<and>
     (\<forall>p < used_size m. p \<notin> used_offsets m \<longrightarrow>
        memory m' (d_used_ring (dev m) - MEMORY_BASE + of_nat p) = memory m (d_used_ring (dev m) - MEMORY_BASE + of_nat p)) \<and>
     (\<forall>b. ram_addr b 1 \<and> apart data 1024 b 1 \<and> apart status 1 b 1 \<and> apart (d_used_ring (dev m)) (used_size m) b 1 \<longrightarrow>
        memory m' (b - MEMORY_BASE) = memory m (b - MEMORY_BASE)) \<and>
     dev m' = (dev m)\<lparr>d_interrupt_status := 1\<rparr> \<and> cache_ok m'"

lemma read_done_cong:
  assumes "memory m' = memory n" "dev m' = dev n" "bc m' = bc n" "read_done m i req data status n"
  shows "read_done m i req data status m'"
proof -
  have "used_idx m' = used_idx n" "used_id m' = used_id n" "used_len m' = used_len n" "cache_ok m' = cache_ok n"
    by (rule ext | simp add: used_idx_def used_id_def used_len_def cache_ok_def assms(1-3))+
  with assms(1,2,4) show ?thesis unfolding read_done_def by auto
qed

lemma apart_sym: "apart a n b k \<longleftrightarrow> apart b k a n"
  by (auto simp: apart_def)

text \<open>A completion, given what the transfer does after the status byte is written.\<close>

lemma complete_io:
  assumes "untranslated m" "block_chain m (op_head op) req data status" "ram_addr status 1"
    "disk_io req data (poke (status - MEMORY_BASE) 0 m) = Inr m2"
    "ram_addr (d_used_ring (dev m2)) (used_size m2)" "d_queue_num (dev m2) \<noteq> 0"
  shows "complete_disk_operation op m = Inr (plic_set_irq VIRTIO_IRQ 1
    (upd_dev (\<lambda>d. d\<lparr>d_interrupt_status := 1\<rparr>) (used_written (op_head op) m2)))"
proof -
  have satp: "drop_bit 60 (csr (cpus m 0) CSR_SATP) AND 0xF = 0" using assms(1) by (simp add: untranslated_def)
  show ?thesis
    by (simp add: complete_disk_operation_def chain_walk_three [OF assms(2) satp assms(3)] assms(4)
        push_used_eq [OF assms(5,6)])
qed

text \<open>The status byte is not part of the header, nor of anything else apart from it.\<close>

lemma status_written:
  assumes "ram_addr status 1" "ram_addr b k" "apart status 1 b k" "q < k"
  shows "memory (poke (status - MEMORY_BASE) 0 m) (b - MEMORY_BASE + of_nat q) = memory m (b - MEMORY_BASE + of_nat q)"
  using apart_bytes [OF assms(1-3), of 0 q] assms(4) by (simp add: poke_def)

lemma status_request:
  assumes "ram_addr status 1" "ram_addr req 16" "apart status 1 req 16"
  shows "req_type (poke (status - MEMORY_BASE) 0 m) req = req_type m req"
    "req_sector (poke (status - MEMORY_BASE) 0 m) req = req_sector m req"
proof -
  let ?m1 = "poke (status - MEMORY_BASE) 0 m"
  have "le_load (memory ?m1) (req - MEMORY_BASE) 4 = le_load (memory m) (req - MEMORY_BASE) 4"
    by (rule le_load_cong) (use status_written [OF assms] in simp)
  moreover have "le_load (memory ?m1) (req + 8 - MEMORY_BASE) 8 = le_load (memory m) (req + 8 - MEMORY_BASE) 8"
  proof (rule le_load_cong)
    fix j :: nat assume "j < 8"
    with status_written [OF assms, of "8 + j"]
    show "memory ?m1 (req + 8 - MEMORY_BASE + of_nat j) = memory m (req + 8 - MEMORY_BASE + of_nat j)"
      by (simp add: algebra_simps)
  qed
  ultimately show "req_type ?m1 req = req_type m req" "req_sector ?m1 req = req_sector m req"
    by (simp_all add: req_type_def req_sector_def)
qed

lemma complete_read:
  assumes "untranslated m" "block_chain m i req data status" "request_layout m req data status"
    "req_type m req = 0" "even (req_sector m req)" "block_in_image (req_sector m req div 2) m" "cache_ok m"
    "op_head op = i"
  shows "\<exists>n. complete_disk_operation op m = Inr (plic_set_irq VIRTIO_IRQ 1 n) \<and> read_done m i req data status n \<and>
    cpus n = cpus m \<and> pending_ops n = pending_ops m \<and> g_plic n = g_plic m \<and> host n = host m"
proof -
  let ?u = "d_used_ring (dev m)" and ?z = "used_size m"
  have l: "ram_addr req 16" "ram_addr data 1024" "ram_addr status 1" "ram_addr ?u ?z" "d_queue_num (dev m) \<noteq> 0"
    "apart status 1 req 16" "apart data 1024 status 1" "apart data 1024 ?u ?z" "apart status 1 ?u ?z"
    using assms(3) by (simp_all add: request_layout_def)
  let ?m1 = "poke (status - MEMORY_BASE) 0 m"
  note mem1 = status_written [OF l(3)] and rq = status_request [OF l(3,1,6)]
  have c1: "cpu_bus (cpus ?m1 0) = emu_bus" "cache_ok ?m1" "block_in_image (req_sector ?m1 req div 2) ?m1"
    using assms(1,6,7) by (simp_all add: untranslated_def cache_ok_def block_in_image_def rq)
  define f where "f = (\<lambda>x. if unat (x - (data - MEMORY_BASE)) < 1024
    then d_disk_data (dev m) (req_sector m req * 512 + (x - (data - MEMORY_BASE))) else memory ?m1 x)"
  have t: "req_type ?m1 req = 0" "even (req_sector ?m1 req)" unfolding rq by (rule assms)+
  have dv: "dev ?m1 = dev m" by simp
  obtain c where io: "disk_io req data ?m1 = Inr (?m1\<lparr>bc := c, memory := f\<rparr>)" and c: "cache_ok (?m1\<lparr>bc := c\<rparr>)"
    by (rule disk_in_exact [OF c1(1,2) l(1,2) t c1(3)]) (unfold rq dv, unfold f_def, blast)
  let ?m2 = "?m1\<lparr>bc := c, memory := f\<rparr>"
  have f2: "f (b - MEMORY_BASE + of_nat q) = memory m (b - MEMORY_BASE + of_nat q)"
    if "ram_addr b k" "apart data 1024 b k" "apart status 1 b k" "q < k" for b k q
    unfolding f_def using outside_buffer [OF l(2) that(1,2,4)] mem1 [OF that(1,3,4)] by (simp only: if_False)
  have z: "used_size ?m2 = ?z" "d_used_ring (dev ?m2) = ?u" "d_queue_num (dev ?m2) = d_queue_num (dev m)"
    by (simp_all add: used_size_def)
  have "le_load f (?u + 2 - MEMORY_BASE) 2 = le_load (memory m) (?u + 2 - MEMORY_BASE) 2"
  proof (rule le_load_cong)
    fix j :: nat assume "j < 2"
    then have "2 + j < ?z" using l(5) by (simp add: used_size_def unat_gt_0 flip: word_neq_0_conv)
    from f2 [OF l(4,8,9) this]
    show "f (?u + 2 - MEMORY_BASE + of_nat j) = memory m (?u + 2 - MEMORY_BASE + of_nat j)"
      by (simp add: algebra_simps)
  qed
  then have ui: "used_idx ?m2 = used_idx m" by (simp add: used_idx_def)
  then have uo: "used_offsets ?m2 = used_offsets m" by (simp add: used_offsets_def)
  let ?m3 = "used_written i ?m2"
  note w = used_written_facts [of ?m2, unfolded z ui uo, OF l(4,5)]
  let ?n = "upd_dev (\<lambda>d. d\<lparr>d_interrupt_status := 1\<rparr>) ?m3"
  have e: "complete_disk_operation op m = Inr (plic_set_irq VIRTIO_IRQ 1 ?n)"
    using complete_io [OF assms(1) assms(2) [folded assms(8)] l(3) io, unfolded z, OF l(4,5)] by (simp add: assms(8))
  have fr: "cpus ?m3 = cpus m" "dev ?m3 = dev m" "bc ?m3 = c" "pending_ops ?m3 = pending_ops m"
    "g_plic ?m3 = g_plic m" "host ?m3 = host m" by (subst w(4), simp)+
  have "memory ?n (data - MEMORY_BASE + of_nat k) = d_disk_data (dev m) (req_sector m req * 512 + of_nat k)"
    if "k < 1024" for k
    using w(3) [OF l(2) _ that, of i] l(8) that by (simp add: apart_sym f_def unat_small)
  moreover have "memory ?n (status - MEMORY_BASE) = 0"
  proof -
    have "memory ?n (status - MEMORY_BASE) = f (status - MEMORY_BASE)"
      using w(3) [OF l(3), of 0 i] l(9) by (simp add: apart_sym)
    also have "\<dots> = 0"
      using outside_buffer [OF l(2,3,7), of 0] by (simp add: f_def poke_def)
    finally show ?thesis .
  qed
  moreover have "used_idx ?n = used_idx m + 1" "used_id ?n (used_idx m mod d_queue_num (dev m)) = i"
    "used_len ?n (used_idx m mod d_queue_num (dev m)) = 512"
    using w(1,2,5) by (simp_all add: used_idx_def used_id_def used_len_def)
  moreover have "memory ?n (?u - MEMORY_BASE + of_nat p) = memory m (?u - MEMORY_BASE + of_nat p)"
    if "p < ?z" "p \<notin> used_offsets m" for p
    using w(6) [OF that, of i] f2 [OF l(4,8,9) that(1)] by simp
  moreover have "memory ?n (b - MEMORY_BASE) = memory m (b - MEMORY_BASE)"
    if "ram_addr b 1" "apart data 1024 b 1" "apart status 1 b 1" "apart ?u ?z b 1" for b
    using w(3) [OF that(1), of 0 i] that(4) f2 [OF that(1-3), of 0] by simp
  moreover have "cache_ok ?n" using c by (simp add: cache_ok_def fr)
  ultimately have "read_done m i req data status ?n" unfolding read_done_def by (simp add: fr)
  with e fr show ?thesis by auto
qed

text \<open>What a completed write leaves in the machine.\<close>

definition write_done :: "machine \<Rightarrow> u16 \<Rightarrow> u64 \<Rightarrow> u64 \<Rightarrow> u64 \<Rightarrow> machine \<Rightarrow> bool" where
  "write_done m i req data status m' \<longleftrightarrow>
     (\<forall>k < 1024. d_disk_data (dev m') (req_sector m req * 512 + of_nat k) = memory m (data - MEMORY_BASE + of_nat k)) \<and>
     (\<forall>a. 1024 \<le> unat (a - req_sector m req * 512) \<longrightarrow> d_disk_data (dev m') a = d_disk_data (dev m) a) \<and>
     memory m' (status - MEMORY_BASE) = 0 \<and>
     used_idx m' = used_idx m + 1 \<and> used_id m' (used_idx m mod d_queue_num (dev m)) = i \<and>
     used_len m' (used_idx m mod d_queue_num (dev m)) = 512 \<and>
     (\<forall>p < used_size m. p \<notin> used_offsets m \<longrightarrow>
        memory m' (d_used_ring (dev m) - MEMORY_BASE + of_nat p) = memory m (d_used_ring (dev m) - MEMORY_BASE + of_nat p)) \<and>
     (\<forall>b. ram_addr b 1 \<and> apart status 1 b 1 \<and> apart (d_used_ring (dev m)) (used_size m) b 1 \<longrightarrow>
        memory m' (b - MEMORY_BASE) = memory m (b - MEMORY_BASE)) \<and>
     (\<exists>f. dev m' = (dev m)\<lparr>d_disk_data := f, d_interrupt_status := 1\<rparr>) \<and> cache_ok m'"

lemma write_done_cong:
  assumes "memory m' = memory n" "dev m' = dev n" "bc m' = bc n" "write_done m i req data status n"
  shows "write_done m i req data status m'"
proof -
  have "used_idx m' = used_idx n" "used_id m' = used_id n" "used_len m' = used_len n" "cache_ok m' = cache_ok n"
    by (rule ext | simp add: used_idx_def used_id_def used_len_def cache_ok_def assms(1-3))+
  with assms(1,2,4) show ?thesis unfolding write_done_def by auto
qed

lemma complete_write:
  assumes "untranslated m" "block_chain m i req data status" "request_layout m req data status"
    "req_type m req = 1" "even (req_sector m req)" "block_in_image (req_sector m req div 2) m" "cache_ok m"
    "op_head op = i"
  shows "\<exists>n. complete_disk_operation op m = Inr (plic_set_irq VIRTIO_IRQ 1 n) \<and> write_done m i req data status n \<and>
    cpus n = cpus m \<and> pending_ops n = pending_ops m \<and> g_plic n = g_plic m \<and> host n = host m"
proof -
  let ?u = "d_used_ring (dev m)" and ?z = "used_size m"
  have l: "ram_addr req 16" "ram_addr data 1024" "ram_addr status 1" "ram_addr ?u ?z" "d_queue_num (dev m) \<noteq> 0"
    "apart status 1 req 16" "apart status 1 data 1024" "apart status 1 ?u ?z"
    using assms(3) by (simp_all add: request_layout_def apart_sym)
  let ?m1 = "poke (status - MEMORY_BASE) 0 m"
  note mem1 = status_written [OF l(3)] and rq = status_request [OF l(3,1,6)]
  have c1: "cpu_bus (cpus ?m1 0) = emu_bus" "cache_ok ?m1" "block_in_image (req_sector ?m1 req div 2) ?m1"
    "req_type ?m1 req = 1" "even (req_sector ?m1 req)"
    using assms(1,4-7) by (simp_all add: untranslated_def cache_ok_def block_in_image_def rq)
  have dv: "dev ?m1 = dev m" by simp
  obtain c f where io: "disk_io req data ?m1 = Inr (?m1\<lparr>bc := c, dev := (dev m)\<lparr>d_disk_data := f\<rparr>\<rparr>)"
    and c: "cache_ok (?m1\<lparr>bc := c, dev := (dev m)\<lparr>d_disk_data := f\<rparr>\<rparr>)"
    and f: "\<And>k. k < 1024 \<Longrightarrow> f (req_sector m req * 512 + of_nat k) = memory ?m1 (data + of_nat k - MEMORY_BASE)"
      "\<And>a. 1024 \<le> unat (a - req_sector m req * 512) \<Longrightarrow> f a = d_disk_data (dev m) a"
    by (rule disk_out_exact [OF c1(1,2) l(1,2) c1(4,5,3), unfolded rq dv]) (rule that; assumption)
  let ?m2 = "?m1\<lparr>bc := c, dev := (dev m)\<lparr>d_disk_data := f\<rparr>\<rparr>"
  have "le_load (memory ?m1) (?u + 2 - MEMORY_BASE) 2 = le_load (memory m) (?u + 2 - MEMORY_BASE) 2"
  proof (rule le_load_cong)
    fix j :: nat assume "j < 2"
    then have "2 + j < ?z" using l(5) by (simp add: used_size_def unat_gt_0 flip: word_neq_0_conv)
    from mem1 [OF l(4,8) this]
    show "memory ?m1 (?u + 2 - MEMORY_BASE + of_nat j) = memory m (?u + 2 - MEMORY_BASE + of_nat j)"
      by (simp add: algebra_simps)
  qed
  then have z: "used_size ?m2 = ?z" "d_used_ring (dev ?m2) = ?u" "d_queue_num (dev ?m2) = d_queue_num (dev m)"
    "used_idx ?m2 = used_idx m" "used_offsets ?m2 = used_offsets m" by (simp_all add: used_size_def used_idx_def used_offsets_def)
  let ?m3 = "used_written i ?m2"
  note w = used_written_facts [of ?m2, unfolded z, OF l(4,5)]
  let ?n = "upd_dev (\<lambda>d. d\<lparr>d_interrupt_status := 1\<rparr>) ?m3"
  have e: "complete_disk_operation op m = Inr (plic_set_irq VIRTIO_IRQ 1 ?n)"
    using complete_io [OF assms(1) assms(2) [folded assms(8)] l(3) io, unfolded z, OF l(4,5)] by (simp add: assms(8))
  have fr: "cpus ?m3 = cpus m" "dev ?m3 = (dev m)\<lparr>d_disk_data := f\<rparr>" "bc ?m3 = c" "pending_ops ?m3 = pending_ops m"
    "g_plic ?m3 = g_plic m" "host ?m3 = host m" by (subst w(4), simp)+
  have "f (req_sector m req * 512 + of_nat k) = memory m (data - MEMORY_BASE + of_nat k)" if "k < 1024" for k
    using f(1) [OF that] mem1 [OF l(2,7) that] by (simp add: algebra_simps)
  moreover have "memory ?n (status - MEMORY_BASE) = 0"
    using w(3) [OF l(3), of 0 i] l(8) by (simp add: apart_sym poke_def)
  moreover have "used_idx ?n = used_idx m + 1" "used_id ?n (used_idx m mod d_queue_num (dev m)) = i"
    "used_len ?n (used_idx m mod d_queue_num (dev m)) = 512"
    using w(1,2,5) by (simp_all add: used_idx_def used_id_def used_len_def)
  moreover have "memory ?n (?u - MEMORY_BASE + of_nat p) = memory m (?u - MEMORY_BASE + of_nat p)"
    if "p < ?z" "p \<notin> used_offsets m" for p
    using w(6) [OF that, of i] mem1 [OF l(4,8) that(1)] by simp
  moreover have "memory ?n (b - MEMORY_BASE) = memory m (b - MEMORY_BASE)"
    if "ram_addr b 1" "apart status 1 b 1" "apart ?u ?z b 1" for b
    using w(3) [OF that(1,3), of 0 i] mem1 [OF that(1,2), of 0] by simp
  moreover have "cache_ok ?n" using c by (simp add: cache_ok_def fr)
  ultimately have "write_done m i req data status ?n" unfolding write_done_def using f(2) by (auto simp: fr)
  with e fr show ?thesis by auto
qed

section \<open>One pass of the disk\<close>

lemma pass_interrupts:
  assumes "complete_disk_operation op m = Inr (plic_set_irq VIRTIO_IRQ 1 n)" "cpus n = cpus m" "pending_ops n = pending_ops m"
    "g_plic n = g_plic m" "pending_ops m = [op]" "\<not> cycle_count (cpus m 0) < op_completion op"
    "source_on VIRTIO_IRQ m" "takes_external (cpus m 0)"
  obtains m' where "virtio_disk_update 0 m = Inr m'" "memory m' = memory n" "dev m' = dev n" "bc m' = bc n"
    "pending_ops m' = []" "deliverable (g_plic m') 0 1" "\<not> halted (cpus m' 0)" "gpr (cpus m' 0) = gpr (cpus m 0)"
    "pc (cpus m' 0) = pc (cpus m 0)" "check_and_handle_interrupts (host m') (cpus m' 0) = take_smode_trap 9 True (cpus m' 0)"
proof -
  have src: "source_on VIRTIO_IRQ n" using assms(4,7) by (simp add: source_on_def)
  let ?p = "plic_set_irq VIRTIO_IRQ 1 n"
  note r = plic_raise [OF src]
  have rst: "rest ?p = rest n" "core (cpus ?p 0) = core (cpus n 0)" by (simp_all add: frame)
  let ?m' = "?p\<lparr>pending_ops := []\<rparr>"
  have u: "virtio_disk_update 0 m = Inr ?m'"
    using assms(1,3,5,6) restD(4) [OF rst(1)] by (simp add: virtio_disk_update_def list_remove_def not_less)
  have t: "takes_external (cpus ?m' 0)"
    using assms(2,8) coreD(4) [OF rst(2)] by (simp add: takes_external_def plic_raise_csr)
  have "check_and_handle_interrupts (host ?m') (cpus ?m' 0) = take_smode_trap 9 True (cpus ?m' 0)"
    by (rule external_taken [OF t]) (use r(1) in simp)
  with u r(2,3) assms(2) coreD(1,2) [OF rst(2)] restD [OF rst(1)] show ?thesis by (intro that [of ?m']) simp_all
qed

text \<open>
  C11. A disk read, from the pending request to the interrupt, for a single pending request at an even
  sector and a hart without translation. Nothing happens before the latency has
  passed. Then one pass of the disk over a request whose descriptor chain, buffer, status byte and
  used ring lie apart in guest memory succeeds: the buffer holds the 1024 bytes of the image, the
  status byte is 0, and the used ring has one more entry: its index has advanced, two of the four
  bytes of the id hold the head of the chain, and the length is 512 although 1024 bytes were moved. No
  other byte of the ring or of guest memory has changed, nor has the image, the request is no longer
  pending, source 1 can be claimed, and the hart, woken if it was halted, takes an external
  interrupt at the end of the turn.
\<close>

theorem disk_read_completes:
  assumes "untranslated m" and "pending_ops m = [op]"
    and "block_chain m (op_head op) req data status" and "request_layout m req data status"
    and "req_type m req = 0" and "even (req_sector m req)" and "block_in_image (req_sector m req div 2) m"
    and "cache_ok m" and "source_on VIRTIO_IRQ m" and "takes_external (cpus m 0)"
  shows "if cycle_count (cpus m 0) < op_completion op then virtio_disk_update 0 m = Inr m
    else \<exists>m'. virtio_disk_update 0 m = Inr m' \<and> read_done m (op_head op) req data status m' \<and>
      pending_ops m' = [] \<and> deliverable (g_plic m') 0 1 \<and> \<not> halted (cpus m' 0) \<and>
      gpr (cpus m' 0) = gpr (cpus m 0) \<and> pc (cpus m' 0) = pc (cpus m 0) \<and>
      check_and_handle_interrupts (host m') (cpus m' 0) = take_smode_trap 9 True (cpus m' 0)"
proof (cases "cycle_count (cpus m 0) < op_completion op")
  case True
  then show ?thesis using assms(2) by (auto simp: virtio_disk_update_def)
next
  case False
  from complete_read [OF assms(1,3-8) refl] obtain n where
    n: "complete_disk_operation op m = Inr (plic_set_irq VIRTIO_IRQ 1 n)" "read_done m (op_head op) req data status n"
      "cpus n = cpus m" "pending_ops n = pending_ops m" "g_plic n = g_plic m" by blast
  from pass_interrupts [OF n(1,3-5) assms(2) False assms(9,10)] obtain m' where
    m': "virtio_disk_update 0 m = Inr m'" "memory m' = memory n" "dev m' = dev n" "bc m' = bc n"
    "pending_ops m' = []" "deliverable (g_plic m') 0 1" "\<not> halted (cpus m' 0)" "gpr (cpus m' 0) = gpr (cpus m 0)"
    "pc (cpus m' 0) = pc (cpus m 0)" "check_and_handle_interrupts (host m') (cpus m' 0) = take_smode_trap 9 True (cpus m' 0)" .
  with False read_done_cong [OF m'(2-4) n(2)] show ?thesis by auto
qed

text \<open>A request of type \<open>ty\<close> for sector 2 of an image of 7s, with a buffer that starts with \<open>b\<close>: table at 0x80002000, used ring at 0x80004000.\<close>

definition request_machine :: "u8 \<Rightarrow> u8 \<Rightarrow> machine" where
  "request_machine ty b = (upd_cpu 0 (\<lambda>c. c\<lparr>cpu_bus := emu_bus, cycle_count := 1000, csr := (\<lambda>_. 0)(CSR_SIE := 0x200,
       CSR_MIDELEG := 0x200)\<rparr>) blank)
     \<lparr>dev := zero_dev\<lparr>d_disk_data := (\<lambda>_. 7), d_disk_len := 2048, d_queue_num := 8, d_desc_addr := 0x80002000,
        d_used_ring := 0x80004000\<rparr>,
      memory := (\<lambda>_. 0)(0x100 := ty, 0x1000 := b, 0x108 := 2, 0x2001 := 1, 0x2003 := 0x80, 0x200C := 1, 0x200E := 1,
        0x2011 := 0x10, 0x2013 := 0x80, 0x201C := 1, 0x201E := 2, 0x2021 := 0x30, 0x2023 := 0x80),
      g_plic := zero_plic\<lparr>priority := (\<lambda>_. 1), enable := (\<lambda>_ _. 2)\<rparr>,
      pending_ops := [\<lparr>op_head = 0, op_start = 0, op_completion = 1000, op_type = 0, op_sector = 2\<rparr>]\<rparr>"

lemma request_machine_simps:
  "dev (request_machine ty b) = zero_dev\<lparr>d_disk_data := (\<lambda>_. 7), d_disk_len := 2048, d_queue_num := 8,
     d_desc_addr := 0x80002000, d_used_ring := 0x80004000\<rparr>"
  "memory (request_machine ty b) = (\<lambda>_. 0)(0x100 := ty, 0x1000 := b, 0x108 := 2, 0x2001 := 1, 0x2003 := 0x80, 0x200C := 1, 0x200E := 1,
        0x2011 := 0x10, 0x2013 := 0x80, 0x201C := 1, 0x201E := 2, 0x2021 := 0x30, 0x2023 := 0x80)"
  "cycle_count (cpus (request_machine ty b) 0) = 1000"
  "pending_ops (request_machine ty b) = [\<lparr>op_head = 0, op_start = 0, op_completion = 1000, op_type = 0, op_sector = 2\<rparr>]"
  by (simp_all add: request_machine_def)

lemma request_machine_chain: "block_chain (request_machine ty b) 0 0x80000100 0x80001000 0x80003000"
proof -
  let ?m = "request_machine ty b"
  have n: "desc_next ?m 0 = 1" "desc_next ?m 1 = 2"
    by (simp_all add: desc_next_def request_machine_simps le_load_2)
  have f: "next_flag ?m 0" "next_flag ?m 1" "\<not> next_flag ?m 2"
    by (simp_all add: next_flag_def desc_flags_def request_machine_simps le_load_2)
  have t: "desc_target ?m 0 = 0x80000100" "desc_target ?m 1 = 0x80001000" "desc_target ?m 2 = 0x80003000"
    by (simp_all add: desc_target_def request_machine_simps le_load_8)
  show ?thesis
    by (simp add: block_chain_def Let_def n f t desc_in_ram_def ram_addr_def) (simp add: request_machine_simps)
qed

lemma request_machine_ready:
  "request_layout (request_machine ty b) 0x80000100 0x80001000 0x80003000" "req_type (request_machine ty b) 0x80000100 = ucast ty"
  "req_sector (request_machine ty b) 0x80000100 = 2" "block_in_image 1 (request_machine ty b)"
  "untranslated (request_machine ty b)" "source_on VIRTIO_IRQ (request_machine ty b)"
  "takes_external (cpus (request_machine ty b) 0)" "cache_ok (request_machine ty b)" "used_idx (request_machine ty b) = 0"
proof -
  let ?m = "request_machine ty b"
  show "request_layout ?m 0x80000100 0x80001000 0x80003000"
    by (simp add: request_layout_def used_size_def apart_def ram_addr_def request_machine_simps)
  show "req_sector ?m 0x80000100 = 2" by (simp add: req_sector_def request_machine_simps le_load_8)
  have "(ucast (ucast ty :: u64) :: u32) = ucast ty" by (rule bit_word_eqI) (simp add: bit_simps)
  then show "req_type ?m 0x80000100 = ucast ty" by (simp add: req_type_def request_machine_simps le_load_4)
  show "block_in_image 1 ?m" by (simp add: block_in_image_def request_machine_simps)
  show "untranslated ?m" "source_on VIRTIO_IRQ ?m" "takes_external (cpus ?m 0)" "cache_ok ?m"
    by (simp_all add: request_machine_def untranslated_def source_on_def plic_is_enabled_iff irq_bit_def zero_plic_def
        takes_external_def cache_ok_def blank_def zero_machine_def zero_cpu_def bit_simps)
  show "used_idx ?m = 0" by (simp add: used_idx_def request_machine_simps le_load_2)
qed

theorem disk_read_completes_witness:
  "\<exists>m'. virtio_disk_update 0 (request_machine 0 0) = Inr m' \<and> memory m' 0x1000 = 7 \<and> memory m' 0x13FF = 7 \<and> used_idx m' = 1"
proof -
  let ?m = "request_machine 0 0"
  note g = request_machine_ready [of 0 0]
  have e: "req_type ?m 0x80000100 = 0" "even (req_sector ?m 0x80000100)" "block_in_image (req_sector ?m 0x80000100 div 2) ?m"
    unfolding g(2,3) using g(4) by simp_all
  from disk_read_completes [OF g(5) request_machine_simps(4) _ g(1) e g(8,6,7)] request_machine_chain [of 0 0]
  obtain m' where m': "virtio_disk_update 0 ?m = Inr m'" "read_done ?m 0 0x80000100 0x80001000 0x80003000 m'"
    by (auto simp: request_machine_simps(3))
  from this(2) have d: "memory m' (0x80001000 - MEMORY_BASE + of_nat k) = 7" if "k < 1024" for k
    using that by (simp add: read_done_def request_machine_simps)
  from d [of 0] d [of 1023] have "memory m' 0x1000 = 7" "memory m' 0x13FF = 7" by simp_all
  with m' g(9) show ?thesis by (auto simp: read_done_def)
qed

text \<open>
  C12. A disk write, in the same way and under the same conditions (a single request, an even sector, no
  translation): the 1024 bytes of the buffer are in the image at the sector of the
  request and the rest of the image is unchanged; guest memory changes in the status byte
  and the same bytes of the used ring only; the block cache agrees with the new image.
\<close>

theorem disk_write_completes:
  assumes "untranslated m" and "pending_ops m = [op]"
    and "block_chain m (op_head op) req data status" and "request_layout m req data status"
    and "req_type m req = 1" and "even (req_sector m req)" and "block_in_image (req_sector m req div 2) m"
    and "cache_ok m" and "source_on VIRTIO_IRQ m" and "takes_external (cpus m 0)"
  shows "if cycle_count (cpus m 0) < op_completion op then virtio_disk_update 0 m = Inr m
    else \<exists>m'. virtio_disk_update 0 m = Inr m' \<and> write_done m (op_head op) req data status m' \<and>
      pending_ops m' = [] \<and> deliverable (g_plic m') 0 1 \<and> \<not> halted (cpus m' 0) \<and>
      gpr (cpus m' 0) = gpr (cpus m 0) \<and> pc (cpus m' 0) = pc (cpus m 0) \<and>
      check_and_handle_interrupts (host m') (cpus m' 0) = take_smode_trap 9 True (cpus m' 0)"
proof (cases "cycle_count (cpus m 0) < op_completion op")
  case True
  then show ?thesis using assms(2) by (auto simp: virtio_disk_update_def)
next
  case False
  from complete_write [OF assms(1,3-8) refl] obtain n where
    n: "complete_disk_operation op m = Inr (plic_set_irq VIRTIO_IRQ 1 n)" "write_done m (op_head op) req data status n"
      "cpus n = cpus m" "pending_ops n = pending_ops m" "g_plic n = g_plic m" by blast
  from pass_interrupts [OF n(1,3-5) assms(2) False assms(9,10)] obtain m' where
    m': "virtio_disk_update 0 m = Inr m'" "memory m' = memory n" "dev m' = dev n" "bc m' = bc n"
    "pending_ops m' = []" "deliverable (g_plic m') 0 1" "\<not> halted (cpus m' 0)" "gpr (cpus m' 0) = gpr (cpus m 0)"
    "pc (cpus m' 0) = pc (cpus m 0)" "check_and_handle_interrupts (host m') (cpus m' 0) = take_smode_trap 9 True (cpus m' 0)" .
  with False write_done_cong [OF m'(2-4) n(2)] show ?thesis by auto
qed

theorem disk_write_completes_witness:
  "\<exists>m'. virtio_disk_update 0 (request_machine 1 9) = Inr m' \<and> d_disk_data (dev m') 1024 = 9 \<and> d_disk_data (dev m') 0 = 7"
proof -
  let ?m = "request_machine 1 9"
  note g = request_machine_ready [of 1 9]
  have e: "req_type ?m 0x80000100 = 1" "even (req_sector ?m 0x80000100)" "block_in_image (req_sector ?m 0x80000100 div 2) ?m"
    unfolding g(2,3) using g(4) by simp_all
  from disk_write_completes [OF g(5) request_machine_simps(4) _ g(1) e g(8,6,7)] request_machine_chain [of 1 9]
  obtain m' where m': "virtio_disk_update 0 ?m = Inr m'" "write_done ?m 0 0x80000100 0x80001000 0x80003000 m'"
    by (auto simp: request_machine_simps(3))
  from m'(2) have w: "\<And>k. k < 1024 \<Longrightarrow> d_disk_data (dev m') (2 * 512 + of_nat k) = memory ?m (0x80001000 - MEMORY_BASE + of_nat k)"
    "\<And>a. 1024 \<le> unat (a - 2 * 512) \<Longrightarrow> d_disk_data (dev m') a = d_disk_data (dev ?m) a"
    unfolding write_done_def g(3) by blast+
  from w(1) [of 0] w(2) [of 0] m'(1) show ?thesis by (auto simp: request_machine_simps)
qed

end
