(* ===== verification/Uart_Host.thy ===== *)
theory Uart_Host
  imports Uart
begin

text \<open>
  The host side of the serial port (\<open>uart.c\<close>): terminal settings, the serial line, the loops of
  the two threads, creation and destruction. The settings of a terminal are those of \<open>termios.h\<close>,
  with the values of the Linux headers; what the C library does to them (\<open>cfmakeraw\<close>,
  \<open>cfsetispeed\<close>, \<open>cfsetospeed\<close>) is an argument. A thread is active, waits on the condition
  variable, or has ended; one action of a thread is one pass through its loop.
\<close>

section \<open>Terminals\<close>

record termios =
  c_oflag :: u32
  c_cflag :: u32
  c_lflag :: u32
  c_cc :: "nat \<Rightarrow> u8"
  c_other :: "u32 list"

abbreviation (input) OPOST :: u32 where "OPOST \<equiv> 0x1"
abbreviation (input) ISIG :: u32 where "ISIG \<equiv> 0x1"
abbreviation (input) ICANON :: u32 where "ICANON \<equiv> 0x2"
abbreviation (input) ECHO :: u32 where "ECHO \<equiv> 0x8"
abbreviation (input) ECHOE :: u32 where "ECHOE \<equiv> 0x10"
abbreviation (input) CSIZE :: u32 where "CSIZE \<equiv> 0x30"
abbreviation (input) CS8 :: u32 where "CS8 \<equiv> 0x30"
abbreviation (input) CSTOPB :: u32 where "CSTOPB \<equiv> 0x40"
abbreviation (input) CREAD :: u32 where "CREAD \<equiv> 0x80"
abbreviation (input) PARENB :: u32 where "PARENB \<equiv> 0x100"
abbreviation (input) CLOCAL :: u32 where "CLOCAL \<equiv> 0x800"
abbreviation (input) O_NONBLOCK :: u32 where "O_NONBLOCK \<equiv> 0x800"
abbreviation (input) VTIME :: nat where "VTIME \<equiv> 5"
abbreviation (input) VMIN :: nat where "VMIN \<equiv> 6"

section \<open>The device and its host\<close>

datatype thread = Active | Waiting | Ended

text \<open>
  The fields of the device that only its host side uses, the terminal at standard input with the
  status flags of that file, the descriptors passed to \<open>close\<close>, and whether the device was freed.
\<close>

record uart_host =
  mach :: machine
  u_running :: bool
  u_serial_fd :: int
  u_terminal_configured :: bool
  u_original_termios :: termios
  tty :: termios
  stdin_flags :: u32
  tx_thread :: thread
  rx_thread :: thread
  closes :: "int list"
  u_freed :: bool

definition close_fd :: "uart_host \<Rightarrow> uart_host" where
  "close_fd u = u\<lparr>closes := closes u @ [u_serial_fd u]\<rparr>"

text \<open>The end of \<open>uart_init\<close>: a terminal becomes raw, with output processing.\<close>

definition raw_termios :: "(termios \<Rightarrow> termios) \<Rightarrow> termios \<Rightarrow> termios" where
  "raw_termios cfmakeraw original =
     (let term = cfmakeraw original;
          term = term\<lparr>c_oflag := c_oflag term OR OPOST\<rparr>;
          term = term\<lparr>c_lflag := c_lflag term AND NOT ICANON\<rparr>
      in term\<lparr>c_cc := (c_cc term)(VMIN := 0, VTIME := 0)\<rparr>)"

definition uart_init_terminal :: "(termios \<Rightarrow> termios) \<Rightarrow> bool \<Rightarrow> uart_host \<Rightarrow> uart_host" where
  "uart_init_terminal cfmakeraw isatty u =
     (let u = u\<lparr>u_terminal_configured := False\<rparr>
      in if isatty then
           let u = u\<lparr>u_original_termios := tty u\<rparr>;
               u = u\<lparr>tty := raw_termios cfmakeraw (u_original_termios u)\<rparr>;
               u = u\<lparr>u_terminal_configured := True\<rparr>
           in u\<lparr>stdin_flags := O_NONBLOCK\<rparr>
         else u)"

definition uart_cleanup :: "uart_host \<Rightarrow> uart_host" where
  "uart_cleanup u = (if u_terminal_configured u then u\<lparr>tty := u_original_termios u\<rparr> else u)"

text \<open>
  \<open>serial_create\<close>: the settings it gives the line, and the two outcomes of \<open>open\<close>. The result
  is the settings that were applied; a failure frees the device.
\<close>

definition serial_termios :: "(termios \<Rightarrow> termios) \<Rightarrow> termios \<Rightarrow> termios" where
  "serial_termios set_speeds options =
     (let options = set_speeds options;
          options = options\<lparr>c_cflag := c_cflag options AND NOT PARENB\<rparr>;
          options = options\<lparr>c_cflag := c_cflag options AND NOT CSTOPB\<rparr>;
          options = options\<lparr>c_cflag := c_cflag options AND NOT CSIZE\<rparr>;
          options = options\<lparr>c_cflag := c_cflag options OR CS8\<rparr>;
          options = options\<lparr>c_cflag := c_cflag options OR (CLOCAL OR CREAD)\<rparr>;
          options = options\<lparr>c_lflag := c_lflag options AND NOT (ICANON OR ECHO OR ECHOE OR ISIG)\<rparr>;
          options = options\<lparr>c_oflag := c_oflag options AND NOT OPOST\<rparr>
      in options\<lparr>c_cc := (c_cc options)(VMIN := 0, VTIME := 0)\<rparr>)"

definition serial_create :: "(termios \<Rightarrow> termios) \<Rightarrow> int \<Rightarrow> termios \<Rightarrow> uart_host \<Rightarrow> termios option \<times> uart_host" where
  "serial_create set_speeds fd options u =
     (let u = u\<lparr>u_serial_fd := fd\<rparr>
      in if u_serial_fd u < 0 then (None, u\<lparr>u_freed := True\<rparr>)
         else (Some (serial_termios set_speeds options), u))"

section \<open>The threads\<close>

text \<open>The start of the receiver.\<close>

definition rx_start :: "uart_host \<Rightarrow> uart_host" where
  "rx_start u = u\<lparr>stdin_flags := stdin_flags u OR O_NONBLOCK\<rparr>"

text \<open>
  \<open>uart_create\<close> with its host side, for threads that can be created; \<open>uart_init\<close> clears the device.
\<close>

definition uart_spawn :: "(termios \<Rightarrow> termios) \<Rightarrow> bool \<Rightarrow> int \<Rightarrow> uart_host \<Rightarrow> uart_host" where
  "uart_spawn cfmakeraw isatty irq u =
     (let u = uart_init_terminal cfmakeraw isatty u;
          u = u\<lparr>mach := (mach u)\<lparr>g_uart := uart_create irq\<rparr>\<rparr>;
          u = u\<lparr>u_running := True\<rparr>;
          u = u\<lparr>u_serial_fd := -1\<rparr>
      in rx_start (u\<lparr>tx_thread := Active, rx_thread := Active\<rparr>))"

text \<open>
  One pass of the transmitter, from taking the lock: wait on an empty ring, or leave the loop when
  the device has stopped, or send a byte.
\<close>

definition tx_exit :: "uart_host \<Rightarrow> uart_host" where
  "tx_exit u =
     (let u = (if 0 \<le> u_serial_fd u then (close_fd u)\<lparr>u_serial_fd := -1\<rparr> else u)
      in u\<lparr>tx_thread := Ended\<rparr>)"

definition tx_round :: "uart_host \<Rightarrow> uart_host res" where
  "tx_round u =
     rbind (uart_lock (mach u)) (\<lambda>m.
       if u_running u \<and> tx_buf_is_empty (g_uart m) then
         Inr (u\<lparr>mach := uart_unlock m, tx_thread := Waiting\<rparr>)
       else if \<not> u_running u \<and> tx_buf_is_empty (g_uart m) then
         Inr (tx_exit (u\<lparr>mach := uart_unlock m\<rparr>))
       else
         (let (b, d) = tx_buf_pop (g_uart m);
              m = uart_unlock (m\<lparr>g_uart := d\<rparr>)
          in case b of
               None \<Rightarrow> Inr (u\<lparr>mach := m\<rparr>)
             | Some b \<Rightarrow> Inr (u\<lparr>mach := uart_update_irq (putchar b m)\<rparr>)))"

text \<open>One pass of the receiver with what \<open>read\<close> returned (nothing on errors).\<close>

definition rx_round :: "u8 list \<Rightarrow> uart_host \<Rightarrow> uart_host res" where
  "rx_round got u =
     (if u_running u then rbind (uart_rx_thread got (mach u)) (\<lambda>m. Inr (u\<lparr>mach := m\<rparr>))
      else Inr (u\<lparr>rx_thread := Ended\<rparr>))"

text \<open>\<open>uart_destroy\<close>, up to the point where it waits for the threads, and the rest.\<close>

definition uart_stop :: "uart_host \<Rightarrow> uart_host res" where
  "uart_stop u =
     rbind (uart_lock (mach u)) (\<lambda>m.
       let u = u\<lparr>mach := m\<rparr>;
           u = u\<lparr>u_running := False\<rparr>;
           u = (if 0 \<le> u_serial_fd u then close_fd u else u);
           u = uart_cleanup u;
           u = (if tx_thread u = Waiting then u\<lparr>tx_thread := Active\<rparr> else u)
       in Inr (u\<lparr>mach := uart_unlock (mach u)\<rparr>))"

definition joined :: "uart_host \<Rightarrow> bool" where
  "joined u \<longleftrightarrow> tx_thread u = Ended \<and> rx_thread u = Ended"

definition uart_free :: "uart_host \<Rightarrow> uart_host" where
  "uart_free u = u\<lparr>u_freed := True\<rparr>"

text \<open>
  The threads side by side. A waiting transmitter may wake at any time (\<open>pthread_cond_wait\<close> allows
  it); a pass of the receiver gets at most the 128 bytes of its buffer.
\<close>

inductive thread_step :: "uart_host \<Rightarrow> uart_host \<Rightarrow> bool" where
  sends: "tx_thread u = Active \<Longrightarrow> tx_round u = Inr u' \<Longrightarrow> thread_step u u'"
| wakes: "tx_thread u = Waiting \<Longrightarrow> thread_step u (u\<lparr>tx_thread := Active\<rparr>)"
| receives: "rx_thread u = Active \<Longrightarrow> length got \<le> 128 \<Longrightarrow> rx_round got u = Inr u' \<Longrightarrow> thread_step u u'"

inductive_cases thread_stepE: "thread_step u u'"

section \<open>Shutting down\<close>

text \<open>
  After \<open>uart_stop\<close>: everything still in the ring goes to the terminal, in order, and each pass
  of a thread brings both closer to their end.
\<close>

definition draining :: "u8 list \<Rightarrow> int list \<Rightarrow> termios \<Rightarrow> uart_host \<Rightarrow> bool" where
  "draining out fds t u \<longleftrightarrow> \<not> u_running u \<and> \<not> u_locked (g_uart (mach u)) \<and> tx_ok (g_uart (mach u)) \<and>
     tx_thread u \<noteq> Waiting \<and> rx_thread u \<noteq> Waiting \<and> tty u = t \<and>
     console (mach u) @ tx_queue (g_uart (mach u)) = out \<and>
     closes u @ (if tx_thread u \<noteq> Ended \<and> 0 \<le> u_serial_fd u then [u_serial_fd u] else []) = fds \<and>
     (tx_thread u = Ended \<longrightarrow> tx_queue (g_uart (mach u)) = [])"

definition work :: "uart_host \<Rightarrow> nat" where
  "work u = length (tx_queue (g_uart (mach u))) + (if tx_thread u = Ended then 0 else 1) +
     (if rx_thread u = Ended then 0 else 1)"

lemma tx_queue_empty: "tx_queue u = [] \<longleftrightarrow> u_tx_count u = 0"
  by (simp add: tx_queue_def tx.queue_empty)

lemma tx_queue_locked [simp]: "tx_queue (u\<lparr>u_locked := l\<rparr>) = tx_queue u" "tx_ok (u\<lparr>u_locked := l\<rparr>) = tx_ok u"
  by (simp_all add: tx_queue_def tx_ok_def)

text \<open>A pass over a stopped device sends the oldest byte of the ring, or ends the thread.\<close>

lemma tx_round_empty:
  assumes "\<not> u_running u" "\<not> u_locked (g_uart (mach u))" "tx_queue (g_uart (mach u)) = []"
  shows "tx_round u = Inr (tx_exit u)"
proof -
  have "u\<lparr>mach := mach u\<rparr> = u" by simp
  with assms show ?thesis
    by (simp add: tx_round_def uart_lock_def tx_buf_is_empty_def tx_queue_empty lock_unlock_id)
qed

lemma tx_round_send:
  assumes "\<not> u_locked (g_uart (mach u))" "tx_ok (g_uart (mach u))" "tx_queue (g_uart (mach u)) \<noteq> []"
  obtains m where "tx_round u = Inr (u\<lparr>mach := m\<rparr>)" "\<not> u_locked (g_uart m)" "tx_ok (g_uart m)"
    "tx_queue (g_uart m) = tl (tx_queue (g_uart (mach u)))"
    "console m = console (mach u) @ [hd (tx_queue (g_uart (mach u)))]"
proof -
  let ?d = "g_uart (mach u)"
  let ?d' = "(uart_update_lsr (tx_drop (?d\<lparr>u_locked := True\<rparr>)))\<lparr>u_locked := False\<rparr>"
  let ?m = "uart_update_irq (putchar (u_tx_buf ?d (u_tx_tail ?d)) ((mach u)\<lparr>g_uart := ?d'\<rparr>))"
  have n: "u_tx_count ?d \<noteq> 0" using assms(3) by (simp add: tx_queue_empty)
  then have r: "tx_round u = Inr (u\<lparr>mach := ?m\<rparr>)"
    using assms(1) by (simp add: tx_round_def uart_lock_def tx_buf_is_empty_def tx_buf_pop_def uart_unlock_def upd_uart_def)
  have d: "tx_drop (?d\<lparr>u_locked := True\<rparr>) = (tx_drop ?d)\<lparr>u_locked := True\<rparr>" by (simp add: tx_drop_def)
  note q = tx.queue_drop [OF assms(2) [unfolded tx_ok_def] n, folded tx_queue_def tx_ok_def]
  show ?thesis
    by (rule that [OF r]) (simp_all add: frame putchar_def d q)
qed

lemma draining_step:
  assumes "draining out fds t u" "thread_step u u'"
  shows "draining out fds t u' \<and> work u = Suc (work u')"
  using assms(2)
proof (cases rule: thread_step.cases)
  case sends
  show ?thesis
  proof (cases "tx_queue (g_uart (mach u)) = []")
    case True
    with sends assms(1) tx_round_empty [of u] have "u' = tx_exit u" by (simp add: draining_def)
    with True sends assms(1) show ?thesis by (auto simp: draining_def work_def tx_exit_def close_fd_def Let_def)
  next
    case False
    with assms(1) obtain m where "tx_round u = Inr (u\<lparr>mach := m\<rparr>)" "\<not> u_locked (g_uart m)" "tx_ok (g_uart m)"
      "tx_queue (g_uart m) = tl (tx_queue (g_uart (mach u)))"
      "console m = console (mach u) @ [hd (tx_queue (g_uart (mach u)))]"
      using tx_round_send [of u] by (auto simp: draining_def)
    with False sends assms(1) show ?thesis by (auto simp: draining_def work_def)
  qed
next
  case wakes
  with assms(1) show ?thesis by (simp add: draining_def)
next
  case (receives got)
  with assms(1) have "u' = u\<lparr>rx_thread := Ended\<rparr>" by (simp add: draining_def rx_round_def)
  with receives assms(1) show ?thesis by (auto simp: draining_def work_def)
qed

lemma draining_progress:
  assumes "draining out fds t u" "\<not> joined u"
  shows "\<exists>u'. thread_step u u'"
proof (cases "rx_thread u")
  case Active
  with assms(1) have "thread_step u (u\<lparr>rx_thread := Ended\<rparr>)"
    by (intro receives [of _ "[]"]) (simp_all add: draining_def rx_round_def)
  then show ?thesis ..
next
  case Waiting
  with assms show ?thesis by (simp add: draining_def)
next
  case Ended
  with assms have a: "tx_thread u = Active" by (cases "tx_thread u") (simp_all add: draining_def joined_def)
  have "\<exists>u'. tx_round u = Inr u'"
    using assms(1) tx_round_empty [of u] tx_round_send [of u] by (metis draining_def)
  with sends [OF a] show ?thesis by blast
qed

lemma draining_steps: "(thread_step ^^ n) u u' \<Longrightarrow> draining out fds t u \<Longrightarrow> draining out fds t u' \<and> work u = n + work u'"
proof (induction n arbitrary: u')
  case (Suc n)
  then obtain v where "(thread_step ^^ n) u v" "thread_step v u'" by auto
  with Suc draining_step [of out fds t v u'] show ?case by fastforce
qed simp

text \<open>What a stop does when the lock is free.\<close>

lemma uart_stop_draining:
  assumes "\<not> u_locked (g_uart (mach u))" "tx_ok (g_uart (mach u))" "tx_thread u \<noteq> Ended" "rx_thread u = Active"
  obtains u1 where "uart_stop u = Inr u1" "work u1 = length (tx_queue (g_uart (mach u))) + 2"
    "draining (console (mach u) @ tx_queue (g_uart (mach u)))
      (closes u @ (if 0 \<le> u_serial_fd u then [u_serial_fd u, u_serial_fd u] else []))
      (if u_terminal_configured u then u_original_termios u else tty u) u1"
proof -
  let ?u = "if 0 \<le> u_serial_fd u then close_fd u else u"
  let ?u1 = "(uart_cleanup (?u\<lparr>u_running := False\<rparr>))\<lparr>tx_thread := Active\<rparr>"
  have "uart_stop u = Inr ?u1"
    using assms lock_unlock_id [OF assms(1)]
    by (cases "tx_thread u") (auto simp: uart_stop_def uart_lock_def uart_cleanup_def close_fd_def Let_def)
  then show ?thesis
    by (rule that) (use assms in \<open>simp_all add: uart_cleanup_def close_fd_def draining_def work_def\<close>)
qed

text \<open>
  C34. Destroying the serial device ends. From any device whose lock is free and whose threads run,
  \<open>uart_destroy\<close> stops it, and then, however the two threads interleave, they take at most as many
  passes as there are bytes in the transmit ring and two more; when no pass is left, both have
  ended, so that the calls of \<open>pthread_join\<close> return. By then the bytes of the ring have been written
  to the terminal in order, its settings are those saved by \<open>uart_init\<close>, and the descriptor of a serial line
  was closed twice: by \<open>uart_destroy\<close>, which does not reset it, and by the transmitter.
\<close>

theorem uart_destroy_drains:
  assumes "\<not> u_locked (g_uart (mach u))" and "tx_ok (g_uart (mach u))" and "tx_thread u \<noteq> Ended" and "rx_thread u = Active"
  shows "\<exists>u1. uart_stop u = Inr u1 \<and> (\<forall>n u2. (thread_step ^^ n) u1 u2 \<longrightarrow>
    n \<le> length (tx_queue (g_uart (mach u))) + 2 \<and>
    ((\<nexists>u3. thread_step u2 u3) \<longrightarrow> joined u2 \<and>
       console (mach u2) = console (mach u) @ tx_queue (g_uart (mach u)) \<and>
       (u_terminal_configured u \<longrightarrow> tty u2 = u_original_termios u) \<and>
       closes u2 = closes u @ (if 0 \<le> u_serial_fd u then [u_serial_fd u, u_serial_fd u] else [])))"
proof -
  from uart_stop_draining [OF assms] obtain u1 where
    u1: "uart_stop u = Inr u1" "work u1 = length (tx_queue (g_uart (mach u))) + 2"
    "draining (console (mach u) @ tx_queue (g_uart (mach u)))
      (closes u @ (if 0 \<le> u_serial_fd u then [u_serial_fd u, u_serial_fd u] else []))
      (if u_terminal_configured u then u_original_termios u else tty u) u1" by blast
  show ?thesis
  proof (intro exI conjI allI impI)
    fix n u2 assume "(thread_step ^^ n) u1 u2"
    note d = draining_steps [OF this u1(3)]
    then show "n \<le> length (tx_queue (g_uart (mach u))) + 2" using u1(2) by simp
    assume "\<nexists>u3. thread_step u2 u3"
    with d draining_progress show j: "joined u2" by blast
    with d show "console (mach u2) = console (mach u) @ tx_queue (g_uart (mach u))"
      "closes u2 = closes u @ (if 0 \<le> u_serial_fd u then [u_serial_fd u, u_serial_fd u] else [])"
      "u_terminal_configured u \<Longrightarrow> tty u2 = u_original_termios u"
      by (auto simp: draining_def joined_def)
  qed (rule u1(1))
qed

lemma draining_ends: "draining out fds t u \<Longrightarrow> \<exists>n u'. (thread_step ^^ n) u u' \<and> (\<nexists>u3. thread_step u' u3)"
proof (induction "work u" arbitrary: u rule: less_induct)
  case less
  show ?case
  proof (cases "\<exists>u1. thread_step u u1")
    case True
    then obtain u1 where s: "thread_step u u1" ..
    with draining_step [OF less.prems s] less.hyps [of u1] obtain n u' where
      "(thread_step ^^ n) u1 u'" "\<nexists>u3. thread_step u' u3" by auto
    with s show ?thesis by (blast intro: relpowp_Suc_I2)
  next
    case False
    then show ?thesis by (intro exI [of _ 0] exI [of _ u]) simp
  qed
qed

text \<open>A device with two bytes in the ring and a serial line on descriptor 3.\<close>

definition sending_device :: uart_host where
  "sending_device =
     \<lparr>mach = blank\<lparr>g_uart := tx_put 66 (tx_put 65 (uart_create UART_IRQ_NUM))\<rparr>, u_running = True, u_serial_fd = 3,
      u_terminal_configured = False, u_original_termios = \<lparr>c_oflag = 0, c_cflag = 0, c_lflag = 0, c_cc = (\<lambda>_. 0), c_other = []\<rparr>,
      tty = \<lparr>c_oflag = 0, c_cflag = 0, c_lflag = 0, c_cc = (\<lambda>_. 0), c_other = []\<rparr>, stdin_flags = 0,
      tx_thread = Waiting, rx_thread = Active, closes = [], u_freed = False\<rparr>"

theorem uart_destroy_drains_witness:
  "\<exists>u1 n u2. uart_stop sending_device = Inr u1 \<and> (thread_step ^^ n) u1 u2 \<and> n \<le> 4 \<and> joined u2 \<and>
     console (mach u2) = [65, 66] \<and> closes u2 = [3, 3]"
proof -
  let ?d = "sending_device"
  have q: "tx_queue (g_uart (mach ?d)) = [65, 66]"
    by (simp add: sending_device_def tx_queue_def ring_queue_def tx_put_def uart_create_def uart_init_def zero_uart_def
        Let_def take_bit_eq_mod upt_rec)
  have d: "\<not> u_locked (g_uart (mach ?d))" "tx_ok (g_uart (mach ?d))" "tx_thread ?d \<noteq> Ended" "rx_thread ?d = Active"
    by (simp_all add: sending_device_def tx_ok_def ring_ok_def tx_put_def uart_create_def uart_init_def zero_uart_def
        Let_def take_bit_eq_mod)
  from uart_stop_draining [OF d] obtain u1 n u2 where n: "uart_stop ?d = Inr u1" "(thread_step ^^ n) u1 u2" "\<nexists>u3. thread_step u2 u3"
    using draining_ends by metis
  have "n \<le> length (tx_queue (g_uart (mach ?d))) + 2 \<and> joined u2 \<and>
    console (mach u2) = console (mach ?d) @ tx_queue (g_uart (mach ?d)) \<and>
    closes u2 = closes ?d @ (if 0 \<le> u_serial_fd ?d then [u_serial_fd ?d, u_serial_fd ?d] else [])"
    using uart_destroy_drains [OF d] n by auto
  moreover have "console (mach ?d) = []" "closes ?d = []" "u_serial_fd ?d = 3"
    by (simp_all add: sending_device_def blank_def zero_machine_def)
  ultimately show ?thesis using n q by (intro exI [of _ u1] exI [of _ n] exI [of _ u2]) simp
qed

text \<open>A terminal that \<open>uart_init\<close> has set up gets its settings back; the status flags stay changed.\<close>

lemma thread_step_terminal:
  assumes "thread_step u u'"
  shows "tty u' = tty u" "u_terminal_configured u' = u_terminal_configured u"
    "u_original_termios u' = u_original_termios u" "stdin_flags u' = stdin_flags u"
  using assms
  by (auto elim!: thread_stepE simp: tx_round_def rx_round_def tx_exit_def close_fd_def Let_def rbind_Inr_iff
      split: if_splits option.splits prod.splits)

lemma thread_steps_terminal:
  assumes "thread_step\<^sup>*\<^sup>* u u'"
  shows "tty u' = tty u" "u_terminal_configured u' = u_terminal_configured u"
    "u_original_termios u' = u_original_termios u" "stdin_flags u' = stdin_flags u"
  using assms by (induction rule: rtranclp_induct) (simp_all add: thread_step_terminal)

theorem terminal_restored:
  assumes "thread_step\<^sup>*\<^sup>* (uart_spawn cfmakeraw isatty irq u) u1" and "uart_stop u1 = Inr u2"
  shows "tty u2 = tty u \<and> bit (stdin_flags u2) 11 \<and>
    (isatty \<longrightarrow> bit (c_oflag (tty u1)) 0 \<and> \<not> bit (c_lflag (tty u1)) 1)"
proof -
  note t = thread_steps_terminal [OF assms(1)]
  have i: "tty u1 = (if isatty then raw_termios cfmakeraw (tty u) else tty u)"
    "u_terminal_configured u1 = isatty" "isatty \<Longrightarrow> u_original_termios u1 = tty u" "bit (stdin_flags u1) 11"
    unfolding t by (simp_all add: uart_spawn_def uart_init_terminal_def rx_start_def Let_def bit_simps)
  with assms(2) show ?thesis
    by (auto simp: uart_stop_def uart_lock_def uart_cleanup_def close_fd_def raw_termios_def Let_def bit_simps split: if_splits)
qed

end
