(* ===== verification/Elf32.thy ===== *)
theory Elf32
  imports Elf
begin

text \<open>
  The two 32-bit loaders of \<open>elf_load.c\<close>, which \<open>main\<close> does not call: \<open>load_elf32_bare\<close>, which
  moves the segments to a given base, and \<open>load_elf32_virt\<close>, which loads at physical addresses.
  The layouts are those of \<open>elf_selfuse.h\<close>. For \<open>load_elf32_bare\<close> the block \<open>mem\<close> is the
  guest memory, of the size the caller states.
\<close>

section \<open>Header records\<close>

abbreviation (input) SELFMAG :: nat where "SELFMAG \<equiv> 4"

record Elf32_Ehdr =
  h_ident :: "u8 list"
  h_machine :: u16
  h_entry :: u32
  h_phoff :: u32
  h_phentsize :: u16
  h_phnum :: u16

record Elf32_Phdr =
  s_type :: u32
  s_offset :: u32
  s_vaddr :: u32
  s_paddr :: u32
  s_filesz :: u32
  s_memsz :: u32

definition parse_ehdr32 :: "u8 list \<Rightarrow> Elf32_Ehdr" where
  "parse_ehdr32 b = \<lparr>h_ident = take 16 b, h_machine = ucast (field b 18 2), h_entry = ucast (field b 24 4),
     h_phoff = ucast (field b 28 4), h_phentsize = ucast (field b 42 2), h_phnum = ucast (field b 44 2)\<rparr>"

definition read_phdr32 :: "u8 list \<Rightarrow> u32 \<Rightarrow> Elf32_Phdr option" where
  "read_phdr32 f pos = map_option (\<lambda>b. \<lparr>s_type = ucast (field b 0 4), s_offset = ucast (field b 4 4),
     s_vaddr = ucast (field b 8 4), s_paddr = ucast (field b 12 4), s_filesz = ucast (field b 16 4),
     s_memsz = ucast (field b 20 4)\<rparr>) (read_record f (ucast pos) 32)"

text \<open>\<open>eh.e_phoff + i * eh.e_phentsize\<close> is computed in 32 bits.\<close>

definition phdr32 :: "u8 list \<Rightarrow> Elf32_Ehdr \<Rightarrow> nat \<Rightarrow> Elf32_Phdr option" where
  "phdr32 f eh i = read_phdr32 f (h_phoff eh + of_nat i * ucast (h_phentsize eh))"

section \<open>load_elf32_bare\<close>

definition elf32_ok :: "Elf32_Ehdr \<Rightarrow> bool" where
  "elf32_ok eh \<longleftrightarrow> take SELFMAG (h_ident eh) = ELFMAG \<and> h_ident eh ! EI_CLASS = ELFCLASS32 \<and>
     h_ident eh ! EI_DATA = ELFDATA2LSB \<and> h_machine eh = EM_RISCV \<and> h_phoff eh \<noteq> 0 \<and> h_phnum eh \<noteq> 0"

text \<open>The first pass: \<open>None\<close> when a header cannot be read, otherwise the span of the segments.\<close>

fun span32 :: "u8 list \<Rightarrow> Elf32_Ehdr \<Rightarrow> nat list \<Rightarrow> u32 \<times> u32 \<Rightarrow> (u32 \<times> u32) option" where
  "span32 f eh [] mm = Some mm"
| "span32 f eh (i # is) (min_vaddr, max_vaddr) =
     (case phdr32 f eh i of None \<Rightarrow> None
      | Some ph \<Rightarrow>
         if s_type ph \<noteq> PT_LOAD then span32 f eh is (min_vaddr, max_vaddr)
         else (let seg_end = s_vaddr ph + s_memsz ph
               in span32 f eh is (if s_vaddr ph < min_vaddr then s_vaddr ph else min_vaddr,
                                  if max_vaddr < seg_end then seg_end else max_vaddr)))"

text \<open>One segment; the flag says whether all its bytes were read.\<close>

definition put_segment32 :: "u8 list \<Rightarrow> u64 \<Rightarrow> Elf32_Phdr \<Rightarrow> u64 \<Rightarrow> machine \<Rightarrow> (bool \<times> machine) res" where
  "put_segment32 f mem_size ph mem_off m =
     (let bs = file_read f (ucast (s_offset ph)) (unat (s_filesz ph))
      in rbind (if 0 < s_filesz ph then host_put mem_size mem_off bs m else Inr m) (\<lambda>m.
         if 0 < s_filesz ph \<and> length bs \<noteq> unat (s_filesz ph) then Inr (False, m)
         else if s_filesz ph < s_memsz ph
         then rbind (host_zero mem_size (mem_off + ucast (s_filesz ph)) (ucast (s_memsz ph - s_filesz ph)) m)
                (\<lambda>m. Inr (True, m))
         else Inr (True, m)))"

text \<open>The second pass; it stops at the first header or segment that fails.\<close>

fun load_pass32 :: "u8 list \<Rightarrow> Elf32_Ehdr \<Rightarrow> u64 \<Rightarrow> u32 \<Rightarrow> u64 \<Rightarrow> nat list \<Rightarrow> machine \<Rightarrow> (bool \<times> machine) res" where
  "load_pass32 f eh mem_size mem_base load_bias [] m = Inr (True, m)"
| "load_pass32 f eh mem_size mem_base load_bias (i # is) m =
     (case phdr32 f eh i of None \<Rightarrow> Inr (False, m)
      | Some ph \<Rightarrow>
         if s_type ph \<noteq> PT_LOAD then load_pass32 f eh mem_size mem_base load_bias is m
         else
          (let dest = ucast (s_vaddr ph) + load_bias in
           if dest < ucast mem_base \<or> ucast mem_base + mem_size < dest + ucast (s_memsz ph) then Inr (False, m)
           else rbind (put_segment32 f mem_size ph (dest - ucast mem_base) m) (\<lambda>(ok, m).
                if ok then load_pass32 f eh mem_size mem_base load_bias is m else Inr (False, m))))"

definition load_elf32_bare :: "u8 list option \<Rightarrow> u64 \<Rightarrow> u32 \<Rightarrow> nat \<Rightarrow> machine \<Rightarrow> (int \<times> machine) res" where
  "load_elf32_bare path mem_size mem_base h m =
     (case path of None \<Rightarrow> Inr (-1, m)
      | Some f \<Rightarrow>
       (case map_option parse_ehdr32 (read_record f 0 52) of None \<Rightarrow> Inr (-1, m)
        | Some eh \<Rightarrow>
           if \<not> elf32_ok eh then Inr (-1, m)
           else
            (case span32 f eh [0..<unat (h_phnum eh)] (0xFFFFFFFF, 0) of None \<Rightarrow> Inr (-1, m)
             | Some (min_vaddr, max_vaddr) \<Rightarrow>
                if min_vaddr = 0xFFFFFFFF then Inr (-1, m)
                else if mem_size < ucast max_vaddr - ucast min_vaddr then Inr (-1, m)
                else
                 (let load_bias = ucast mem_base - ucast min_vaddr
                  in rbind (load_pass32 f eh mem_size mem_base load_bias [0..<unat (h_phnum eh)] m) (\<lambda>(ok, m).
                     if \<not> ok then Inr (-1, m)
                     else
                      (let entry = ucast (h_entry eh) + load_bias; sp = (ucast mem_base + mem_size) AND NOT 0xF
                       in Inr (0, upd_cpu h (\<lambda>c. c\<lparr>pc := ucast (ucast entry :: u32),
                                    gpr := (gpr c)(2 := ucast (ucast sp :: u32))\<rparr>) m)))))))"

section \<open>load_elf32_virt\<close>

text \<open>
  The header record is not tested for a short read, so it keeps the bytes \<open>junk\<close> that were on the
  stack; a file that cannot be opened is a null pointer in \<open>fread\<close>. The mapping function the
  loader calls has no effect. The word it prints after a segment is read from memory.
\<close>

definition load_phdr32 :: "u8 list \<Rightarrow> Elf32_Ehdr \<Rightarrow> nat \<Rightarrow> machine \<Rightarrow> machine res" where
  "load_phdr32 f eh i m =
     (case phdr32 f eh i of None \<Rightarrow> Inr m
      | Some ph \<Rightarrow>
         if s_type ph \<noteq> PT_LOAD then Inr m
         else
          (let phys_addr = s_paddr ph in
           if phys_addr < 0x80000000 \<or> 0x80000000 + 0x40000000 \<le> phys_addr + s_filesz ph then Inr m
           else
            (let off = ucast (phys_addr - 0x80000000)
             in rbind (host_put MEMORY_SIZE off (file_read f (ucast (s_offset ph)) (unat (s_filesz ph))) m) (\<lambda>m.
                if unat MEMORY_SIZE < unat off + 4 then Inl OutOfBounds else Inr m))))"

definition load_elf32_virt :: "u8 list \<Rightarrow> u8 list option \<Rightarrow> u32 \<Rightarrow> machine \<Rightarrow> (u32 \<times> machine) res" where
  "load_elf32_virt junk filename entry_point m =
     (case filename of None \<Rightarrow> Inl NullCall
      | Some f \<Rightarrow>
         (let b = file_read f 0 52; eh = parse_ehdr32 (b @ drop (length b) junk)
          in if h_ident eh ! 0 \<noteq> 0x7f \<or> h_machine eh \<noteq> EM_RISCV then Inr (entry_point, m)
             else rbind (fold (\<lambda>i r. rbind r (load_phdr32 f eh i)) [0..<unat (h_phnum eh)] (Inr m)) (\<lambda>m.
                  Inr (h_entry eh, m))))"

section \<open>What load_elf32_bare keeps to\<close>

text \<open>The memory outside the block.\<close>

definition outside :: "u64 \<Rightarrow> (u64 \<Rightarrow> u8) \<Rightarrow> machine \<Rightarrow> bool" where
  "outside block mem m \<longleftrightarrow> (\<forall>a. block \<le> a \<longrightarrow> memory m a = mem a)"

lemma outside_put: "outside block mem m \<Longrightarrow> sat (outside block mem) (\<lambda>e. e = OutOfBounds) (host_put block off bs m)"
  by (rule sat_weaken [OF host_put_sat]) (auto simp: outside_def)

lemma outside_zero: "outside block mem m \<Longrightarrow> sat (outside block mem) (\<lambda>e. e = OutOfBounds) (host_zero block off n m)"
  by (rule sat_weaken [OF host_zero_sat]) (auto simp: outside_def)

lemma outside_segment:
  "outside block mem m \<Longrightarrow>
   sat (\<lambda>(ok, m'). outside block mem m') (\<lambda>e. e = OutOfBounds) (put_segment32 f block ph off m)"
  unfolding put_segment32_def Let_def
  by (rule sat_rbind [where Q = "outside block mem"])
    (auto intro: outside_put intro!: sat_rbind [OF outside_zero])

lemma outside_pass:
  "outside block mem m \<Longrightarrow>
   sat (\<lambda>(ok, m'). outside block mem m') (\<lambda>e. e = OutOfBounds) (load_pass32 f eh block base bias is m)"
proof (induction "is" arbitrary: m)
  case (Cons i js)
  have "sat (\<lambda>(ok, m'). outside block mem m') (\<lambda>e. e = OutOfBounds)
      (rbind (put_segment32 f block ph off m) (\<lambda>(ok, m). if ok then load_pass32 f eh block base bias js m else Inr (False, m)))"
    for ph off
    by (rule sat_rbind_pair [OF outside_segment [OF Cons.prems]]) (simp add: Cons.IH)
  with Cons show ?case by (simp add: Let_def split: option.split)
qed simp

text \<open>
  For any file and any block: the 32-bit loader returns 0 or -1, changes no byte outside the block,
  and on success leaves a program counter of 32 bits and a stack pointer that is a multiple of 16.
\<close>

theorem elf32_stays_in_block:
  "sat (\<lambda>(k, m'). (\<forall>a. mem_size \<le> a \<longrightarrow> memory m' a = memory m a) \<and>
       (k = -1 \<or> k = 0 \<and> pc (cpus m' h) < 2 ^ 32 \<and> gpr (cpus m' h) 2 AND 0xF = 0))
     (\<lambda>e. e = OutOfBounds) (load_elf32_bare path mem_size mem_base h m)"
proof -
  have sp: "ucast (ucast (w AND NOT 0xF :: u64) :: u32) AND (0xF :: u64) = 0" for w
    by (rule bit_word_eqI) (auto simp: bit_simps)
  have pc: "(ucast (w :: u32) :: u64) < 2 ^ 32" for w
  proof -
    have "unat w < 2 ^ LENGTH(32)" by (rule unsigned_less)
    then show ?thesis by (simp add: word_less_nat_alt unsigned_ucast_eq take_bit_nat_eq_self)
  qed
  let ?R = "\<lambda>(k, m'). (\<forall>a. mem_size \<le> a \<longrightarrow> memory m' a = memory m a) \<and>
    (k = -1 \<or> k = 0 \<and> pc (cpus m' h) < 2 ^ 32 \<and> gpr (cpus m' h) 2 AND 0xF = 0)"
  have "outside mem_size (memory m) m" by (simp add: outside_def)
  note pass = outside_pass [OF this, unfolded outside_def]
  have load: "sat ?R (\<lambda>e. e = OutOfBounds) (rbind (load_pass32 f eh mem_size mem_base bias js m) (\<lambda>(ok, m).
      if \<not> ok then Inr (-1, m)
      else Inr (0, upd_cpu h (\<lambda>c. c\<lparr>pc := ucast (ucast (e :: u64) :: u32),
        gpr := (gpr c)(2 := ucast (ucast ((ucast mem_base + mem_size) AND NOT 0xF) :: u32))\<rparr>) m)))"
    for f eh bias js e
    by (rule sat_rbind_pair [OF pass]) (simp add: sp [simplified] pc [simplified])
  then show ?thesis
    unfolding load_elf32_bare_def Let_def by (auto split: option.split)
qed

end
