(* ===== verification/Dts.thy ===== *)
theory Dts
  imports Elf
begin

text \<open>
  The device-tree writer (\<open>dts.c\<close>), which \<open>main\<close> does not call. A writer gets the address of the
  tree and the position \<open>*pos\<close> in it, and writes through \<open>memory[base + *pos]\<close>; \<open>MEMORY_SIZE\<close> is
  the one of \<open>common.h\<close>, which \<open>dts.c\<close> includes after \<open>dts.h\<close>.
\<close>

section \<open>Writers\<close>

abbreviation (input) FDT_MAGIC :: u32 where "FDT_MAGIC \<equiv> 0xd00dfeed"
abbreviation (input) FDT_BEGIN_NODE :: u32 where "FDT_BEGIN_NODE \<equiv> 1"
abbreviation (input) FDT_END_NODE :: u32 where "FDT_END_NODE \<equiv> 2"
abbreviation (input) FDT_PROP :: u32 where "FDT_PROP \<equiv> 3"
abbreviation (input) FDT_END :: u32 where "FDT_END \<equiv> 9"
abbreviation (input) UART0_BASE :: u64 where "UART0_BASE \<equiv> 0x10000000"
abbreviation (input) RTC_BASE :: u64 where "RTC_BASE \<equiv> 0x10100000"
abbreviation (input) CLINT_BASE :: u64 where "CLINT_BASE \<equiv> 0x02000000"

type_synonym dt_writer = "u64 \<Rightarrow> u32 \<times> machine \<Rightarrow> (u32 \<times> machine) res"

definition cpu_to_fdt32 :: "u32 \<Rightarrow> u32" where "cpu_to_fdt32 x = x"
definition cpu_to_fdt64 :: "u64 \<Rightarrow> u64" where "cpu_to_fdt64 x = x"

text \<open>The bytes of an integer in the memory of the host, which is little-endian.\<close>

definition host_bytes :: "nat \<Rightarrow> u64 \<Rightarrow> u8 list" where
  "host_bytes n v = map (\<lambda>i. ucast (drop_bit (8 * i) v)) [0..<n]"

definition c_string :: "string \<Rightarrow> u8 list" where
  "c_string s = map of_char s @ [0]"

text \<open>\<open>memcpy(&memory[base + *pos], ...)\<close>, and \<open>*pos += n\<close>.\<close>

definition dt_put :: "u8 list \<Rightarrow> dt_writer" where
  "dt_put bs base = (\<lambda>(pos, m).
     rbind (host_put MEMORY_SIZE (base + ucast pos) bs m) (\<lambda>m. Inr (pos + of_nat (length bs), m)))"

definition write_token :: "u32 \<Rightarrow> dt_writer" where
  "write_token token = dt_put (host_bytes 4 (ucast (cpu_to_fdt32 token)))"

text \<open>\<open>while (*pos % 4 != 0) { memory[base + *pos] = 0; (*pos)++; }\<close>\<close>

function dt_align :: "u64 \<Rightarrow> u32 \<Rightarrow> machine \<Rightarrow> (u32 \<times> machine) res" where
  "dt_align base pos m =
     (if pos mod 4 = 0 then Inr (pos, m)
      else case host_put MEMORY_SIZE (base + ucast pos) [0] m of
             Inl e \<Rightarrow> Inl e
           | Inr m \<Rightarrow> dt_align base (pos + 1) m)"
  by pat_completeness auto

lemma pos_mod_4:
  "(pos :: u32) mod 4 = 0 \<longleftrightarrow> unat pos mod 4 = 0" "unat (pos + 1) mod 4 = (unat pos + 1) mod 4"
proof -
  have "unat (pos mod 4) = unat pos mod 4" by (simp add: unat_mod)
  then show "pos mod 4 = 0 \<longleftrightarrow> unat pos mod 4 = 0" by (metis unat_eq_zero)
  have "(4 :: nat) dvd 2 ^ LENGTH(32)" by simp
  then show "unat (pos + 1) mod 4 = (unat pos + 1) mod 4" by (simp add: unat_word_ariths mod_mod_cancel)
qed

termination dt_align
proof (relation "measure (\<lambda>(base, pos, m). (4 - unat pos mod 4) mod 4)")
  fix base :: u64 and pos :: u32 and m m' :: machine
  assume "pos mod 4 \<noteq> 0"
  then have "unat pos mod 4 \<in> {1, 2, 3}" by (simp add: pos_mod_4(1)) presburger
  then show "((base, pos + 1, m'), base, pos, m) \<in> measure (\<lambda>(base, pos, m). (4 - unat pos mod 4) mod 4)"
    by (auto simp: pos_mod_4(2) mod_Suc)
qed simp

declare dt_align.simps [simp del]

definition then_do :: "dt_writer \<Rightarrow> dt_writer \<Rightarrow> dt_writer" where
  "then_do f g base s = rbind (f base s) (g base)"

definition write_string :: "string \<Rightarrow> dt_writer" where
  "write_string str = then_do (dt_put (c_string str)) (\<lambda>base (pos, m). dt_align base pos m)"

text \<open>The three words a property starts with; the name is always at offset 0 of the strings.\<close>

definition prop_head :: "u32 \<Rightarrow> dt_writer" where
  "prop_head len = then_do (write_token FDT_PROP) (then_do (dt_put (host_bytes 4 (ucast (cpu_to_fdt32 len))))
     (dt_put (host_bytes 4 (ucast (cpu_to_fdt32 0)))))"

definition write_property_string :: "string \<Rightarrow> string \<Rightarrow> dt_writer" where
  "write_property_string name value =
     then_do (prop_head (of_nat (length value + 1)))
       (then_do (dt_put (c_string value)) (\<lambda>base (pos, m). dt_align base pos m))"

definition write_property_u32 :: "string \<Rightarrow> u32 \<Rightarrow> dt_writer" where
  "write_property_u32 name value = then_do (prop_head 4) (dt_put (host_bytes 4 (ucast (cpu_to_fdt32 value))))"

definition write_property_u64 :: "string \<Rightarrow> u64 \<Rightarrow> dt_writer" where
  "write_property_u64 name value = then_do (prop_head 8) (dt_put (host_bytes 8 (cpu_to_fdt64 value)))"

definition write_property_reg :: "string \<Rightarrow> u64 list \<Rightarrow> nat \<Rightarrow> dt_writer" where
  "write_property_reg name reg count =
     then_do (prop_head (of_nat (count * 2 * 8)))
       (fold (\<lambda>i f. then_do f (dt_put (host_bytes 8 (cpu_to_fdt64 (reg ! i))))) [0..<count * 2] (\<lambda>base s. Inr s))"

definition write_property_null :: "string \<Rightarrow> dt_writer" where
  "write_property_null name = prop_head 0"

section \<open>The tree\<close>

text \<open>The calls of \<open>create_complete_device_tree\<close> after the header, as data, in the order of the code.\<close>

datatype dt_call =
  Token u32
| Str string
| PropString string string
| PropU32 string u32
| PropReg string "u64 list" nat
| PropNull string

fun dt_run :: "dt_call \<Rightarrow> dt_writer" where
  "dt_run (Token t) = write_token t"
| "dt_run (Str s) = write_string s"
| "dt_run (PropString n v) = write_property_string n v"
| "dt_run (PropU32 n v) = write_property_u32 n v"
| "dt_run (PropReg n r k) = write_property_reg n r k"
| "dt_run (PropNull n) = write_property_null n"

fun dt_run_all :: "dt_call list \<Rightarrow> dt_writer" where
  "dt_run_all [] base s = Inr s"
| "dt_run_all (c # cs) base s = then_do (dt_run c) (dt_run_all cs) base s"

definition cpu_calls :: "dt_call list" where
  "cpu_calls =
    [Token FDT_BEGIN_NODE, Str ''cpus'', PropU32 ''phandle'' 0x1, PropU32 ''riscv,isa'' 0,
     PropU32 ''timebase-frequency'' 10000000,
     Token FDT_BEGIN_NODE, Str ''cpu@0'', PropString ''device_type'' ''cpu'', PropString ''status'' ''okay'',
     PropString ''compatible'' ''riscv'', PropString ''riscv,isa'' ''rv64imafdc'',
     PropString ''mmu-type'' ''riscv,sv48'', PropU32 ''reg'' 0, PropU32 ''clock-frequency'' 1000000000,
     Token FDT_BEGIN_NODE, Str ''interrupt-controller'', PropU32 ''phandle'' 0x2,
     PropNull ''interrupt-controller'', PropString ''compatible'' ''riscv,cpu-intc'',
     PropU32 ''#interrupt-cells'' 1, Token FDT_END_NODE, Token FDT_END_NODE, Token FDT_END_NODE]"

definition memory_calls :: "dt_call list" where
  "memory_calls =
    [Token FDT_BEGIN_NODE, Str ''memory@80000000'', PropString ''device_type'' ''memory'',
     PropReg ''reg'' [MEMORY_BASE, MEMORY_SIZE] 1, Token FDT_END_NODE]"

definition soc_calls :: "dt_call list" where
  "soc_calls =
    [Token FDT_BEGIN_NODE, Str ''soc'', PropString ''compatible'' ''simple-bus'', PropString ''ranges'' [],
     PropString ''bus-type'' ''amba'',
     Token FDT_BEGIN_NODE, Str ''clint@2000000'', PropString ''compatible'' ''riscv,clint0'',
     PropReg ''reg'' [CLINT_BASE, 0x10000] 1, PropU32 ''interrupts-extended'' 0x2000001, Token FDT_END_NODE,
     Token FDT_BEGIN_NODE, Str ''plic@c000000'', PropString ''compatible'' ''riscv,plic0'',
     PropString ''interrupt-controller'' [], PropReg ''reg'' [PLIC_BASE, 0x4000000] 1,
     PropU32 ''riscv,ndev'' 53, PropU32 ''interrupts-extended'' 0x2000009, PropU32 ''phandle'' 0x3,
     Token FDT_END_NODE,
     Token FDT_BEGIN_NODE, Str ''uart@10000000'', PropString ''compatible'' ''ns16550a'',
     PropReg ''reg'' [UART0_BASE, 0x100] 1, PropU32 ''clock-frequency'' 1843200,
     PropU32 ''interrupt-parent'' 0x3, PropU32 ''interrupts'' 10, PropString ''reg-shift'' ''0'',
     PropString ''reg-io-width'' ''1'', Token FDT_END_NODE,
     Token FDT_BEGIN_NODE, Str ''rtc@10100000'', PropString ''compatible'' ''google,goldfish-rtc'',
     PropReg ''reg'' [RTC_BASE, 0x1000] 1, PropU32 ''interrupt-parent'' 0x3, PropU32 ''interrupts'' 11,
     Token FDT_END_NODE, Token FDT_END_NODE]"

definition tree_calls :: "dt_call list" where
  "tree_calls =
    [Token FDT_BEGIN_NODE, Str [], PropString ''compatible'' ''ucbbar,spike-bare-dev'',
     PropString ''model'' ''ucbbar,spike-bare''] @ cpu_calls @ memory_calls @ soc_calls @
    [PropString ''stdout-path'' ''/soc/uart@10000000'', Token FDT_END_NODE, Token FDT_END]"

text \<open>\<open>struct fdt_header\<close>, its fields in order.\<close>

definition fdt_header :: "u8 list" where
  "fdt_header = (let header_size = 40; struct_offset = header_size; strings_offset = struct_offset + 2048;
       total_size = strings_offset + 512
     in concat (map (host_bytes 4) [ucast FDT_MAGIC, total_size, struct_offset, strings_offset, 0, 17, 16, 0, 512, 2048]))"

text \<open>
  The check of the address, the loop that prints eight bytes, the header, the calls.
\<close>

definition create_complete_device_tree :: "u64 \<Rightarrow> machine \<Rightarrow> machine res" where
  "create_complete_device_tree dtb_addr m =
     (if MEMORY_SIZE \<le> MEMORY_BASE + dtb_addr then Inr m
      else if unat MEMORY_SIZE < unat dtb_addr + 8 then Inl OutOfBounds
      else rbind (host_put MEMORY_SIZE dtb_addr fdt_header m) (\<lambda>m.
           rbind (dt_run_all tree_calls dtb_addr (40, m)) (\<lambda>(pos, m). Inr m)))"

section \<open>What the writers write\<close>

definition pad4 :: "u8 list \<Rightarrow> u8 list" where
  "pad4 bs = bs @ replicate ((4 - length bs mod 4) mod 4) 0"

definition head_bytes :: "u32 \<Rightarrow> u8 list" where
  "head_bytes len = host_bytes 4 (ucast FDT_PROP) @ host_bytes 4 (ucast len) @ host_bytes 4 0"

fun call_bytes :: "dt_call \<Rightarrow> u8 list" where
  "call_bytes (Token t) = host_bytes 4 (ucast t)"
| "call_bytes (Str s) = pad4 (c_string s)"
| "call_bytes (PropString n v) = head_bytes (of_nat (length v + 1)) @ pad4 (c_string v)"
| "call_bytes (PropU32 n v) = head_bytes 4 @ host_bytes 4 (ucast v)"
| "call_bytes (PropReg n r k) = head_bytes (of_nat (k * 2 * 8)) @ concat (map (\<lambda>i. host_bytes 8 (r ! i)) [0..<k * 2])"
| "call_bytes (PropNull n) = head_bytes 0"

text \<open>
  The contract of a writer: from an aligned position, with room for them, it puts these bytes at
  the position and moves the position behind them.
\<close>

definition emits :: "dt_writer \<Rightarrow> u8 list \<Rightarrow> bool" where
  "emits f bs \<longleftrightarrow> length bs mod 4 = 0 \<and> (\<forall>base pos m. unat pos mod 4 = 0 \<longrightarrow>
     unat base + unat pos + length bs \<le> unat MEMORY_SIZE \<longrightarrow>
     f base (pos, m) = Inr (pos + of_nat (length bs), put_bytes (base + ucast pos) bs m))"

lemma unat_pos_add: "unat (pos :: u32) + n \<le> unat MEMORY_SIZE \<Longrightarrow> unat (pos + of_nat n) = unat pos + n"
  by (simp add: unat_word_ariths unsigned_of_nat take_bit_nat_eq_self)

lemma unat_base_pos:
  "unat (base :: u64) + unat (pos :: u32) \<le> unat MEMORY_SIZE \<Longrightarrow> unat (base + ucast pos) = unat base + unat pos"
  by (simp add: unat_word_ariths unsigned_ucast_eq take_bit_nat_eq_self)

lemma base_pos_add:
  assumes "unat (pos :: u32) + n \<le> unat MEMORY_SIZE"
  shows "(base :: u64) + ucast (pos + of_nat n) = base + ucast pos + of_nat n"
proof -
  have "(ucast (pos + of_nat n) :: u64) = of_nat (unat (pos + of_nat n))" by simp
  also have "\<dots> = ucast pos + of_nat n" unfolding unat_pos_add [OF assms] by simp
  finally show ?thesis by simp
qed

lemma put_bytes_append: "put_bytes a (xs @ ys) m = put_bytes (a + of_nat (length xs)) ys (put_bytes a xs m)"
  by (induction a xs m rule: put_bytes.induct) (simp_all add: add.assoc)

lemma dt_put_eq:
  assumes "unat base + unat pos + length bs \<le> unat MEMORY_SIZE"
  shows "dt_put bs base (pos, m) = Inr (pos + of_nat (length bs), put_bytes (base + ucast pos) bs m)"
  using assms unat_base_pos [of base pos] by (cases "bs = []") (simp_all add: dt_put_def host_put_def)

lemma dt_align_eq:
  "unat base + unat pos + (4 - unat pos mod 4) mod 4 \<le> unat MEMORY_SIZE \<Longrightarrow>
   dt_align base pos m = Inr (pos + of_nat ((4 - unat pos mod 4) mod 4),
     put_bytes (base + ucast pos) (replicate ((4 - unat pos mod 4) mod 4) 0) m)"
proof (induction base pos m rule: dt_align.induct)
  case (1 base pos m)
  show ?case
  proof (cases "pos mod 4 = 0")
    case True
    then show ?thesis by (subst dt_align.simps) (simp add: pos_mod_4(1))
  next
    case False
    let ?p = "(4 - unat (pos + 1) mod 4) mod 4"
    have "unat pos mod 4 \<in> {1, 2, 3}" using False by (simp add: pos_mod_4(1)) presburger
    then have pad: "(4 - unat pos mod 4) mod 4 = Suc ?p" by (auto simp: pos_mod_4(2) mod_Suc)
    have u: "unat (pos + 1) = unat pos + 1"
      using unat_pos_add [of pos 1] "1.prems" unfolding pad by simp
    have b: "base + ucast (pos + 1) = base + ucast pos + 1"
      using base_pos_add [of pos 1 base] "1.prems" unfolding pad by simp
    have h: "host_put MEMORY_SIZE (base + ucast pos) [0] m = Inr (poke (base + ucast pos) 0 m)"
      using "1.prems" unat_base_pos [of base pos] unfolding pad by (simp add: host_put_def)
    have IH: "dt_align base (pos + 1) (poke (base + ucast pos) 0 m) = Inr (pos + 1 + of_nat ?p,
        put_bytes (base + ucast pos + 1) (replicate ?p 0) (poke (base + ucast pos) 0 m))"
      using "1.IH" [OF False h] "1.prems" u b unfolding pad by simp
    show ?thesis
      unfolding pad by (subst dt_align.simps) (use False h IH in \<open>simp add: add.assoc\<close>)
  qed
qed

lemma emits_put: "length bs mod 4 = 0 \<Longrightarrow> emits (dt_put bs) bs"
  by (simp add: emits_def dt_put_eq)

lemma emits_skip: "emits (\<lambda>base s. Inr s) []"
  by (simp add: emits_def)

lemma emits_then:
  assumes "emits f xs" "emits g ys"
  shows "emits (then_do f g) (xs @ ys)"
  unfolding emits_def
proof (intro conjI allI impI)
  show "length (xs @ ys) mod 4 = 0" using assms by (simp add: emits_def mod_add_eq [symmetric])
  fix base :: u64 and pos :: u32 and m :: machine
  assume a: "unat pos mod 4 = 0" and fit: "unat base + unat pos + length (xs @ ys) \<le> unat MEMORY_SIZE"
  have u: "unat (pos + of_nat (length xs)) = unat pos + length xs" using fit by (intro unat_pos_add) simp
  have b: "base + ucast (pos + of_nat (length xs)) = base + ucast pos + of_nat (length xs)"
    using fit by (intro base_pos_add) simp
  have al: "unat (pos + of_nat (length xs)) mod 4 = 0"
    unfolding u using a assms(1) by (simp add: emits_def mod_add_eq [symmetric])
  have f: "f base (pos, m) = Inr (pos + of_nat (length xs), put_bytes (base + ucast pos) xs m)"
    using assms(1) a fit by (simp add: emits_def)
  have g: "g base (pos + of_nat (length xs), m') = Inr (pos + of_nat (length xs) + of_nat (length ys),
      put_bytes (base + ucast pos + of_nat (length xs)) ys m')" for m'
    using assms(2) al fit unfolding b [symmetric] by (simp add: emits_def u)
  show "then_do f g base (pos, m) = Inr (pos + of_nat (length (xs @ ys)), put_bytes (base + ucast pos) (xs @ ys) m)"
    by (simp add: then_do_def f g put_bytes_append add.assoc)
qed

lemma length_pad4: "length (pad4 bs) mod 4 = 0"
proof -
  define q r where "q = length bs div 4" and "r = length bs mod 4"
  then have "4 * q + r = length bs" "r < 4" by simp_all
  then have "length bs + (4 - r) = 4 * (q + 1)" by (cases r) auto
  then have "(length bs + (4 - r)) mod 4 = 0" by simp
  then show ?thesis by (simp add: pad4_def r_def mod_add_right_eq)
qed

lemma emits_padded: "emits (then_do (dt_put bs) (\<lambda>base (pos, m). dt_align base pos m)) (pad4 bs)"
  unfolding emits_def
proof (intro conjI allI impI)
  let ?n = "(4 - length bs mod 4) mod 4"
  show "length (pad4 bs) mod 4 = 0" by (rule length_pad4)
  fix base :: u64 and pos :: u32 and m :: machine
  assume a: "unat pos mod 4 = 0" and fit: "unat base + unat pos + length (pad4 bs) \<le> unat MEMORY_SIZE"
  have u: "unat (pos + of_nat (length bs)) = unat pos + length bs"
    using fit by (intro unat_pos_add) (simp add: pad4_def)
  have b: "base + ucast (pos + of_nat (length bs)) = base + ucast pos + of_nat (length bs)"
    using fit by (intro base_pos_add) (simp add: pad4_def)
  have n: "(4 - unat (pos + of_nat (length bs)) mod 4) mod 4 = ?n"
  proof -
    have "(unat pos + length bs) mod 4 = length bs mod 4" using a by presburger
    then show ?thesis unfolding u by simp
  qed
  have al: "dt_align base (pos + of_nat (length bs)) m' = Inr (pos + of_nat (length bs) + of_nat ?n,
      put_bytes (base + ucast pos + of_nat (length bs)) (replicate ?n 0) m')" for m'
    using dt_align_eq [of base "pos + of_nat (length bs)" m'] fit unfolding n b [symmetric] by (simp add: u pad4_def)
  have put: "dt_put bs base (pos, m) = Inr (pos + of_nat (length bs), put_bytes (base + ucast pos) bs m)"
    using fit by (intro dt_put_eq) (simp add: pad4_def)
  show "then_do (dt_put bs) (\<lambda>base (pos, m). dt_align base pos m) base (pos, m) =
      Inr (pos + of_nat (length (pad4 bs)), put_bytes (base + ucast pos) (pad4 bs) m)"
    by (simp add: then_do_def put al pad4_def put_bytes_append add.assoc)
qed

lemma length_host_bytes [simp]: "length (host_bytes n v) = n"
  by (simp add: host_bytes_def)

lemma emits_head: "emits (prop_head len) (head_bytes len)"
  unfolding prop_head_def head_bytes_def write_token_def cpu_to_fdt32_def
  by (intro emits_then) (simp_all add: emits_put)

lemma emits_reg:
  "emits (fold (\<lambda>i f. then_do f (dt_put (host_bytes 8 (cpu_to_fdt64 (r ! i))))) [0..<k] (\<lambda>base s. Inr s))
     (concat (map (\<lambda>i. host_bytes 8 (r ! i)) [0..<k]))"
proof (induction k)
  case 0
  show ?case by (simp add: emits_skip)
next
  case (Suc k)
  from emits_then [OF Suc emits_put [of "host_bytes 8 (r ! k)"]] show ?case by (simp add: cpu_to_fdt64_def)
qed

lemma emits_call: "emits (dt_run c) (call_bytes c)"
proof (cases c)
  case (Token t)
  then show ?thesis by (simp add: write_token_def cpu_to_fdt32_def emits_put)
next
  case (Str s)
  then show ?thesis by (simp add: write_string_def emits_padded)
next
  case (PropString n v)
  then show ?thesis by (simp add: write_property_string_def emits_then emits_head emits_padded)
next
  case (PropU32 n v)
  then show ?thesis
    by (simp add: write_property_u32_def cpu_to_fdt32_def emits_then emits_head emits_put)
next
  case (PropReg n r k)
  then show ?thesis
    unfolding PropReg dt_run.simps call_bytes.simps write_property_reg_def
    by (intro emits_then emits_head emits_reg)
next
  case (PropNull n)
  then show ?thesis by (simp add: write_property_null_def emits_head)
qed

lemma emits_all: "emits (dt_run_all cs) (concat (map call_bytes cs))"
proof (induction cs)
  case Nil
  have "dt_run_all [] = (\<lambda>base s. Inr s)" by (simp add: fun_eq_iff)
  then show ?case by (simp add: emits_skip)
next
  case (Cons c cs)
  have "dt_run_all (c # cs) = then_do (dt_run c) (dt_run_all cs)" by (simp add: fun_eq_iff)
  then show ?case using emits_then [OF emits_call Cons] by simp
qed

definition tree_bytes :: "u8 list" where
  "tree_bytes = concat (map call_bytes tree_calls)"

lemma length_tree: "length tree_bytes = 1088" "length fdt_header = 40"
  by (simp_all add: tree_bytes_def tree_calls_def cpu_calls_def memory_calls_def soc_calls_def head_bytes_def pad4_def
      c_string_def fdt_header_def Let_def upt_rec)

section \<open>Properties\<close>

text \<open>
  What the calls after the header would write where there is room for it: their bytes, one behind
  the other, 1088 in all, so the 2048 bytes reserved for the structure suffice; and nothing else
  changes. The magic number of the header is in little-endian order, although the format demands
  big-endian.
\<close>

theorem tree_calls_layout:
  assumes "unat dtb_addr + 1128 \<le> unat MEMORY_SIZE"
  shows "dt_run_all tree_calls dtb_addr (40, m) = Inr (1128, put_bytes (dtb_addr + 40) tree_bytes m) \<and>
    length fdt_header = 40 \<and> length tree_bytes = 1088 \<and> take 4 fdt_header = [0xed, 0xfe, 0x0d, 0xd0]"
  using emits_all [of tree_calls] assms length_tree
  by (simp add: emits_def tree_bytes_def) (simp add: fdt_header_def Let_def host_bytes_def upt_rec)

theorem tree_calls_layout_witness:
  "dt_run_all tree_calls 0x1000 (40, blank) = Inr (1128, put_bytes (0x1000 + 40) tree_bytes blank)"
  using tree_calls_layout [of "0x1000" blank] by simp

text \<open>
  The tree is never written: the check adds the base of memory to an offset and compares the sum
  with the size of memory, so it refuses every offset but those just below \<open>2 ^ 64\<close> for which the sum
  wraps; and those index the memory block outside its bounds.
\<close>

theorem dts_never_written:
  "create_complete_device_tree dtb_addr m =
    (if 0xFFFFFFFF80000000 \<le> dtb_addr \<and> dtb_addr < 0xFFFFFFFFC0000000 then Inl OutOfBounds else Inr m)"
proof (cases "0xFFFFFFFF80000000 \<le> dtb_addr")
  case True
  then have "0xFFFFFFFF80000000 \<le> unat dtb_addr" by (simp add: word_le_nat_alt)
  then have "unat (MEMORY_BASE + dtb_addr) = unat dtb_addr - 0xFFFFFFFF80000000"
    using unat_u64_less [of dtb_addr] by (simp add: unat_word_ariths le_mod_geq)
  with True show ?thesis
    by (auto simp: create_complete_device_tree_def word_le_nat_alt word_less_nat_alt)
next
  case False
  then have "unat (MEMORY_BASE + dtb_addr) = 0x80000000 + unat dtb_addr"
    by (simp add: unat_word_ariths word_le_nat_alt)
  with False show ?thesis by (auto simp: create_complete_device_tree_def word_le_nat_alt)
qed

end
