(* ===== verification/Spec2Isabelle.thy ===== *)
theory Spec2Isabelle
  imports Emulator Isa_System Disk_Runs Uart_Host Elf32 Dts
begin

text \<open>
  A verification library of the RISC-V emulator: a model of the emulator's C code
  (\<open>src/src\<close>), and the theorems that make its parts correct.

  \<^bold>\<open>The program.\<close> The emulator runs one RV64 hart with compressed instructions and the Sv39
  memory management. \<open>main\<close> clears the guest memory, loads a kernel from an ELF file, reads a disk
  image, puts five devices on a bus (RAM, a 16550 serial device, the PLIC, a virtio disk, the
  CLINT) and then, turn by turn, executes one instruction, lets the disk make progress and checks
  for interrupts. Two threads serve the console. An instruction fetches through the address
  translation straight from memory; loads, stores and atomics translate and go through the bus. Devices
  raise lines at the PLIC, which sets a pending bit in the hart; the check after each instruction
  turns pending bits into traps.

  \<^bold>\<open>The state.\<close> \<open>Machine\<close> holds it in one record \<open>machine\<close>: the harts (\<open>CPU_State\<close>, one
  record field per field of the C structure that the code reads), the guest memory as a function
  from offsets to bytes, the global bus, the PLIC, the serial device, the disk with its list of delayed
  operations and its block cache, the counters that are static variables, and the bytes written
  to the terminal. An operation of the code on \<open>cpu\<close> becomes a function with the index of
  the hart; one that touches its hart only is a function on \<open>CPU_State\<close>, lifted with
  \<open>upd_cpu\<close>. What can end the process is a value of type \<open>fault\<close>, and an operation that can fail returns
  \<open>fault + 'a\<close>; an access that leaves the block of guest memory is such a fault (\<open>Overrun\<close>). C integers are words of their width; conversions and signed operations are written
  out. Shifts by the width of the operand or more, and the value of a function that ends without
  \<open>return\<close>, are what the host answers (\<open>host_answers\<close>). The theorems hold for every answer, with one
  exception: those about a hart under Sv39 (\<open>get_pa_translates\<close>, \<open>get_pa_denied\<close>, \<open>runs_paged_programs\<close>,
  \<open>received_byte_interrupts\<close>) take the answer 0 for the undefined \<open>1 << 44\<close> of \<open>mmu.c\<close>, without which the mask
  of the page number is not what its author meant.

  \<^bold>\<open>The theories, in the order of the calls.\<close>
  \<^item> \<open>Prelude\<close>: results and their predicate \<open>sat\<close>, words, selection loops, and the interface
    \<open>byte_store\<close> of a memory that is read and written in little-endian order, with its laws.
  \<^item> \<open>Machine\<close>: constants of \<open>common.h\<close>, the records, the accessors of \<open>cpu.h\<close>.
  \<^item> \<open>Ram\<close> (\<open>memory.c\<close>), \<open>Clint\<close> (\<open>clint.c\<close>), \<open>Plic\<close> (\<open>plic.c\<close>), \<open>Uart\<close> (\<open>uart.c\<close>), \<open>Virtio\<close> and
    \<open>Disk\<close> (\<open>virtio_blk.c\<close>), \<open>Bus_Read\<close> and \<open>Bus\<close> (\<open>bus.c\<close>): the devices and how they are reached. Reading
    the bus is a theory of its own because the disk does so, and a write may notify the disk.
  \<^item> \<open>Mmu\<close> (\<open>mmu.c\<close>): the translation cache, the Sv39 walk, \<open>get_pa\<close>.
  \<^item> \<open>Trap\<close> (\<open>trap.c\<close>): entering traps, choosing interrupts.
  \<^item> \<open>Alu\<close>, \<open>Privileged\<close>, \<open>Load_Store\<close>, \<open>Compressed\<close> (\<open>instructions.c\<close>): one definition per
    handler; the switch of the 16-bit handlers has one definition per case.
  \<^item> \<open>Decode\<close> (\<open>decode.c\<close>): the handler tables as maps, the dispatch, instruction fetch.
  \<^item> \<open>Trap_Vector\<close> (\<open>trap_vector.c\<close>), \<open>Elf\<close> and \<open>Elf32\<close> (\<open>elf_load.c\<close>), \<open>Dts\<close> (\<open>dts.c\<close>).
  \<^item> \<open>Cpu\<close> (\<open>cpu.c\<close>, \<open>main.c\<close>): one step, \<open>cpu_run\<close>, the start of the emulator, one turn of its loop, and
    the emulator as a transition system (\<open>runs\<close>) whose steps are turns of the main loop
    and rounds of the console threads.
  \<^item> \<open>Cpu_Inv\<close>: the interface of execution. A property of the machine that the bus, the memory and
    every admissible update of a hart keep is kept by every instruction, by a step and by a
    turn (locales \<open>machine_inv\<close>, \<open>emu_inv\<close>).
  \<^item> \<open>Emulator\<close>: four instances of it (faults, locks, the counters, the whole emulator), and the properties of the running emulator.
  \<^item> \<open>Encoding\<close>, \<open>Isa\<close>, \<open>Isa_Memory\<close>, \<open>Isa_Compressed\<close>, \<open>Isa_System\<close>: the instruction set as the
    architecture defines it (an abstract syntax, its encoding, its meaning), and the
    comparison of the emulator with it.
  \<^item> \<open>Isa_Run\<close>: whole programs. An abstract machine (\<open>arch_step\<close>) fetches, loads and stores in a byte memory
    through a translation; the interface \<open>address_space\<close> says what a hart owes to that
    translation, and the simulation of the abstract machine by turns of the main loop is proved
    once inside it. It is provided by a hart without translation (\<open>Isa_Run\<close>) and by a hart under Sv39 with
    its page tables and translation cache (\<open>Paged_Run\<close>).
  \<^item> \<open>Device_Runs\<close>, \<open>Disk_Runs\<close>: what crosses all parts. A byte from the console and a
    finished disk request travel through the serial device or the disk, the interrupt controller and
    the hart into the handler of the guest.
  \<^item> \<open>Uart_Host\<close> (\<open>uart.c\<close>): the loops of the console threads, creation and destruction of the
    serial device, the settings of the terminal and of the serial line.

  \<^bold>\<open>What is shown.\<close>
  \<^item> Programs: every run of the abstract machine is a run of the emulator, with and without
    virtual memory; a program with a loop is run to its end in both.
  \<^item> Instructions: for every operand and state the decoder and the handlers do what the
    architecture says, for the instructions listed by \<open>faithful\<close> and \<open>faithful_c\<close>; and for the others
    what they do instead (the departures in the same theories).
  \<^item> System instructions: the access to a CSR that the architecture permits; none is refused.
  \<^item> Translation: \<open>get_pa\<close> against the page table read as a specification, for pages of 4 KiB, with a cache that
    stays coherent; superpages, which all translate to 0; refused accesses; the cache on its own. The cache is specified by a locale of the
    laws of a translation cache, interpreted on the code's.
  \<^item> The running emulator: it boots into the state the kernel file describes; one instruction
    always ends, and leaves the block of guest memory only by an access that passes the end of the
    address space; an invariant over all interleavings from boot; the outcome of \<open>cpu_run\<close>.
  \<^item> Traps: entry and return as a pair (locale \<open>trap_pair\<close>, interpreted for both modes), the
    selection of interrupts in each mode.
  \<^item> Devices: the PLIC chooses the highest priority and its line is exact after an update; the receive buffer of the
    serial device refines a bounded queue (locale of ring buffers); the disk moves exactly one block and
    takes every request of its ring; the routing of the bus; the clock. End to end: a byte at the console
    interrupts the program, pending disk requests complete, and destroying the serial device ends.
  \<^item> The loaders: which files are accepted, where their segments go, and that they stay in memory.

  \<^bold>\<open>Termination and bounds.\<close> The loops of the code are recursion with a measure where they end. Two
  may not: \<open>complete_disk_operation\<close> walks a descriptor chain of the guest, and \<open>cpu_run\<close> runs
  until its hart stops; both are \<open>partial_function (option)\<close>, so \<open>None\<close> is the call that never returns.
  \<open>descriptor_cycle_hangs\<close> shows that the first can hang (a turn of the main loop is then the fault
  \<open>Diverges\<close>), \<open>cpu_run_terminates\<close> that the loop of the second ends, and that \<open>cpu_run\<close> fails to return only
  where an instruction waits for the lock of the serial device for ever. No fuel is used anywhere. The step counters
  are 64-bit, so the invariant counts turns up to \<open>2 ^ 64\<close>.

  \<^bold>\<open>Abstractions.\<close> Logging and the contents of messages are left out, and with them the reads that only a
  message makes; the one that goes outside an array, in the message of \<open>exec_xori\<close>, is a definition of its
  own (\<open>xori_message_read\<close>), so the theorems about faults do not speak of it. Pointers that the code tests for
  \<open>NULL\<close> are never \<open>NULL\<close>. A turn of the main loop is atomic with respect to the console
  threads, which in the program interleave with it at the granularity of the lock of the serial device;
  a lock taken twice by one thread is a deadlock. Signed overflow wraps, as with the compiler
  flags of the project's build. A disk image or kernel file is the list of its bytes, and a read from a
  regular file returns all there is.

  \<^bold>\<open>Not modelled.\<close> What the C library does (the values it computes for terminal settings are
  arguments); a failure of \<open>pthread_create\<close>; the functions that only
  print (\<open>cpu_dump_registers\<close>, \<open>print_all_gpr\<close>, \<open>memory_barrier\<close>, \<open>verify_dtb_for_opensbi\<close>);
  \<open>map_vaddr_to_paddr\<close> and \<open>handle_page_fault\<close>, whose bodies are comments and which nothing calls;
  the clock of the host (\<open>get_real_time_us\<close>, unused); code inside comments; declarations
  without a definition; fields of the structures that nothing reads.
\<close>

end
